(* ===== verification/Prelude.thy ===== *)
theory Prelude
  imports Main "HOL-Library.Word"
begin

text \<open>
  Shared vocabulary of the development: the machine types of the Rust code (bytes, the unsigned
  integers, \<open>[u8; 32]\<close>), the three ways a Rust call can end (a value, an error value, a panic),
  checked and profile-dependent arithmetic, and the generic list and word facts that the component
  theories use.
\<close>

section \<open>Collections of facts\<close>

named_theorems enc_simps \<open>canonical encodings: lengths and cancellation of leading fields\<close>
named_theorems frame_simps \<open>what an operation leaves unchanged\<close>

section \<open>Machine integers\<close>

type_synonym byte = "8 word"
type_synonym u16 = "16 word"
type_synonym u32 = "32 word"
type_synonym u64 = "64 word"

text \<open>
  Rust's \<open>checked_sub\<close> on \<open>u32\<close> and \<open>u64\<close>, \<open>checked_add\<close> on \<open>u64\<close>, and the
  plain \<open>+\<close> on \<open>u64\<close>, which panics on overflow when the crate is compiled with debug
  assertions (the \<open>dev\<close> profile) and wraps around otherwise. The flag \<open>dbg\<close> says which build
  is meant.
\<close>

definition checked_sub :: "'a::len word \<Rightarrow> 'a word \<Rightarrow> 'a word option" where
  "checked_sub a b = (if b \<le> a then Some (a - b) else None)"

definition checked_add :: "'a::len word \<Rightarrow> 'a word \<Rightarrow> 'a word option" where
  "checked_add a b = (if unat a + unat b < 2 ^ LENGTH('a) then Some (a + b) else None)"

definition plus_u64 :: "bool \<Rightarrow> u64 \<Rightarrow> u64 \<Rightarrow> u64 option" where
  "plus_u64 dbg a b = (if dbg then checked_add a b else Some (a + b))"

lemma checked_sub_Some_iff:
  "checked_sub a b = Some c \<longleftrightarrow> unat a = unat b + unat c"
proof
  assume "checked_sub a b = Some c"
  then have "b \<le> a" and "c = a - b" by (auto simp: checked_sub_def split: if_splits)
  then show "unat a = unat b + unat c" by (simp add: unat_sub word_le_nat_alt)
next
  assume h: "unat a = unat b + unat c"
  then have "b \<le> a" by (simp add: word_le_nat_alt)
  moreover from this h have "c = a - b" by (intro word_unat_eq_iff [THEN iffD2]) (simp add: unat_sub)
  ultimately show "checked_sub a b = Some c" by (simp add: checked_sub_def)
qed

lemma checked_sub_None_iff: "checked_sub a b = None \<longleftrightarrow> unat a < unat b"
  by (simp add: checked_sub_def word_le_nat_alt not_le)

lemma checked_add_Some_iff:
  "checked_add a b = Some c \<longleftrightarrow> unat c = unat a + unat b"
proof
  assume "checked_add a b = Some c"
  then have "unat a + unat b < 2 ^ LENGTH('a)" and "c = a + b"
    by (auto simp: checked_add_def split: if_splits)
  then show "unat c = unat a + unat b" by (simp add: unat_word_ariths)
next
  assume h: "unat c = unat a + unat b"
  then have "unat a + unat b < 2 ^ LENGTH('a)" by (metis unsigned_less)
  moreover from this h have "c = a + b"
    by (intro word_unat_eq_iff [THEN iffD2]) (simp add: unat_word_ariths)
  ultimately show "checked_add a b = Some c" by (simp add: checked_add_def)
qed

lemma plus_u64_succ:
  assumes "unat n = unat a + 1"
  shows "plus_u64 dbg a 1 = Some n"
proof -
  from assms have "checked_add a 1 = Some n" by (simp add: checked_add_Some_iff)
  moreover from this have "n = a + 1" by (simp add: checked_add_def split: if_splits)
  ultimately show ?thesis by (simp add: plus_u64_def)
qed

lemma unat_u32_less: "unat (x :: u32) < 4294967296"
proof -
  have "unat x < 2 ^ LENGTH(32)" by (rule unsigned_less)
  then show ?thesis by simp
qed

lemma unat_u32_as_u64 [simp]: "unat (ucast (x :: u32) :: u64) = unat x"
proof -
  have "unat x < 2 ^ 64" using unat_u32_less [of x] by simp
  then show ?thesis by (simp add: unsigned_ucast_eq take_bit_nat_eq_self)
qed

lemma u32_as_u64_inject [simp]: "(ucast (x :: u32) :: u64) = ucast y \<longleftrightarrow> x = y"
  by (metis unat_u32_as_u64 word_unat_eq_iff)

section \<open>How a call can end\<close>

text \<open>
  \<open>Done\<close> is \<open>Ok\<close> (or the plain return value), \<open>Fail\<close> is \<open>Err\<close>, \<open>Panic\<close> is a Rust
  panic (an arithmetic overflow in a debug build, a slice out of range, a failed assertion).
  Where the code cannot panic the result is a plain sum \<open>error + value\<close>.
\<close>

datatype ('e, 'a) outcome = Done 'a | Fail 'e | Panic

definition ok_of :: "'e + 'a \<Rightarrow> ('e, 'a) outcome" where
  "ok_of r = (case r of Inl e \<Rightarrow> Fail e | Inr v \<Rightarrow> Done v)"

text \<open>The \<open>?\<close> operator on plain results: go on with the value, or return the error.\<close>

definition bind_res :: "'e + 'a \<Rightarrow> ('a \<Rightarrow> 'e + 'b) \<Rightarrow> 'e + 'b" where
  "bind_res r f = (case r of Inl e \<Rightarrow> Inl e | Inr v \<Rightarrow> f v)"

lemma bind_res_simps [simp]:
  "bind_res (Inl e) f = Inl e"
  "bind_res (Inr v) f = f v"
  by (simp_all add: bind_res_def)

lemma bind_res_Inr_iff:
  "bind_res r f = Inr b \<longleftrightarrow> (\<exists>a. r = Inr a \<and> f a = Inr b)"
  by (cases r) auto

lemma bind_res_cong [fundef_cong]:
  "r = r' \<Longrightarrow> (\<And>v. r' = Inr v \<Longrightarrow> f v = g v) \<Longrightarrow> bind_res r f = bind_res r' g"
  by (cases r') auto

section \<open>Fixed-size byte arrays\<close>

text \<open>\<open>[u8; 32]\<close>: exactly the byte lists of length 32.\<close>

typedef bytes32 = "{bs :: byte list. length bs = 32}"
  morphisms bytes_of to_bytes32
  by (rule exI [of _ "replicate 32 0"]) simp

setup_lifting type_definition_bytes32

lemma length_bytes_of [simp, enc_simps]: "length (bytes_of a) = 32"
  using bytes_of [of a] by simp

lemma bytes_of_to_bytes32 [simp]: "length bs = 32 \<Longrightarrow> bytes_of (to_bytes32 bs) = bs"
  by (simp add: to_bytes32_inverse)

lemma to_bytes32_bytes_of [simp]: "to_bytes32 (bytes_of a) = a"
  by (rule bytes_of_inverse)

lemma bytes_of_eq_iff [simp]: "bytes_of a = bytes_of b \<longleftrightarrow> a = b"
  by (rule bytes_of_inject)

instantiation bytes32 :: equal
begin

definition equal_bytes32 :: "bytes32 \<Rightarrow> bytes32 \<Rightarrow> bool" where
  "equal_bytes32 a b \<longleftrightarrow> bytes_of a = bytes_of b"

instance
  by standard (simp add: equal_bytes32_def)

end

text \<open>The array literal \<open>[b; 32]\<close>.\<close>

definition fill32 :: "byte \<Rightarrow> bytes32" where
  "fill32 b = to_bytes32 (replicate 32 b)"

lemma bytes_of_fill32 [simp]: "bytes_of (fill32 b) = replicate 32 b"
  by (simp add: fill32_def)

lemma fill32_eq_iff [simp]: "fill32 a = fill32 b \<longleftrightarrow> a = b"
  by (metis bytes_of_fill32 bytes_of_eq_iff replicate_eq_replicate zero_neq_numeral)

section \<open>List facts\<close>

lemma concat_equal_lengths:
  assumes "length xs = length ys"
    and "\<forall>x\<in>set xs. length x = n" and "\<forall>y\<in>set ys. length y = n"
    and "concat xs = concat ys"
  shows "xs = ys"
  using assms by (induction xs ys rule: list_induct2) auto

lemma fold_append: "fold (\<lambda>x acc. acc @ f x) xs acc = acc @ concat (map f xs)"
  by (induction xs arbitrary: acc) auto

end
