(* ===== verification/Byte_Utils.thy ===== *)
theory Byte_Utils
  imports Prelude
begin

text \<open>
  The helpers of \<open>anchor-core/src/util.rs\<close>: little-endian integer encoders, the length-prefixed
  field \<open>push_var\<close>, and the branch-free comparison \<open>ct_eq_32\<close>. The locale
  \<open>prefix_code\<close> states what a canonical encoder owes its clients (a concatenation splits in
  one way only); every encoder used by the protocol is an interpretation of it.
\<close>

unbundle bit_operations_syntax

section \<open>Little-endian integers\<close>

text \<open>\<open>to_le_bytes\<close> of an unsigned integer of \<open>n\<close> bytes: the least significant byte first.\<close>

definition to_le_bytes :: "nat \<Rightarrow> 'a::len word \<Rightarrow> byte list" where
  "to_le_bytes n v = map (\<lambda>i. ucast (drop_bit (8 * i) v)) [0..<n]"

definition u16_le :: "u16 \<Rightarrow> byte list" where
  "u16_le v = to_le_bytes 2 v"

definition u32_le :: "u32 \<Rightarrow> byte list" where
  "u32_le v = to_le_bytes 4 v"

definition u64_le :: "u64 \<Rightarrow> byte list" where
  "u64_le v = to_le_bytes 8 v"

lemma length_to_le_bytes [simp]: "length (to_le_bytes n v) = n"
  by (simp add: to_le_bytes_def)

lemma length_int_le [simp, enc_simps]:
  "length (u16_le a) = 2" "length (u32_le b) = 4" "length (u64_le c) = 8"
  by (simp_all add: u16_le_def u32_le_def u64_le_def)

lemma bit_to_le_bytes:
  fixes v :: "'a::len word"
  assumes "k < 8 * n"
  shows "bit v k \<longleftrightarrow> bit (to_le_bytes n v ! (k div 8)) (k mod 8)"
proof -
  from assms have "k div 8 < n" by (simp add: less_mult_imp_div_less mult.commute)
  moreover have "8 * (k div 8) + k mod 8 = k" by simp
  ultimately show ?thesis
    by (simp add: to_le_bytes_def bit_ucast_iff bit_drop_bit_eq)
qed

lemma to_le_bytes_inject:
  fixes v w :: "'a::len word"
  assumes "LENGTH('a) \<le> 8 * n" and "to_le_bytes n v = to_le_bytes n w"
  shows "v = w"
proof (rule bit_word_eqI)
  fix k assume "k < LENGTH('a)"
  with assms(1) have "k < 8 * n" by simp
  with assms(2) show "bit v k \<longleftrightarrow> bit w k"
    using bit_to_le_bytes [of k n v] bit_to_le_bytes [of k n w] by simp
qed

section \<open>Encoders that concatenate unambiguously\<close>

text \<open>
  The contract of a canonical encoder, on the values it is meant for: followed by anything, the
  encoding can be read back in one way only. A fixed-width injective encoder has it, and so has
  a length-prefixed one.
\<close>

locale prefix_code =
  fixes enc :: "'a \<Rightarrow> byte list"
    and ok :: "'a \<Rightarrow> bool"
  assumes split_unique: "ok a \<Longrightarrow> ok b \<Longrightarrow> enc a @ r = enc b @ s \<Longrightarrow> a = b \<and> r = s"
begin

lemma append_eq_iff:
  "ok a \<Longrightarrow> ok b \<Longrightarrow> enc a @ r = enc b @ s \<longleftrightarrow> a = b \<and> r = s"
  using split_unique by blast

lemma eq_iff: "ok a \<Longrightarrow> ok b \<Longrightarrow> enc a = enc b \<longleftrightarrow> a = b"
  using append_eq_iff [of a b "[]" "[]"] by simp

lemma not_strict_prefix: "ok a \<Longrightarrow> ok b \<Longrightarrow> enc b = enc a @ r \<Longrightarrow> r = []"
  using append_eq_iff [of a b r "[]"] by auto

end

locale fixed_width =
  fixes enc :: "'a \<Rightarrow> byte list"
    and width :: nat
  assumes width: "length (enc a) = width"
    and inject: "enc a = enc b \<Longrightarrow> a = b"
begin

lemma fixed_append_eq_iff: "enc a @ r = enc b @ s \<longleftrightarrow> a = b \<and> r = s"
  using inject by (auto simp: width)

lemma concat_map_inject:
  assumes "length xs = length ys" and "concat (map enc xs) = concat (map enc ys)"
  shows "xs = ys"
  using assms by (induction xs ys rule: list_induct2) (auto simp: fixed_append_eq_iff)

end

sublocale fixed_width \<subseteq> prefix_code enc "\<lambda>_. True"
  by unfold_locales (simp add: fixed_append_eq_iff)

interpretation u16c: fixed_width u16_le 2
  by unfold_locales (auto simp: u16_le_def intro: to_le_bytes_inject [of 2])

interpretation u32c: fixed_width u32_le 4
  by unfold_locales (auto simp: u32_le_def intro: to_le_bytes_inject [of 4])

interpretation u64c: fixed_width u64_le 8
  by unfold_locales (auto simp: u64_le_def intro: to_le_bytes_inject [of 8])

interpretation b32c: fixed_width bytes_of 32
  by unfold_locales simp_all

section \<open>Length-prefixed fields\<close>

text \<open>
  \<open>push_var\<close> appends the field behind its length as a \<open>u32\<close>; \<open>field.len() as u32\<close>
  truncates. The bound that its \<open>debug_assert!\<close> states is \<open>field_fits\<close>: a debug build
  panics where it fails, a release build goes on with the truncated prefix.
\<close>

definition field_fits :: "byte list \<Rightarrow> bool" where
  "field_fits field \<longleftrightarrow> length field \<le> 4294967295"

definition push_var :: "byte list \<Rightarrow> byte list \<Rightarrow> byte list" where
  "push_var buf field = (buf @ u32_le (of_nat (length field))) @ field"

lemma push_var_Nil: "push_var buf field = buf @ push_var [] field"
  by (simp add: push_var_def)

lemma length_prefix_inject:
  assumes "field_fits f" and "field_fits g"
    and "(of_nat (length f) :: u32) = of_nat (length g)"
  shows "length f = length g"
proof -
  have "length f < 2 ^ LENGTH(32)" and "length g < 2 ^ LENGTH(32)"
    using assms(1,2) by (simp_all add: field_fits_def)
  with assms(3) show ?thesis by (metis of_nat_inverse)
qed

interpretation varc: prefix_code "push_var []" field_fits
proof
  fix f g r s
  assume ok: "field_fits f" "field_fits g" and eq: "push_var [] f @ r = push_var [] g @ s"
  then have len: "(of_nat (length f) :: u32) = of_nat (length g)" and rest: "f @ r = g @ s"
    by (simp_all add: push_var_def u32c.fixed_append_eq_iff)
  from length_prefix_inject [OF ok len] rest show "f = g \<and> r = s" by simp
qed

lemmas split_simps =
  u16c.fixed_append_eq_iff u32c.fixed_append_eq_iff u64c.fixed_append_eq_iff
  b32c.fixed_append_eq_iff varc.append_eq_iff u16c.eq_iff u32c.eq_iff u64c.eq_iff varc.eq_iff

text \<open>
  Without the bound the truncated prefix does alias: two fields of lengths that differ by
  \<open>2\<^sup>3\<^sup>2\<close> can have encodings that agree once something follows the shorter one.
\<close>

lemma push_var_aliases:
  assumes "length pad = 4294967296"
  shows "push_var [] (f @ pad) = push_var [] f @ pad"
proof -
  have z: "(4294967296 :: u32) = 0" by simp
  show ?thesis
    by (simp only: push_var_def length_append assms of_nat_add of_nat_numeral z add_0_right
        append_assoc)
qed

section \<open>Constant-time equality\<close>

definition ct_eq_32 :: "bytes32 \<Rightarrow> bytes32 \<Rightarrow> bool" where
  "ct_eq_32 a b =
     (fold (\<lambda>i diff. diff OR (bytes_of a ! i XOR bytes_of b ! i)) [0..<32] (0 :: byte) = 0)"

lemma or_eq_0_iff: "(x :: 'a::len word) OR y = 0 \<longleftrightarrow> x = 0 \<and> y = 0"
  by (auto simp: bit_eq_iff bit_or_iff)

lemma xor_eq_0_iff': "(x :: 'a::len word) XOR y = 0 \<longleftrightarrow> x = y"
  by (auto simp: bit_eq_iff bit_xor_iff)

lemma fold_or_eq_0_iff:
  "fold (\<lambda>i diff. diff OR f i) is acc = (0 :: 'a::len word) \<longleftrightarrow> acc = 0 \<and> (\<forall>i\<in>set is. f i = 0)"
  by (induction "is" arbitrary: acc) (auto simp: or_eq_0_iff)

lemma ct_eq_32_iff [simp]: "ct_eq_32 a b \<longleftrightarrow> a = b"
proof -
  have "ct_eq_32 a b \<longleftrightarrow> (\<forall>i < 32. bytes_of a ! i = bytes_of b ! i)"
    by (simp add: ct_eq_32_def fold_or_eq_0_iff xor_eq_0_iff' Ball_def)
  also have "\<dots> \<longleftrightarrow> bytes_of a = bytes_of b"
    by (auto simp del: bytes_of_eq_iff intro: nth_equalityI)
  finally show ?thesis by simp
qed

end
