(* ===== verification/Blake3_Hash.thy ===== *)
theory Blake3_Hash
  imports Byte_Utils
begin

text \<open>
  \<open>anchor-core/src/hash.rs\<close> and \<open>anchor-core/src/domain.rs\<close>: the domain-separated hash \<open>h\<close> (here \<open>hash_h\<close>),
  the keyed hash \<open>kdf\<close> and the domain tags. BLAKE3 itself is the external crate \<open>blake3\<close>, a
  parameter of every definition: any two functions of the right type will do, and no theorem
  assumes anything of them.
\<close>

section \<open>The external hash\<close>

text \<open>
  \<open>b3_hash\<close> and \<open>b3_keyed\<close> are the finished digests of the whole input of a \<open>Hasher::new()\<close>
  and a \<open>Hasher::new_keyed(key)\<close>; \<open>update\<close> adds its argument to that input.
\<close>

record blake3 =
  b3_hash :: "byte list \<Rightarrow> bytes32"
  b3_keyed :: "bytes32 \<Rightarrow> byte list \<Rightarrow> bytes32"

text \<open>\<open>str::as_bytes\<close>; every string in the code is ASCII.\<close>

definition as_bytes :: "string \<Rightarrow> byte list" where
  "as_bytes s = map of_char s"

text \<open>The input a hasher has received after the domain string and the fields, in order.\<close>

definition hasher_input :: "string \<Rightarrow> byte list list \<Rightarrow> byte list" where
  "hasher_input domain fs = fold (\<lambda>f input. input @ f) fs (as_bytes domain)"

definition hash_h :: "blake3 \<Rightarrow> string \<Rightarrow> byte list list \<Rightarrow> bytes32" where
  "hash_h B domain fs = b3_hash B (hasher_input domain fs)"

definition kdf :: "blake3 \<Rightarrow> bytes32 \<Rightarrow> string \<Rightarrow> byte list list \<Rightarrow> bytes32" where
  "kdf B secret domain fs = b3_keyed B secret (hasher_input domain fs)"

lemma hasher_input_eq: "hasher_input domain fs = as_bytes domain @ concat fs"
  using fold_append [of "\<lambda>x. x"] by (simp add: hasher_input_def)

text \<open>
  Two hash inputs collide under \<open>B\<close>: they differ and their digests agree. Binding theorems give
  the colliding inputs explicitly, since some collision always exists.
\<close>

definition collides :: "blake3 \<Rightarrow> byte list \<Rightarrow> byte list \<Rightarrow> bool" where
  "collides B x y \<longleftrightarrow> x \<noteq> y \<and> b3_hash B x = b3_hash B y"

lemma hash_h_eq_collides:
  "hash_h B d fs = hash_h B d' fs' \<Longrightarrow>
     hasher_input d fs = hasher_input d' fs' \<or> collides B (hasher_input d fs) (hasher_input d' fs')"
  by (auto simp: hash_h_def collides_def)

text \<open>
  A concrete instance of the parameter, for closed examples: the last 32 input bytes, padded.
\<close>

definition sample_blake3 :: blake3 where
  "sample_blake3 =
     \<lparr> b3_hash = (\<lambda>xs. to_bytes32 (take 32 (rev xs @ replicate 32 0))),
       b3_keyed = (\<lambda>key xs. to_bytes32 (take 32 (rev xs @ bytes_of key))) \<rparr>"

section \<open>Domain tags\<close>

definition TRANSITION_DIGEST_V1 :: string where
  "TRANSITION_DIGEST_V1 = ''DSM/root-advance/transition-digest/v1''"

definition ROOT_ADVANCE_INPUT_V1 :: string where
  "ROOT_ADVANCE_INPUT_V1 = ''DSM/tropic/root-advance-input/v1''"

definition ROOT_ADVANCE_WITNESS_KEY_V1 :: string where
  "ROOT_ADVANCE_WITNESS_KEY_V1 = ''DSM/tropic/root-advance-witness-key/v1''"

definition PK_HASH_V1 :: string where
  "PK_HASH_V1 = ''DSM/tropic/pk-hash/v1''"

definition CERT_MESSAGE_V1 :: string where
  "CERT_MESSAGE_V1 = ''DSM/root-advance/cert-message/v1''"

definition WOTS_CHAIN_V1 :: string where
  "WOTS_CHAIN_V1 = ''DSM/anchor/wots-chain/v1''"

definition WOTS_SK_V1 :: string where
  "WOTS_SK_V1 = ''DSM/anchor/wots-sk/v1''"

definition WOTS_PK_V1 :: string where
  "WOTS_PK_V1 = ''DSM/anchor/wots-pk/v1''"

lemmas domain_defs =
  TRANSITION_DIGEST_V1_def ROOT_ADVANCE_INPUT_V1_def ROOT_ADVANCE_WITNESS_KEY_V1_def
  PK_HASH_V1_def CERT_MESSAGE_V1_def WOTS_CHAIN_V1_def WOTS_SK_V1_def WOTS_PK_V1_def

definition domain_tags :: "string list" where
  "domain_tags =
     [TRANSITION_DIGEST_V1, ROOT_ADVANCE_INPUT_V1, ROOT_ADVANCE_WITNESS_KEY_V1, PK_HASH_V1,
      CERT_MESSAGE_V1, WOTS_CHAIN_V1, WOTS_SK_V1, WOTS_PK_V1]"

text \<open>
  No tag is a prefix of another: each pair differs at some position both have. The position is
  found by \<open>diff_at\<close>, so the fact is a finite evaluation.
\<close>

fun diff_at :: "'a list \<Rightarrow> 'a list \<Rightarrow> bool" where
  "diff_at (x # xs) (y # ys) = (x \<noteq> y \<or> diff_at xs ys)"
| "diff_at _ _ = False"

lemma diff_at_append: "diff_at xs ys \<Longrightarrow> xs @ r \<noteq> ys @ s"
  by (induction xs ys rule: diff_at.induct) auto

definition tags_separated :: "byte list list \<Rightarrow> bool" where
  "tags_separated ts = list_all (\<lambda>i. list_all (\<lambda>j. i = j \<or> diff_at (ts ! i) (ts ! j))
     [0..<length ts]) [0..<length ts]"

lemma domain_tags_separated: "tags_separated (map as_bytes domain_tags)"
  by code_simp

lemma domain_tags_distinct: "distinct domain_tags"
  by code_simp

lemma domain_inputs_disjoint:
  assumes "d \<in> set domain_tags" and "d' \<in> set domain_tags" and "d \<noteq> d'"
  shows "hasher_input d fs \<noteq> hasher_input d' fs'"
proof -
  from assms obtain i j where ij: "i < length domain_tags" "j < length domain_tags"
    "d = domain_tags ! i" "d' = domain_tags ! j" "i \<noteq> j"
    by (auto simp: in_set_conv_nth)
  have "\<forall>i\<in>set [0..<length domain_tags]. \<forall>j\<in>set [0..<length domain_tags].
      i = j \<or> diff_at (as_bytes (domain_tags ! i)) (as_bytes (domain_tags ! j))"
    using domain_tags_separated by (simp add: tags_separated_def list_all_iff)
  with ij(1,2,5) have "diff_at (as_bytes (domain_tags ! i)) (as_bytes (domain_tags ! j))"
    by (metis atLeastLessThan_iff le0 set_upt)
  with ij have "diff_at (as_bytes d) (as_bytes d')" by simp
  then show ?thesis by (simp add: hasher_input_eq diff_at_append)
qed

end
