(* ===== verification/Root_Advance.thy ===== *)
theory Root_Advance
  imports Blake3_Hash
begin

text \<open>
  \<open>anchor-core/src/root_advance.rs\<close>: the transition package, its canonical encoding, the digests
  that bind it (\<open>D\<close>, \<open>X\<close>, the witness key \<open>K\<close>, \<open>P_hw\<close>, the certificate message \<open>M\<close>) and the
  release artifacts. The lemmas show that every encoding fed to the hash determines the bound
  fields, so that two objects with one digest are equal or are an explicit hash collision.
\<close>

section \<open>The transition package\<close>

text \<open>
  \<open>Transition<'a>\<close> borrows the fields that \<open>OwnedTransition\<close> owns. As values both are this record;
  the conversions \<open>OwnedTransition::from\<close> and \<open>as_transition\<close> are written out field by field.
\<close>

record transition =
  relationship_id :: bytes32
  object_id :: bytes32
  sender_device_id :: bytes32
  recipient_device_id :: bytes32
  prev_root :: bytes32
  next_root :: bytes32
  anchor_counter :: u64
  next_anchor_counter :: u64
  action_type :: u32
  action_fields :: "byte list"
  payload_hash :: bytes32
  old_leaf_proof :: "byte list"
  new_leaf_proof :: "byte list"
  authority_policy_hash :: bytes32

type_synonym owned_transition = transition

definition owned_from :: "transition \<Rightarrow> owned_transition" where
  "owned_from t =
     \<lparr> relationship_id = relationship_id t,
       object_id = object_id t,
       sender_device_id = sender_device_id t,
       recipient_device_id = recipient_device_id t,
       prev_root = prev_root t,
       next_root = next_root t,
       anchor_counter = anchor_counter t,
       next_anchor_counter = next_anchor_counter t,
       action_type = action_type t,
       action_fields = action_fields t,
       payload_hash = payload_hash t,
       old_leaf_proof = old_leaf_proof t,
       new_leaf_proof = new_leaf_proof t,
       authority_policy_hash = authority_policy_hash t \<rparr>"

definition as_transition :: "owned_transition \<Rightarrow> transition" where
  "as_transition ot =
     \<lparr> relationship_id = relationship_id ot,
       object_id = object_id ot,
       sender_device_id = sender_device_id ot,
       recipient_device_id = recipient_device_id ot,
       prev_root = prev_root ot,
       next_root = next_root ot,
       anchor_counter = anchor_counter ot,
       next_anchor_counter = next_anchor_counter ot,
       action_type = action_type ot,
       action_fields = action_fields ot,
       payload_hash = payload_hash ot,
       old_leaf_proof = old_leaf_proof ot,
       new_leaf_proof = new_leaf_proof ot,
       authority_policy_hash = authority_policy_hash ot \<rparr>"

lemma owned_from_id [simp]: "owned_from t = t"
  by (simp add: owned_from_def)

lemma as_transition_id [simp]: "as_transition ot = ot"
  by (simp add: as_transition_def)

section \<open>The canonical encoding\<close>

definition enc_transition :: "transition \<Rightarrow> byte list" where
  "enc_transition t =
     (let v = [] :: byte list;
          v = v @ bytes_of (relationship_id t);
          v = v @ bytes_of (object_id t);
          v = v @ bytes_of (sender_device_id t);
          v = v @ bytes_of (recipient_device_id t);
          v = v @ bytes_of (prev_root t);
          v = v @ bytes_of (next_root t);
          v = v @ u64_le (anchor_counter t);
          v = v @ u64_le (next_anchor_counter t);
          v = v @ u32_le (action_type t);
          v = push_var v (action_fields t);
          v = v @ bytes_of (payload_hash t);
          v = push_var v (old_leaf_proof t);
          v = push_var v (new_leaf_proof t);
          v = v @ bytes_of (authority_policy_hash t)
      in v)"

text \<open>
  The three assertions of \<open>push_var\<close> that one encoding runs; with debug assertions compiled in,
  an encoding of a package that fails them panics.
\<close>

definition enc_fits :: "transition \<Rightarrow> bool" where
  "enc_fits t \<longleftrightarrow>
     field_fits (action_fields t) \<and> field_fits (old_leaf_proof t) \<and> field_fits (new_leaf_proof t)"

lemma enc_transition_eq:
  "enc_transition t =
     bytes_of (relationship_id t) @ bytes_of (object_id t) @ bytes_of (sender_device_id t) @
     bytes_of (recipient_device_id t) @ bytes_of (prev_root t) @ bytes_of (next_root t) @
     u64_le (anchor_counter t) @ u64_le (next_anchor_counter t) @ u32_le (action_type t) @
     push_var [] (action_fields t) @ bytes_of (payload_hash t) @ push_var [] (old_leaf_proof t) @
     push_var [] (new_leaf_proof t) @ bytes_of (authority_policy_hash t)"
  by (simp add: enc_transition_def Let_def push_var_def)

lemma enc_transition_inject:
  assumes "enc_fits t" and "enc_fits t'"
  shows "enc_transition t = enc_transition t' \<longleftrightarrow> t = t'"
  using assms
  by (auto simp: enc_transition_eq enc_fits_def split_simps intro!: transition.equality)

section \<open>Digests\<close>

definition transition_digest :: "blake3 \<Rightarrow> transition \<Rightarrow> bytes32" where
  "transition_digest B t = hash_h B TRANSITION_DIGEST_V1 [enc_transition t]"

definition witness_input_fields ::
    "transition \<Rightarrow> bytes32 \<Rightarrow> bytes32 \<Rightarrow> u16 \<Rightarrow> bytes32 \<Rightarrow> byte list list" where
  "witness_input_fields t d anchor_id q receiver_challenge =
     [bytes_of (prev_root t), bytes_of (next_root t),
      u64_le (anchor_counter t), u64_le (next_anchor_counter t),
      bytes_of d, bytes_of (recipient_device_id t), bytes_of (object_id t),
      bytes_of (authority_policy_hash t), bytes_of anchor_id, u16_le q,
      bytes_of receiver_challenge]"

definition witness_input ::
    "blake3 \<Rightarrow> transition \<Rightarrow> bytes32 \<Rightarrow> bytes32 \<Rightarrow> u16 \<Rightarrow> bytes32 \<Rightarrow> bytes32" where
  "witness_input B t d anchor_id q receiver_challenge =
     hash_h B ROOT_ADVANCE_INPUT_V1 (witness_input_fields t d anchor_id q receiver_challenge)"

definition witness_key_material ::
    "blake3 \<Rightarrow> bytes32 \<Rightarrow> bytes32 \<Rightarrow> transition \<Rightarrow> bytes32 \<Rightarrow> u16 \<Rightarrow> bytes32" where
  "witness_key_material B w x t anchor_id q =
     kdf B w ROOT_ADVANCE_WITNESS_KEY_V1
       [bytes_of x, bytes_of (prev_root t), bytes_of (next_root t),
        u64_le (anchor_counter t), u64_le (next_anchor_counter t),
        bytes_of anchor_id, u16_le q, bytes_of (authority_policy_hash t)]"

definition pk_hash :: "blake3 \<Rightarrow> byte list \<Rightarrow> bytes32" where
  "pk_hash B pk_hw = hash_h B PK_HASH_V1 [pk_hw]"

definition cert_message_fields ::
    "transition \<Rightarrow> bytes32 \<Rightarrow> bytes32 \<Rightarrow> bytes32 \<Rightarrow> bytes32 \<Rightarrow> u16 \<Rightarrow> bytes32 \<Rightarrow> byte list list" where
  "cert_message_fields t d x p_hw anchor_id q receiver_challenge =
     [bytes_of (prev_root t), bytes_of (next_root t),
      u64_le (anchor_counter t), u64_le (next_anchor_counter t),
      bytes_of d, bytes_of x, bytes_of p_hw, bytes_of (recipient_device_id t),
      bytes_of (object_id t), bytes_of (authority_policy_hash t), bytes_of anchor_id, u16_le q,
      bytes_of receiver_challenge]"

definition cert_message ::
    "blake3 \<Rightarrow> transition \<Rightarrow> bytes32 \<Rightarrow> bytes32 \<Rightarrow> bytes32 \<Rightarrow> bytes32 \<Rightarrow> u16 \<Rightarrow> bytes32 \<Rightarrow> bytes32"
where
  "cert_message B t d x p_hw anchor_id q receiver_challenge =
     hash_h B CERT_MESSAGE_V1 (cert_message_fields t d x p_hw anchor_id q receiver_challenge)"

lemmas digest_defs =
  transition_digest_def witness_input_def witness_input_fields_def witness_key_material_def
  pk_hash_def cert_message_def cert_message_fields_def

lemma witness_input_fields_inject:
  "concat (witness_input_fields t d anc q rc) = concat (witness_input_fields t' d' anc' q' rc') \<longleftrightarrow>
     prev_root t = prev_root t' \<and> next_root t = next_root t' \<and>
     anchor_counter t = anchor_counter t' \<and> next_anchor_counter t = next_anchor_counter t' \<and>
     d = d' \<and> recipient_device_id t = recipient_device_id t' \<and> object_id t = object_id t' \<and>
     authority_policy_hash t = authority_policy_hash t' \<and> anc = anc' \<and> q = q' \<and> rc = rc'"
  by (simp add: witness_input_fields_def split_simps)

lemma cert_message_fields_inject:
  "concat (cert_message_fields t d x p anc q rc) = concat (cert_message_fields t' d' x' p' anc' q' rc')
   \<longleftrightarrow> prev_root t = prev_root t' \<and> next_root t = next_root t' \<and>
     anchor_counter t = anchor_counter t' \<and> next_anchor_counter t = next_anchor_counter t' \<and>
     d = d' \<and> x = x' \<and> p = p' \<and> recipient_device_id t = recipient_device_id t' \<and>
     object_id t = object_id t' \<and> authority_policy_hash t = authority_policy_hash t' \<and>
     anc = anc' \<and> q = q' \<and> rc = rc'"
  by (simp add: cert_message_fields_def split_simps)

section \<open>Binding\<close>

text \<open>The exact inputs of the hash behind \<open>D\<close>, \<open>X\<close>, \<open>P_hw\<close> and \<open>M\<close>.\<close>

definition digest_input :: "transition \<Rightarrow> byte list" where
  "digest_input t = hasher_input TRANSITION_DIGEST_V1 [enc_transition t]"

definition pk_hash_input :: "byte list \<Rightarrow> byte list" where
  "pk_hash_input pk = hasher_input PK_HASH_V1 [pk]"

lemma transition_digest_eqD:
  assumes "transition_digest B t = transition_digest B t'" and "enc_fits t" and "enc_fits t'"
  shows "t = t' \<or> collides B (digest_input t) (digest_input t')"
  using assms enc_transition_inject [of t t']
  by (auto simp: transition_digest_def hash_h_def collides_def digest_input_def hasher_input_eq)

lemma pk_hash_eqD:
  "pk_hash B pk = pk_hash B pk' \<Longrightarrow> pk = pk' \<or> collides B (pk_hash_input pk) (pk_hash_input pk')"
  by (auto simp: pk_hash_def hash_h_def collides_def pk_hash_input_def hasher_input_eq)

text \<open>
  The transition digest binds the whole package. If two packages whose variable-length fields
  fit their 32-bit length prefixes have the same digest, they are equal in every field, or their
  canonical encodings behind the domain tag are an explicit collision of the hash.
\<close>

lemma transition_digest_binds:
  assumes "enc_fits t" and "enc_fits t'" and "transition_digest B t = transition_digest B t'"
  shows "t = t' \<or> collides B (digest_input t) (digest_input t')"
  using transition_digest_eqD [OF assms(3,1,2)] .

text \<open>
  Two packages with the same policy, told apart by their roots: under the sample hash, which looks
  at the last 32 bytes only, their digests agree, and the theorem exhibits the collision.
\<close>

definition sample_transition :: "byte \<Rightarrow> transition" where
  "sample_transition b =
     \<lparr> relationship_id = fill32 1, object_id = fill32 2, sender_device_id = fill32 3,
       recipient_device_id = fill32 4, prev_root = fill32 0, next_root = fill32 b,
       anchor_counter = 0, next_anchor_counter = 1, action_type = 0, action_fields = [170, 187],
       payload_hash = fill32 9, old_leaf_proof = [], new_leaf_proof = [],
       authority_policy_hash = fill32 176 \<rparr>"

lemma sample_transition_fits: "enc_fits (sample_transition b)"
  by (simp add: sample_transition_def enc_fits_def field_fits_def)

lemma sample_digest_eq:
  "transition_digest sample_blake3 (sample_transition 17) = transition_digest sample_blake3 (sample_transition 18)"
  by (simp add: transition_digest_def hash_h_def hasher_input_eq enc_transition_eq sample_blake3_def
      sample_transition_def)

lemma transition_digest_binds_witness:
  "collides sample_blake3 (digest_input (sample_transition 17)) (digest_input (sample_transition 18))"
  using transition_digest_binds [OF sample_transition_fits sample_transition_fits sample_digest_eq]
  by (simp add: sample_transition_def)

text \<open>
  The witness input binds the advance. Equal witness inputs mean equal roots, indices, digest,
  recipient, object, policy, anchor, slot and receiver challenge, or an explicit hash collision.
\<close>

lemma witness_input_binds:
  assumes "witness_input B t d anc q rc = witness_input B t' d' anc' q' rc'"
  shows "(prev_root t = prev_root t' \<and> next_root t = next_root t' \<and>
      anchor_counter t = anchor_counter t' \<and> next_anchor_counter t = next_anchor_counter t' \<and>
      d = d' \<and> recipient_device_id t = recipient_device_id t' \<and> object_id t = object_id t' \<and>
      authority_policy_hash t = authority_policy_hash t' \<and> anc = anc' \<and> q = q' \<and> rc = rc') \<or>
    collides B (hasher_input ROOT_ADVANCE_INPUT_V1 (witness_input_fields t d anc q rc))
      (hasher_input ROOT_ADVANCE_INPUT_V1 (witness_input_fields t' d' anc' q' rc'))"
  using assms witness_input_fields_inject [of t d anc q rc t' d' anc' q' rc']
  by (auto simp: witness_input_def hash_h_def collides_def hasher_input_eq)

text \<open>
  Domain separation. The hash inputs built under two different domain tags are never equal,
  whatever the fields: no tag of \<open>domain.rs\<close> is a prefix of another.
\<close>

lemma domains_separate:
  assumes "d \<in> set domain_tags" and "d' \<in> set domain_tags" and "d \<noteq> d'"
  shows "hasher_input d fs \<noteq> hasher_input d' fs'"
  using assms by (rule domain_inputs_disjoint)

section \<open>Release artifacts\<close>

record certificate =
  c_prev_root :: bytes32
  c_next_root :: bytes32
  c_anchor_counter :: u64
  c_next_anchor_counter :: u64
  c_transition_digest :: bytes32
  c_witness_input :: bytes32
  c_pk_hash :: bytes32
  c_pk_hw :: "byte list"
  c_sigma :: "byte list"
  c_anchor_id :: bytes32
  c_slot :: u16
  c_receiver_challenge :: bytes32

record counter_evidence =
  ev_anchor_id :: bytes32
  ev_enrolled_counter :: u64
  ev_live_counter_claim :: u64
  ev_derived_index_claim :: u64
  ev_verifier_transcript :: "byte list"

record offline_release =
  rel_transition :: owned_transition
  rel_cert :: certificate
  rel_counter :: counter_evidence

end
