(* ===== verification/Anchor_Spec.thy ===== *)
theory Anchor_Spec
  imports Root_Advance
begin

text \<open>
  The abstract anchor: what the appliance promises, without keys, hashes, chip sessions or error
  codes. It holds a root and an index, goes through the stages of one transfer, and keeps two
  histories, the releases that became final with a counter step (\<open>a_chain\<close>) and those handed out
  (\<open>a_log\<close>). Counter steps from outside may happen at any time.
\<close>

section \<open>The machine\<close>

datatype stage =
    Idle
  | Drafted transition
  | Sealed offline_release
  | Released offline_release

record anchor =
  a_root :: bytes32
  a_index :: nat
  a_steps :: nat
  a_stage :: stage
  a_chain :: "offline_release list"
  a_log :: "offline_release list"

definition rel_index :: "offline_release \<Rightarrow> nat" where
  "rel_index r = unat (next_anchor_counter (rel_transition r))"

definition rel_root :: "offline_release \<Rightarrow> bytes32" where
  "rel_root r = next_root (rel_transition r)"

definition fresh_anchor :: "bytes32 \<Rightarrow> nat \<Rightarrow> anchor" where
  "fresh_anchor g n =
     \<lparr> a_root = g, a_index = 0, a_steps = n, a_stage = Idle, a_chain = [], a_log = [] \<rparr>"

text \<open>The transition that the anchor may take next.\<close>

definition next_step :: "anchor \<Rightarrow> transition \<Rightarrow> bool" where
  "next_step a t \<longleftrightarrow>
     prev_root t = a_root a \<and> unat (anchor_counter t) = a_index a \<and>
     unat (next_anchor_counter t) = a_index a + 1"

inductive anchor_step :: "anchor \<Rightarrow> anchor \<Rightarrow> bool" where
  draft: "a_stage a = Idle \<Longrightarrow> next_step a t \<Longrightarrow> a_index a = a_steps a \<Longrightarrow>
    anchor_step a (a\<lparr>a_stage := Drafted t\<rparr>)"
| abandon: "a_stage a = Drafted t \<Longrightarrow> anchor_step a (a\<lparr>a_stage := Idle\<rparr>)"
| seal: "a_stage a = Drafted t \<Longrightarrow> rel_transition r = t \<Longrightarrow> a_index a = a_steps a \<Longrightarrow>
    anchor_step a (a\<lparr>a_stage := Sealed r\<rparr>)"
| tick: "a_steps a \<le> n \<Longrightarrow> anchor_step a (a\<lparr>a_steps := n\<rparr>)"
| release: "a_stage a = Sealed r \<Longrightarrow> a_steps a = rel_index r \<Longrightarrow>
    anchor_step a (a\<lparr>a_stage := Released r, a_index := rel_index r, a_chain := a_chain a @ [r]\<rparr>)"
| publish: "a_stage a = Released r \<Longrightarrow> anchor_step a (a\<lparr>a_log := a_log a @ [r]\<rparr>)"
| advance: "a_stage a = Released r \<Longrightarrow> a_steps a = rel_index r \<Longrightarrow>
    anchor_step a (a\<lparr>a_stage := Idle, a_root := rel_root r\<rparr>)"

inductive_cases anchor_stepE: "anchor_step a a'"

section \<open>Safety of the machine\<close>

text \<open>A list of releases leads from one root to another, each starting where the last ended.\<close>

fun path :: "bytes32 \<Rightarrow> offline_release list \<Rightarrow> bytes32 \<Rightarrow> bool" where
  "path g [] h \<longleftrightarrow> g = h"
| "path g (r # rs) h \<longleftrightarrow> prev_root (rel_transition r) = g \<and> path (rel_root r) rs h"

lemma path_snoc: "path g (rs @ [r]) h \<longleftrightarrow> path g rs (prev_root (rel_transition r)) \<and> rel_root r = h"
  by (induction rs arbitrary: g) auto

text \<open>The releases are numbered \<open>1, 2, ..., n\<close>.\<close>

definition numbered :: "offline_release list \<Rightarrow> bool" where
  "numbered rs \<longleftrightarrow> map rel_index rs = [1 ..< Suc (length rs)]"

lemma numbered_Nil [simp]: "numbered []"
  by (simp add: numbered_def)

lemma numbered_snoc: "numbered (rs @ [r]) \<longleftrightarrow> numbered rs \<and> rel_index r = Suc (length rs)"
  by (auto simp: numbered_def)

lemma numbered_unique:
  assumes "numbered rs" and "r \<in> set rs" and "r' \<in> set rs" and "rel_index r = rel_index r'"
  shows "r = r'"
proof -
  have "distinct (map rel_index rs)" using assms(1) by (simp add: numbered_def)
  then show ?thesis using assms(2-4) by (auto simp: distinct_map dest: inj_onD)
qed

lemma numbered_bound:
  assumes "numbered rs" and "r \<in> set rs"
  shows "1 \<le> rel_index r" and "rel_index r \<le> length rs"
proof -
  have "rel_index r \<in> set (map rel_index rs)" using assms(2) by simp
  then have "rel_index r \<in> set [1 ..< Suc (length rs)]"
    using assms(1) by (simp only: numbered_def)
  then show "1 \<le> rel_index r" and "rel_index r \<le> length rs" by auto
qed

text \<open>The root at which the chain of released transfers ends, finalized or not.\<close>

definition chain_end :: "anchor \<Rightarrow> bytes32" where
  "chain_end a = (case a_stage a of Released r \<Rightarrow> rel_root r | _ \<Rightarrow> a_root a)"

definition stage_ok :: "anchor \<Rightarrow> bool" where
  "stage_ok a =
     (case a_stage a of
        Idle \<Rightarrow> True
      | Drafted t \<Rightarrow> next_step a t
      | Sealed r \<Rightarrow> next_step a (rel_transition r)
      | Released r \<Rightarrow> r \<in> set (a_chain a) \<and> rel_index r = a_index a)"

definition anchor_inv :: "bytes32 \<Rightarrow> anchor \<Rightarrow> bool" where
  "anchor_inv g a \<longleftrightarrow>
     path g (a_chain a) (chain_end a) \<and> numbered (a_chain a) \<and>
     a_index a = length (a_chain a) \<and> a_index a \<le> a_steps a \<and>
     set (a_log a) \<subseteq> set (a_chain a) \<and> stage_ok a"

lemmas anchor_inv_defs = anchor_inv_def chain_end_def stage_ok_def next_step_def

lemma fresh_anchor_inv: "anchor_inv g (fresh_anchor g n)"
  by (simp add: anchor_inv_defs fresh_anchor_def)

lemma anchor_inv_step:
  assumes "anchor_step a a'" and "anchor_inv g a"
  shows "anchor_inv g a'"
  using assms
proof cases
  case (release r)
  with assms(2) have "rel_index r = Suc (length (a_chain a))" and
    "path g (a_chain a) (prev_root (rel_transition r))"
    by (simp_all add: anchor_inv_defs rel_index_def)
  with release assms(2) show ?thesis
    by (auto simp: anchor_inv_defs path_snoc numbered_snoc)
qed (auto simp: anchor_inv_defs split: stage.splits)

lemma anchor_inv_steps: "anchor_step\<^sup>*\<^sup>* a a' \<Longrightarrow> anchor_inv g a \<Longrightarrow> anchor_inv g a'"
  by (induction rule: rtranclp_induct) (auto intro: anchor_inv_step)

text \<open>
  Once the counter is ahead of the index with no transfer sealed or released, no release is ever
  published again.
\<close>

definition retired :: "anchor \<Rightarrow> bool" where
  "retired a \<longleftrightarrow> a_index a < a_steps a \<and>
     (case a_stage a of Idle \<Rightarrow> True | Drafted t \<Rightarrow> True | _ \<Rightarrow> False)"

lemma retired_step:
  assumes "anchor_step a a'" and "retired a"
  shows "retired a' \<and> a_log a' = a_log a"
  using assms by (elim anchor_stepE) (auto simp: retired_def split: stage.splits)

lemma retired_steps:
  "anchor_step\<^sup>*\<^sup>* a a' \<Longrightarrow> retired a \<Longrightarrow> retired a' \<and> a_log a' = a_log a"
  by (induction rule: rtranclp_induct) (auto dest: retired_step)

section \<open>Forward simulation\<close>

locale forward_simulation =
  fixes step :: "'s \<Rightarrow> 's \<Rightarrow> bool"
    and spec_step :: "'t \<Rightarrow> 't \<Rightarrow> bool"
    and rep :: "'s \<Rightarrow> 't \<Rightarrow> bool"
  assumes simulates: "step s s' \<Longrightarrow> rep s t \<Longrightarrow> \<exists>t'. spec_step\<^sup>*\<^sup>* t t' \<and> rep s' t'"
begin

lemma simulates_steps:
  assumes "step\<^sup>*\<^sup>* s s'" and "rep s t"
  shows "\<exists>t'. spec_step\<^sup>*\<^sup>* t t' \<and> rep s' t'"
  using assms
proof (induction rule: rtranclp_induct)
  case base
  then show ?case by blast
next
  case (step s' s'')
  then obtain t' where "spec_step\<^sup>*\<^sup>* t t'" "rep s' t'" by blast
  with simulates [OF step.hyps(2)] show ?case by (meson rtranclp_trans)
qed

end

end
