(* ===== verification/Tropic.thy ===== *)
theory Tropic
  imports Prelude
begin

text \<open>
  \<open>anchor-core/src/tropic.rs\<close>: the two traits behind which the appliance reaches the secure
  element and the witness signature. A trait is a record of functions (\<open>&mut self\<close> becomes a
  state that is passed and returned); the contract its clients rely on is a locale over that
  record.
\<close>

section \<open>The secure element\<close>

datatype tropic_error = Comm | NotArmed | TropicExhausted

text \<open>
  \<open>TropicExhausted\<close> is \<open>TropicError::CounterExhausted\<close>; the appliance has an error of its own
  with the same name.
\<close>

record 'c tropic_ops =
  mac_and_destroy :: "u16 \<Rightarrow> bytes32 \<Rightarrow> 'c \<Rightarrow> (tropic_error + bytes32) \<times> 'c"
  counter_get :: "'c \<Rightarrow> (tropic_error + u32) \<times> 'c"
  counter_update :: "'c \<Rightarrow> (tropic_error + unit) \<times> 'c"

text \<open>
  What the trait documents, over the physical value \<open>live\<close> of the down-counter: a read returns
  it and does not move it, a MAC-And-Destroy call does not touch it, an update that reports
  success moved it down by exactly one. Any call may fail with any error. In particular an update
  that reports an error may or may not have reached the counter, as when the reply is lost on
  the SPI link; the contract leaves both open.
\<close>

locale tropic_chip =
  fixes T :: "'c tropic_ops"
    and live :: "'c \<Rightarrow> u32"
  assumes macd_frame: "live (snd (mac_and_destroy T q x c)) = live c"
    and get_frame: "live (snd (counter_get T c)) = live c"
    and get_value: "fst (counter_get T c) = Inr v \<Longrightarrow> v = live c"
    and update_ok: "fst (counter_update T c) = Inr u \<Longrightarrow>
      unat (live c) = Suc (unat (live (snd (counter_update T c))))"
    and update_err: "fst (counter_update T c) = Inl e \<Longrightarrow>
      live (snd (counter_update T c)) = live c \<or>
      unat (live c) = Suc (unat (live (snd (counter_update T c))))"
begin

lemma update_le: "live (snd (counter_update T c)) \<le> live c"
  using update_ok [of c] update_err [of c]
  by (cases "fst (counter_update T c)") (force simp: word_le_nat_alt)+

lemma update_zero: "live c = 0 \<Longrightarrow> \<exists>e. fst (counter_update T c) = Inl e"
  using update_ok [of c] by (cases "fst (counter_update T c)") force+

end

text \<open>
  A chip that answers every call, and refuses an update only when the counter is exhausted: the
  ideal the host tests use.
\<close>

locale reliable_chip = tropic_chip T live
  for T :: "'c tropic_ops" and live :: "'c \<Rightarrow> u32" +
  assumes macd_answers: "\<exists>w. fst (mac_and_destroy T q x c) = Inr w"
    and get_answers: "fst (counter_get T c) = Inr (live c)"
    and update_answers: "live c \<noteq> 0 \<Longrightarrow> fst (counter_update T c) = Inr ()"

section \<open>The witness signature scheme\<close>

text \<open>
  \<open>sign\<close> may panic (the WOTS implementation slices the first 32 bytes of the key), which is
  \<open>None\<close> here.
\<close>

record witness_sig =
  ws_keygen :: "bytes32 \<Rightarrow> byte list \<times> byte list"
  ws_sign :: "byte list \<Rightarrow> bytes32 \<Rightarrow> byte list option"
  ws_verify :: "byte list \<Rightarrow> bytes32 \<Rightarrow> byte list \<Rightarrow> bool"

locale witness_scheme =
  fixes S :: witness_sig
  assumes keygen_sk: "fst (ws_keygen S seed) \<noteq> []"
    and sign_total: "\<exists>sig. ws_sign S (fst (ws_keygen S seed)) d = Some sig"
    and sign_verify: "ws_sign S (fst (ws_keygen S seed)) d = Some sig \<Longrightarrow>
      ws_verify S (snd (ws_keygen S seed)) d sig"

section \<open>The stand-in chip of the host tests\<close>

text \<open>
  \<open>MockTropic\<close> of \<open>anchor-core/tests/integration.rs\<close>: a counter and a secret, with the keyed
  hash of the slot and input as its MAC-And-Destroy. The hash is passed as the function \<open>mac\<close>.
\<close>

record mock_tropic =
  mock_h :: u32
  mock_secret :: bytes32

definition mock_ops :: "(bytes32 \<Rightarrow> u16 \<Rightarrow> bytes32 \<Rightarrow> bytes32) \<Rightarrow> mock_tropic tropic_ops" where
  "mock_ops mac =
     \<lparr> mac_and_destroy = (\<lambda>q x c. (Inr (mac (mock_secret c) q x), c)),
       counter_get = (\<lambda>c. (Inr (mock_h c), c)),
       counter_update = (\<lambda>c.
         if mock_h c = 0 then (Inl TropicExhausted, c)
         else (Inr (), c\<lparr>mock_h := mock_h c - 1\<rparr>)) \<rparr>"

lemma unat_pred:
  assumes "(w :: u32) \<noteq> 0"
  shows "unat w = Suc (unat (w - 1))"
proof -
  from assms have "0 < unat w" by (simp add: unat_gt_0)
  moreover from assms have "unat (w - 1) = unat w - 1" by (rule unat_minus_one)
  ultimately show ?thesis by linarith
qed

interpretation mock: reliable_chip "mock_ops mac" mock_h for mac
  by unfold_locales (auto simp: mock_ops_def split: if_splits dest: unat_pred)

end
