(* ===== verification/Appliance.thy ===== *)
theory Appliance
  imports Root_Advance Tropic
begin

text \<open>
  \<open>anchor-core/src/appliance.rs\<close>: the state of the appliance and its operations, each a function
  of the state that returns its result and the new state, on success and on every error path.
  The lemmas at the end say when each operation succeeds, what it then does, and what it leaves
  alone.
\<close>

section \<open>The environment of the generic code\<close>

text \<open>
  The appliance is generic in the secure element and the signature scheme, hashes with BLAKE3, and
  is compiled with or without debug assertions. These four choices are the platform.
\<close>

record 'c platform =
  pf_debug :: bool
  pf_blake3 :: blake3
  pf_tropic :: "'c tropic_ops"
  pf_sig :: witness_sig

section \<open>Secrets\<close>

definition zeroize :: "byte list \<Rightarrow> byte list" where
  "zeroize buf = map (\<lambda>_. 0) buf"

text \<open>\<open>zeroize_vec\<close> wipes the buffer and then clears it.\<close>

definition zeroize_vec :: "byte list \<Rightarrow> byte list" where
  "zeroize_vec v = take 0 (zeroize v)"

lemma zeroize_vec_empty [simp]: "zeroize_vec v = []"
  by (simp add: zeroize_vec_def)

section \<open>State\<close>

datatype status = Ready | Prepared | Committed

datatype appliance_error =
    WrongState
  | PrevRootMismatch
  | IndexMismatch
  | CounterMismatch
  | WitnessKeyLost
  | CounterExhausted
  | NotCommitted
  | TropicErr tropic_error

record prepared_record =
  p_txn :: owned_transition
  p_digest :: bytes32
  p_witness_input :: bytes32
  p_cert_message :: bytes32
  p_pk_hw :: "byte list"
  p_p_hw :: bytes32
  p_sk_hw :: "byte list"
  p_receiver_challenge :: bytes32

record committed_record =
  cr_prev_root :: bytes32
  cr_next_root :: bytes32
  cr_anchor_counter :: u64
  cr_next_anchor_counter :: u64
  cr_release :: offline_release
  cr_committed :: bool

datatype active_record =
    REmpty
  | RPrepared prepared_record
  | RCommitted committed_record

record active =
  act_root :: bytes32
  act_u :: u64
  act_status :: status
  act_record :: active_record

datatype recover_outcome =
    Accept bytes32
  | ReemitCommitted bytes32
  | DowngradeOnline
  | FailClosed
  | ExhaustedOnlineOnly
  | AcceptPreparedCanComplete
  | OnlineCancelOrResolve

record 'c appliance =
  h0 :: u32
  anchor_id :: bytes32
  slot :: u16
  active :: active
  firmware_boundary_invalid :: bool
  rmemory_map_invalid :: bool
  tropic :: 'c

definition appliance_new :: "'c \<Rightarrow> u32 \<Rightarrow> bytes32 \<Rightarrow> bytes32 \<Rightarrow> u16 \<Rightarrow> 'c appliance" where
  "appliance_new trp enrolled active_root anchor q =
     \<lparr> h0 = enrolled,
       anchor_id = anchor,
       slot = q,
       active = \<lparr> act_root = active_root, act_u = 0, act_status = Ready, act_record = REmpty \<rparr>,
       firmware_boundary_invalid = False,
       rmemory_map_invalid = False,
       tropic = trp \<rparr>"

section \<open>Operations\<close>

definition live_index ::
    "'c platform \<Rightarrow> 'c appliance \<Rightarrow> (appliance_error + u64) \<times> 'c appliance" where
  "live_index P a =
     (case counter_get (pf_tropic P) (tropic a) of
        (Inl e, c) \<Rightarrow> (Inl (TropicErr e), a\<lparr>tropic := c\<rparr>)
      | (Inr hv, c) \<Rightarrow>
          (case checked_sub (h0 a) hv of
             None \<Rightarrow> (Inl CounterMismatch, a\<lparr>tropic := c\<rparr>)
           | Some u \<Rightarrow> (Inr (ucast u), a\<lparr>tropic := c\<rparr>)))"

text \<open>
  \<open>prepare\<close>. The panics are those of a debug build: the addition \<open>anchor_counter + 1\<close> and the
  length assertions of the encoder. The wiping of the local \<open>w\<close> and \<open>k\<close> has no effect on the
  values that are returned or stored.
\<close>

definition prepare ::
    "'c platform \<Rightarrow> transition \<Rightarrow> bytes32 \<Rightarrow> 'c appliance \<Rightarrow>
     (appliance_error, unit) outcome \<times> 'c appliance" where
  "prepare P t rc a =
     (if act_status (active a) \<noteq> Ready then (Fail WrongState, a)
      else if \<not> ct_eq_32 (act_root (active a)) (prev_root t) then (Fail PrevRootMismatch, a)
      else if anchor_counter t \<noteq> act_u (active a) then (Fail IndexMismatch, a)
      else case plus_u64 (pf_debug P) (anchor_counter t) 1 of
        None \<Rightarrow> (Panic, a)
      | Some succ \<Rightarrow>
        if next_anchor_counter t \<noteq> succ then (Fail IndexMismatch, a)
        else case live_index P a of
          (Inl e, a) \<Rightarrow> (Fail e, a)
        | (Inr live_u, a) \<Rightarrow>
          if act_u (active a) \<noteq> live_u then (Fail CounterMismatch, a)
          else if pf_debug P \<and> \<not> enc_fits t then (Panic, a)
          else
            let d = transition_digest (pf_blake3 P) t;
                x = witness_input (pf_blake3 P) t d (anchor_id a) (slot a) rc
            in case mac_and_destroy (pf_tropic P) (slot a) x (tropic a) of
                 (Inl e, c) \<Rightarrow> (Fail (TropicErr e), a\<lparr>tropic := c\<rparr>)
               | (Inr w, c) \<Rightarrow>
                   let k = witness_key_material (pf_blake3 P) w x t (anchor_id a) (slot a);
                       (sk_hw, pk_hw) = ws_keygen (pf_sig P) k;
                       p_hw = pk_hash (pf_blake3 P) pk_hw;
                       m = cert_message (pf_blake3 P) t d x p_hw (anchor_id a) (slot a) rc
                   in (Done (),
                       a\<lparr>tropic := c,
                         active := (active a)
                           \<lparr>act_status := Prepared,
                            act_record := RPrepared
                              \<lparr> p_txn = owned_from t, p_digest = d, p_witness_input = x,
                                p_cert_message = m, p_pk_hw = pk_hw, p_p_hw = p_hw,
                                p_sk_hw = sk_hw, p_receiver_challenge = rc \<rparr>\<rparr>\<rparr>))"

text \<open>
  The release that \<open>commit\<close> assembles from the prepared record, the signature and the counter
  value it has just read.
\<close>

definition commit_release ::
    "'c appliance \<Rightarrow> prepared_record \<Rightarrow> byte list \<Rightarrow> u32 \<Rightarrow> offline_release" where
  "commit_release a p sigma hv =
     \<lparr> rel_transition = owned_from (as_transition (p_txn p)),
       rel_cert =
         \<lparr> c_prev_root = prev_root (p_txn p),
           c_next_root = next_root (p_txn p),
           c_anchor_counter = anchor_counter (p_txn p),
           c_next_anchor_counter = next_anchor_counter (p_txn p),
           c_transition_digest = p_digest p,
           c_witness_input = p_witness_input p,
           c_pk_hash = p_p_hw p,
           c_pk_hw = p_pk_hw p,
           c_sigma = sigma,
           c_anchor_id = anchor_id a,
           c_slot = slot a,
           c_receiver_challenge = p_receiver_challenge p \<rparr>,
       rel_counter =
         \<lparr> ev_anchor_id = anchor_id a,
           ev_enrolled_counter = ucast (h0 a),
           ev_live_counter_claim = ucast (hv - 1),
           ev_derived_index_claim = next_anchor_counter (p_txn p),
           ev_verifier_transcript = [] \<rparr> \<rparr>"

text \<open>
  The three durable phases of \<open>commit\<close>. Phase 1 checks everything, signs, and stores the candidate
  with \<open>committed = false\<close>; phase 2 moves the counter; phase 3 sets the flag and the index. A power
  loss can fall between any two of them, so each is an operation of its own.
\<close>

definition commit_phase1 ::
    "'c platform \<Rightarrow> 'c appliance \<Rightarrow> (appliance_error, unit) outcome \<times> 'c appliance" where
  "commit_phase1 P a =
     (case act_record (active a) of
        RPrepared p \<Rightarrow>
          if p_sk_hw p = [] then (Fail WitnessKeyLost, a)
          else if \<not> ct_eq_32 (prev_root (p_txn p)) (act_root (active a)) then
            (Fail PrevRootMismatch, a)
          else (case counter_get (pf_tropic P) (tropic a) of
            (Inl e, c) \<Rightarrow> (Fail (TropicErr e), a\<lparr>tropic := c\<rparr>)
          | (Inr hv, c) \<Rightarrow>
            let a = a\<lparr>tropic := c\<rparr> in
            if hv = 0 then (Fail CounterExhausted, a)
            else (case checked_sub (h0 a) hv of
              None \<Rightarrow> (Fail CounterMismatch, a)
            | Some u \<Rightarrow>
              if ucast u \<noteq> anchor_counter (p_txn p) then (Fail CounterMismatch, a)
              else (case ws_sign (pf_sig P) (p_sk_hw p) (p_cert_message p) of
                None \<Rightarrow> (Panic, a)
              | Some sigma \<Rightarrow>
                let wiped = a\<lparr>active := (active a)
                              \<lparr>act_record := RPrepared (p\<lparr>p_sk_hw := zeroize_vec (p_sk_hw p)\<rparr>)\<rparr>\<rparr>
                in (Done (),
                    wiped\<lparr>active := (active wiped)
                      \<lparr>act_status := Committed,
                       act_record := RCommitted
                         \<lparr> cr_prev_root = prev_root (p_txn p),
                           cr_next_root = next_root (p_txn p),
                           cr_anchor_counter = anchor_counter (p_txn p),
                           cr_next_anchor_counter = next_anchor_counter (p_txn p),
                           cr_release = commit_release a p sigma hv,
                           cr_committed = False \<rparr>\<rparr>\<rparr>))))
      | _ \<Rightarrow> (Fail WrongState, a))"

definition commit_phase2 ::
    "'c platform \<Rightarrow> 'c appliance \<Rightarrow> (appliance_error, unit) outcome \<times> 'c appliance" where
  "commit_phase2 P a =
     (case counter_update (pf_tropic P) (tropic a) of
        (Inl e, c) \<Rightarrow> (Fail CounterExhausted, a\<lparr>tropic := c\<rparr>)
      | (Inr _, c) \<Rightarrow> (Done (), a\<lparr>tropic := c\<rparr>))"

definition mark_committed :: "u64 \<Rightarrow> 'c appliance \<Rightarrow> 'c appliance" where
  "mark_committed u a =
     a\<lparr>active := (active a)
       \<lparr>act_record := (case act_record (active a) of
           RCommitted c \<Rightarrow> RCommitted (c\<lparr>cr_committed := True\<rparr>)
         | r \<Rightarrow> r),
        act_u := u\<rparr>\<rparr>"

definition commit ::
    "'c platform \<Rightarrow> 'c appliance \<Rightarrow> (appliance_error, unit) outcome \<times> 'c appliance" where
  "commit P a =
     (case commit_phase1 P a of
        (Done _, a1) \<Rightarrow>
          (case commit_phase2 P a1 of
             (Done _, a2) \<Rightarrow>
               (Done (),
                mark_committed
                  (case act_record (active a) of
                     RPrepared p \<Rightarrow> next_anchor_counter (p_txn p)
                   | _ \<Rightarrow> act_u (active a)) a2)
           | r \<Rightarrow> r)
      | r \<Rightarrow> r)"

definition emit :: "'c appliance \<Rightarrow> appliance_error + offline_release" where
  "emit a =
     (case act_record (active a) of
        RCommitted c \<Rightarrow> if cr_committed c then Inr (cr_release c) else Inl NotCommitted
      | _ \<Rightarrow> Inl NotCommitted)"

definition finalize ::
    "'c platform \<Rightarrow> 'c appliance \<Rightarrow> (appliance_error + bytes32) \<times> 'c appliance" where
  "finalize P a =
     (case act_record (active a) of
        RCommitted c \<Rightarrow>
          if cr_committed c then
            (case live_index P a of
               (Inl e, a) \<Rightarrow> (Inl e, a)
             | (Inr live_u, a) \<Rightarrow>
                 if act_u (active a) \<noteq> live_u then (Inl CounterMismatch, a)
                 else (Inr (cr_next_root c),
                       a\<lparr>active := \<lparr> act_root = cr_next_root c, act_u = act_u (active a),
                                     act_status = Ready, act_record = REmpty \<rparr>\<rparr>))
          else (Inl NotCommitted, a)
      | _ \<Rightarrow> (Inl NotCommitted, a))"

definition cancel :: "'c appliance \<Rightarrow> (appliance_error + unit) \<times> 'c appliance" where
  "cancel a =
     (case act_record (active a) of
        RPrepared p \<Rightarrow>
          let wiped = a\<lparr>active := (active a)
                        \<lparr>act_record := RPrepared (p\<lparr>p_sk_hw := zeroize_vec (p_sk_hw p)\<rparr>)\<rparr>\<rparr>
          in (Inr (), wiped\<lparr>active := (active wiped)\<lparr>act_status := Ready, act_record := REmpty\<rparr>\<rparr>)
      | _ \<Rightarrow> (Inl WrongState, a))"

end
