(* ===== verification/Recovery.thy ===== *)
theory Recovery
  imports Appliance
begin

text \<open>
  \<open>Appliance::recover\<close> of \<open>anchor-core/src/appliance.rs\<close>: what the appliance does at boot with the
  active record it finds. The sum \<open>live_u + 1\<close> cannot overflow, since \<open>live_u\<close> was widened from
  a \<open>u32\<close> (\<open>live_index_succ\<close>), so it is a plain addition here.
\<close>

definition recover_committed ::
    "'c platform \<Rightarrow> u64 \<Rightarrow> committed_record \<Rightarrow> 'c appliance \<Rightarrow> recover_outcome \<times> 'c appliance" where
  "recover_committed P live_u c a =
     (let rec_u = cr_next_anchor_counter c in
      if cr_committed c then
        (if rec_u \<noteq> live_u then (DowngradeOnline, a)
         else (ReemitCommitted (cr_next_root c), a\<lparr>active := (active a)\<lparr>act_u := rec_u\<rparr>\<rparr>))
      else if rec_u = live_u + 1 then
        (if \<not> ct_eq_32 (cr_prev_root c) (act_root (active a)) then (DowngradeOnline, a)
         else (case counter_update (pf_tropic P) (tropic a) of
             (Inl _, ch) \<Rightarrow> (DowngradeOnline, a\<lparr>tropic := ch\<rparr>)
           | (Inr _, ch) \<Rightarrow>
               (ReemitCommitted (cr_next_root c), mark_committed rec_u (a\<lparr>tropic := ch\<rparr>))))
      else if rec_u = live_u then
        (ReemitCommitted (cr_next_root c), mark_committed rec_u a)
      else (DowngradeOnline, a))"

definition recover_prepared ::
    "u64 \<Rightarrow> 'c appliance \<Rightarrow> recover_outcome \<times> 'c appliance" where
  "recover_prepared live_u a =
     (if act_u (active a) \<noteq> live_u then (DowngradeOnline, a)
      else
        let parent_ok = (case act_record (active a) of
              RPrepared p \<Rightarrow> ct_eq_32 (prev_root (p_txn p)) (act_root (active a))
            | _ \<Rightarrow> False)
        in if \<not> parent_ok then (DowngradeOnline, a)
           else
             let key_present = (case act_record (active a) of
                   RPrepared p \<Rightarrow> p_sk_hw p \<noteq> []
                 | _ \<Rightarrow> False)
             in if key_present then (AcceptPreparedCanComplete, a)
                else (OnlineCancelOrResolve, a))"

definition recover_ready ::
    "'c platform \<Rightarrow> u64 \<Rightarrow> 'c appliance \<Rightarrow> recover_outcome \<times> 'c appliance" where
  "recover_ready P live_u a =
     (if act_u (active a) < live_u then (DowngradeOnline, a)
      else if act_u (active a) > live_u then (FailClosed, a)
      else (case counter_get (pf_tropic P) (tropic a) of
          (Inl _, ch) \<Rightarrow> (DowngradeOnline, a\<lparr>tropic := ch\<rparr>)
        | (Inr hv, ch) \<Rightarrow>
            if hv = 0 then (ExhaustedOnlineOnly, a\<lparr>tropic := ch\<rparr>)
            else (Accept (act_root (active a)), a\<lparr>tropic := ch\<rparr>)))"

definition recover ::
    "'c platform \<Rightarrow> 'c appliance \<Rightarrow> recover_outcome \<times> 'c appliance" where
  "recover P a =
     (if firmware_boundary_invalid a \<or> rmemory_map_invalid a then (DowngradeOnline, a)
      else case live_index P a of
        (Inl _, a) \<Rightarrow> (DowngradeOnline, a)
      | (Inr live_u, a) \<Rightarrow>
          (case act_status (active a) of
             Committed \<Rightarrow>
               (case act_record (active a) of
                  RCommitted c \<Rightarrow> recover_committed P live_u c a
                | _ \<Rightarrow> (DowngradeOnline, a))
           | Prepared \<Rightarrow> recover_prepared live_u a
           | Ready \<Rightarrow> recover_ready P live_u a))"

lemmas recover_defs =
  recover_def recover_committed_def recover_prepared_def recover_ready_def

end
