(* ===== verification/Wots.thy ===== *)
theory Wots
  imports Root_Advance Tropic
begin

text \<open>
  \<open>anchor-core/src/sig.rs\<close>: the Winternitz one-time signature over BLAKE3. The lemmas show that
  signatures verify for every seed and digest, the widths of keys and signatures, the range of
  the digits, that the checksum makes the digit vectors of different digests incomparable, and
  what a second valid signature under one key gives away.
\<close>

unbundle bit_operations_syntax

section \<open>Parameters\<close>

definition WOTS_W :: u32 where "WOTS_W = 16"
definition LG_W :: nat where "LG_W = 4"
definition LEN1 :: nat where "LEN1 = 64"
definition LEN2 :: nat where "LEN2 = 3"
definition WOTS_LEN :: nat where "WOTS_LEN = LEN1 + LEN2"
definition WOTS_N :: nat where "WOTS_N = 32"
definition SIG_LEN :: nat where "SIG_LEN = WOTS_LEN * WOTS_N"

lemmas wots_params =
  WOTS_W_def LG_W_def LEN1_def LEN2_def WOTS_LEN_def WOTS_N_def SIG_LEN_def

section \<open>Chains and digits\<close>

primrec chain_loop :: "blake3 \<Rightarrow> bytes32 \<Rightarrow> nat \<Rightarrow> bytes32" where
  "chain_loop B x 0 = x"
| "chain_loop B x (Suc n) = chain_loop B (hash_h B WOTS_CHAIN_V1 [bytes_of x]) n"

definition chain :: "blake3 \<Rightarrow> bytes32 \<Rightarrow> u32 \<Rightarrow> bytes32" where
  "chain B x steps = chain_loop B x (unat steps)"

text \<open>
  \<open>out\<close> is the array \<open>[0u8; LEN]\<close>, written by index: two nibbles for each byte of the digest,
  then the three checksum digits.
\<close>

definition message_digits :: "bytes32 \<Rightarrow> byte list \<Rightarrow> byte list" where
  "message_digits d out =
     fold (\<lambda>i out. out[2 * i := drop_bit 4 (bytes_of d ! i),
                       2 * i + 1 := bytes_of d ! i AND 0x0f]) [0..<32] out"

definition checksum :: "byte list \<Rightarrow> u32" where
  "checksum dgs = fold (\<lambda>dg csum. csum + ((WOTS_W - 1) - ucast dg)) dgs 0"

definition digits :: "bytes32 \<Rightarrow> byte list" where
  "digits d =
     (let out = message_digits d (replicate WOTS_LEN 0);
          csum = checksum (take LEN1 out);
          out = out[LEN1 := ucast (drop_bit (2 * LG_W) csum AND (WOTS_W - 1))];
          out = out[LEN1 + 1 := ucast (drop_bit LG_W csum AND (WOTS_W - 1))];
          out = out[LEN1 + 2 := ucast (csum AND (WOTS_W - 1))]
      in out)"

definition chain_secret :: "blake3 \<Rightarrow> bytes32 \<Rightarrow> nat \<Rightarrow> bytes32" where
  "chain_secret B seed i = kdf B seed WOTS_SK_V1 [u16_le (of_nat i)]"

definition compress_input :: "bytes32 list \<Rightarrow> byte list" where
  "compress_input tops = fold (\<lambda>t buf. buf @ bytes_of t) tops []"

definition compress :: "blake3 \<Rightarrow> bytes32 list \<Rightarrow> bytes32" where
  "compress B tops = hash_h B WOTS_PK_V1 [compress_input tops]"

section \<open>StepKeyGen, StepSign, StepVerify\<close>

definition wots_keygen :: "blake3 \<Rightarrow> bytes32 \<Rightarrow> byte list \<times> byte list" where
  "wots_keygen B seed =
     (let tops = map (\<lambda>i. chain B (chain_secret B seed i) (WOTS_W - 1)) [0..<WOTS_LEN]
      in (bytes_of seed, bytes_of (compress B tops)))"

text \<open>\<open>sk[..32]\<close> panics on a shorter key.\<close>

definition wots_sign :: "blake3 \<Rightarrow> byte list \<Rightarrow> bytes32 \<Rightarrow> byte list option" where
  "wots_sign B sk digest =
     (if length sk < 32 then None
      else let seed = to_bytes32 (take 32 sk); dg = digits digest
        in Some (fold (\<lambda>i sig. sig @ bytes_of (chain B (chain_secret B seed i) (ucast (dg ! i))))
                   [0..<WOTS_LEN] []))"

definition sig_chunk :: "byte list \<Rightarrow> nat \<Rightarrow> bytes32" where
  "sig_chunk sig i = to_bytes32 (take WOTS_N (drop (i * WOTS_N) sig))"

definition recomputed_tops :: "blake3 \<Rightarrow> bytes32 \<Rightarrow> byte list \<Rightarrow> bytes32 list" where
  "recomputed_tops B digest sig =
     (let dg = digits digest
      in map (\<lambda>i. chain B (sig_chunk sig i) ((WOTS_W - 1) - ucast (dg ! i))) [0..<WOTS_LEN])"

definition wots_verify :: "blake3 \<Rightarrow> byte list \<Rightarrow> bytes32 \<Rightarrow> byte list \<Rightarrow> bool" where
  "wots_verify B pk digest sig =
     (if length pk \<noteq> 32 \<or> length sig \<noteq> SIG_LEN then False
      else ct_eq_32 (compress B (recomputed_tops B digest sig)) (to_bytes32 pk))"

definition wots_blake3 :: "blake3 \<Rightarrow> witness_sig" where
  "wots_blake3 B =
     \<lparr> ws_keygen = wots_keygen B, ws_sign = wots_sign B, ws_verify = wots_verify B \<rparr>"

lemma wots_blake3_simps [simp]:
  "ws_keygen (wots_blake3 B) = wots_keygen B"
  "ws_sign (wots_blake3 B) = wots_sign B"
  "ws_verify (wots_blake3 B) = wots_verify B"
  by (simp_all add: wots_blake3_def)

section \<open>Digits\<close>

lemma fold_pair_update:
  assumes "n \<le> length bs" and "2 * n \<le> length out"
  shows "length (fold (\<lambda>i out. out[2 * i := f (bs ! i), 2 * i + 1 := g (bs ! i)]) [0..<n] out)
           = length out \<and>
     (\<forall>k < length out.
        fold (\<lambda>i out. out[2 * i := f (bs ! i), 2 * i + 1 := g (bs ! i)]) [0..<n] out ! k =
          (if k < 2 * n then (if even k then f (bs ! (k div 2)) else g (bs ! (k div 2)))
           else out ! k))"
  using assms
proof (induction n)
  case 0
  then show ?case by simp
next
  case (Suc n)
  then have ih: "length (fold (\<lambda>i out. out[2 * i := f (bs ! i), 2 * i + 1 := g (bs ! i)]) [0..<n] out)
      = length out"
    "\<forall>k < length out. fold (\<lambda>i out. out[2 * i := f (bs ! i), 2 * i + 1 := g (bs ! i)]) [0..<n] out ! k =
          (if k < 2 * n then (if even k then f (bs ! (k div 2)) else g (bs ! (k div 2))) else out ! k)"
    by auto
  have two: "k < 2 * Suc n \<longleftrightarrow> k < 2 * n \<or> k = 2 * n \<or> k = 2 * n + 1" for k
    by auto
  show ?case
    using Suc.prems ih by (auto simp: nth_list_update two)
qed

lemma message_digits_nth:
  assumes "length out = WOTS_LEN" and "k < WOTS_LEN"
  shows "message_digits d out ! k =
    (if k < LEN1 then (if even k then drop_bit 4 (bytes_of d ! (k div 2))
                       else bytes_of d ! (k div 2) AND 0x0f) else out ! k)"
  using fold_pair_update [of 32 "bytes_of d" out "drop_bit 4" "\<lambda>b. b AND 0x0f"] assms
  by (simp add: message_digits_def wots_params)

lemma length_message_digits [simp]:
  "length out = WOTS_LEN \<Longrightarrow> length (message_digits d out) = WOTS_LEN"
  using fold_pair_update [of 32 "bytes_of d" out "drop_bit 4" "\<lambda>b. b AND 0x0f"]
  by (simp add: message_digits_def wots_params)

lemma length_digits [simp]: "length (digits d) = 67"
  by (simp add: digits_def Let_def wots_params)

text \<open>The message part and the three checksum digits, as natural numbers.\<close>

definition msg_sum :: "bytes32 \<Rightarrow> nat" where
  "msg_sum d = (\<Sum>k < 64. 15 - unat (digits d ! k))"

lemma digits_message_nth:
  assumes "k < 64"
  shows "digits d ! k = (if even k then drop_bit 4 (bytes_of d ! (k div 2))
                         else bytes_of d ! (k div 2) AND 15)"
  using assms message_digits_nth [of "replicate WOTS_LEN 0" k d]
  by (simp add: digits_def Let_def wots_params)

lemma nibble_hi: "unat (drop_bit 4 (b :: byte)) = unat b div 16"
  by (simp add: unat_div drop_bit_eq_div)

lemma nibble_lo: "unat ((b :: byte) AND 15) = unat b mod 16"
proof -
  have "(b :: byte) AND 15 = take_bit 4 b" by (simp add: take_bit_eq_mask mask_numeral)
  then show ?thesis by (simp add: unat_mod take_bit_eq_mod)
qed

lemma nibble_lo_u32: "unat ((w :: u32) AND 15) = unat w mod 16"
proof -
  have "(w :: u32) AND 15 = take_bit 4 w" by (simp add: take_bit_eq_mask mask_numeral)
  then show ?thesis by (simp add: unat_mod take_bit_eq_mod)
qed

lemma message_digit_bound: "k < 64 \<Longrightarrow> unat (digits d ! k) < 16"
proof -
  have "unat b < 256" for b :: byte
    using unsigned_less [of b, where ?'a = nat] by simp
  then show "k < 64 \<Longrightarrow> unat (digits d ! k) < 16"
    by (simp add: digits_message_nth nibble_hi nibble_lo less_mult_imp_div_less)
qed

lemma fold_plus_word: "fold (\<lambda>x c. c + f x) xs (c :: u32) = c + sum_list (map f xs)"
  by (induction xs arbitrary: c) (simp_all add: ac_simps)

lemma checksum_eq:
  assumes "\<forall>x\<in>set xs. unat x < 16"
  shows "checksum xs = of_nat (sum_list (map (\<lambda>x. 15 - unat x) xs))"
proof -
  have each: "(WOTS_W - 1) - ucast x = (of_nat (15 - unat x) :: u32)" if "unat x < 16" for x :: byte
  proof -
    have "(ucast x :: u32) = of_nat (unat x)" by simp
    with that show ?thesis by (simp add: WOTS_W_def of_nat_diff)
  qed
  have "checksum xs = sum_list (map (\<lambda>x. (WOTS_W - 1) - ucast x) xs)"
    by (simp add: checksum_def fold_plus_word)
  also have "\<dots> = sum_list (map (\<lambda>x. of_nat (15 - unat x)) xs)"
    using assms each by (intro arg_cong [of _ _ sum_list] map_cong) auto
  also have "\<dots> = of_nat (sum_list (map (\<lambda>x. 15 - unat x) xs))"
    by (induction xs) simp_all
  finally show ?thesis .
qed

lemma msg_sum_bound: "msg_sum d \<le> 960"
proof -
  have "msg_sum d \<le> (\<Sum>k < (64 :: nat). 15)" unfolding msg_sum_def by (rule sum_mono) simp
  then show ?thesis by simp
qed

lemma unat_nibble_byte: "unat (w :: u32) < 16 \<Longrightarrow> unat (ucast w :: byte) = unat w"
  by (simp add: unsigned_ucast_eq take_bit_nat_eq_self)

lemma take_message_digits:
  "take LEN1 (message_digits d (replicate WOTS_LEN 0)) = map (\<lambda>k. digits d ! k) [0..<64]"
  by (rule nth_equalityI) (simp_all add: message_digits_nth digits_message_nth wots_params)

lemma unat_checksum: "unat (checksum (take LEN1 (message_digits d (replicate WOTS_LEN 0)))) = msg_sum d"
proof -
  have "sum_list (map (\<lambda>x. 15 - unat x) (map (\<lambda>k. digits d ! k) [0..<64])) = msg_sum d"
    by (simp add: msg_sum_def sum_list_sum_nth atLeast0LessThan)
  then have "checksum (take LEN1 (message_digits d (replicate WOTS_LEN 0))) = of_nat (msg_sum d)"
    by (simp add: take_message_digits checksum_eq message_digit_bound)
  moreover have "msg_sum d < 2 ^ LENGTH(32)" using msg_sum_bound [of d] by simp
  ultimately show ?thesis by (simp add: unsigned_of_nat take_bit_nat_eq_self)
qed

lemma checksum_digits:
  "unat (digits d ! 64) = msg_sum d div 256"
  "unat (digits d ! 65) = (msg_sum d div 16) mod 16"
  "unat (digits d ! 66) = msg_sum d mod 16"
proof -
  define c where "c = checksum (take LEN1 (message_digits d (replicate WOTS_LEN 0)))"
  have c: "unat c = msg_sum d" unfolding c_def by (rule unat_checksum)
  have nib: "unat (ucast ((w :: u32) AND 15) :: byte) = unat w mod 16" for w
    by (subst unat_nibble_byte) (simp_all add: nibble_lo_u32)
  have bound: "msg_sum d div 256 < 16" using msg_sum_bound [of d] by linarith
  have idx: "length (message_digits d (replicate 67 0)) = 67"
    using length_message_digits [of "replicate WOTS_LEN 0" d] by (simp add: wots_params)
  show "unat (digits d ! 64) = msg_sum d div 256"
    using bound idx
    by (simp add: digits_def Let_def wots_params nib c_def [unfolded wots_params, simplified, symmetric]
        c unat_div drop_bit_eq_div)
  show "unat (digits d ! 65) = (msg_sum d div 16) mod 16"
    using idx
    by (simp add: digits_def Let_def wots_params nib c_def [unfolded wots_params, simplified, symmetric]
        c unat_div drop_bit_eq_div)
  show "unat (digits d ! 66) = msg_sum d mod 16"
    using idx
    by (simp add: digits_def Let_def wots_params nib c_def [unfolded wots_params, simplified, symmetric] c)
qed

lemma msg_sum_digits:
  "msg_sum d = unat (digits d ! 64) * 256 + unat (digits d ! 65) * 16 + unat (digits d ! 66)"
proof -
  have "msg_sum d div 256 = msg_sum d div 16 div 16" by (simp flip: div_mult2_eq)
  then have "msg_sum d = msg_sum d div 256 * 256 + (msg_sum d div 16) mod 16 * 16 + msg_sum d mod 16"
    using div_mult_mod_eq [of "msg_sum d" 16] div_mult_mod_eq [of "msg_sum d div 16" 16]
    by linarith
  then show ?thesis by (simp only: checksum_digits)
qed

lemma digit_bound: "k < 67 \<Longrightarrow> unat (digits d ! k) < 16"
proof -
  assume "k < 67"
  then consider "k < 64" | "k = 64" | "k = 65" | "k = 66" by linarith
  then show ?thesis
    using msg_sum_bound [of d] by cases (auto simp: message_digit_bound checksum_digits)
qed

lemma digits_inject:
  assumes "\<forall>k < 64. digits d ! k = digits d' ! k"
  shows "d = d'"
proof -
  have "bytes_of d ! i = bytes_of d' ! i" if "i < 32" for i
  proof -
    from that assms have "digits d ! (2 * i) = digits d' ! (2 * i)"
      and "digits d ! (2 * i + 1) = digits d' ! (2 * i + 1)" by simp_all
    with that have "unat (bytes_of d ! i) div 16 = unat (bytes_of d' ! i) div 16"
      and "unat (bytes_of d ! i) mod 16 = unat (bytes_of d' ! i) mod 16"
      by (simp_all add: digits_message_nth flip: nibble_hi nibble_lo)
    then have "unat (bytes_of d ! i) = unat (bytes_of d' ! i)"
      by (metis div_mult_mod_eq)
    then show ?thesis by (simp add: word_unat_eq_iff)
  qed
  then have "bytes_of d = bytes_of d'" by (intro nth_equalityI) simp_all
  then show ?thesis by simp
qed

text \<open>
  The checksum at work: if no digit of \<open>d'\<close> is below the same digit of \<open>d\<close>, the checksum of
  \<open>d'\<close> is at most that of \<open>d\<close> while its three digits are at least those of \<open>d\<close>, so the two agree
  everywhere.
\<close>

lemma digits_le_eq:
  assumes le: "\<forall>k < 67. unat (digits d ! k) \<le> unat (digits d' ! k)"
  shows "d = d'"
proof -
  have "unat (digits d ! 64) * 256 + unat (digits d ! 65) * 16 + unat (digits d ! 66)
      \<le> unat (digits d' ! 64) * 256 + unat (digits d' ! 65) * 16 + unat (digits d' ! 66)"
    using le by (intro add_mono mult_le_mono1) simp_all
  then have "msg_sum d \<le> msg_sum d'" by (simp only: msg_sum_digits)
  moreover have down: "\<forall>k \<in> {..<64}. 15 - unat (digits d' ! k) \<le> 15 - unat (digits d ! k)"
    using le by (auto intro!: diff_le_mono2)
  then have "msg_sum d' \<le> msg_sum d" unfolding msg_sum_def by (intro sum_mono) simp
  ultimately have eq: "msg_sum d' = msg_sum d" by simp
  have "15 - unat (digits d' ! k) = 15 - unat (digits d ! k)" if "k < 64" for k
  proof (rule ccontr)
    assume "15 - unat (digits d' ! k) \<noteq> 15 - unat (digits d ! k)"
    moreover from down that have "15 - unat (digits d' ! k) \<le> 15 - unat (digits d ! k)" by blast
    ultimately have "15 - unat (digits d' ! k) < 15 - unat (digits d ! k)" by linarith
    with down that have "msg_sum d' < msg_sum d"
      unfolding msg_sum_def by (intro sum_strict_mono_ex1) auto
    with eq show False by simp
  qed
  then have "unat (digits d ! k) = unat (digits d' ! k)" if "k < 64" for k
    using that message_digit_bound [of k d] message_digit_bound [of k d'] by fastforce
  then show ?thesis by (intro digits_inject) (simp add: word_unat_eq_iff)
qed

lemma digits_some_less: "d \<noteq> d' \<Longrightarrow> \<exists>k < 67. unat (digits d' ! k) < unat (digits d ! k)"
  using digits_le_eq [of d d'] by (meson not_le)

lemma digits_nibbles:
  assumes "i < 32"
  shows "unat (digits d ! (2 * i)) = unat (bytes_of d ! i) div 16"
    and "unat (digits d ! (2 * i + 1)) = unat (bytes_of d ! i) mod 16"
  using assms by (simp_all add: digits_message_nth nibble_hi nibble_lo)

section \<open>Signing and verifying\<close>

lemma chain_loop_add: "chain_loop B (chain_loop B x m) n = chain_loop B x (m + n)"
  by (induction m arbitrary: x) simp_all

lemma unat_digit_u32: "unat (ucast (b :: byte) :: u32) = unat b"
proof -
  have "unat b < 2 ^ LENGTH(8)" by (rule unsigned_less)
  then show ?thesis by (simp add: unsigned_ucast_eq take_bit_nat_eq_self)
qed

lemma unat_rest_u32:
  assumes "unat (b :: byte) < 16"
  shows "unat ((WOTS_W - 1) - ucast b) = 15 - unat b"
proof -
  have "(ucast b :: u32) \<le> 15" using assms by (simp add: word_le_nat_alt unat_digit_u32)
  then have "unat ((15 :: u32) - ucast b) = unat (15 :: u32) - unat (ucast b :: u32)"
    by (simp add: unat_sub)
  then show ?thesis by (simp add: WOTS_W_def unat_digit_u32)
qed

lemma compress_input_eq: "compress_input tops = concat (map bytes_of tops)"
  using fold_append [of bytes_of tops "[]"] by (simp add: compress_input_def)

lemma concat_chunk:
  assumes "i < n" and "\<forall>j < n. length (f j) = w"
  shows "take w (drop (i * w) (concat (map f [0..<n]))) = f i"
  using assms
proof (induction n arbitrary: i)
  case 0
  then show ?case by simp
next
  case (Suc n)
  have len: "length (concat (map f [0..<n])) = n * w"
    using Suc.prems(2) by (induction n) auto
  show ?case
  proof (cases "i < n")
    case True
    then have "i * w + w \<le> n * w" by (metis Suc_leI add.commute mult_Suc mult_le_mono1)
    with True Suc show ?thesis by (simp add: len)
  next
    case False
    with Suc.prems have "i = n" by simp
    with Suc.prems(2) show ?thesis by (simp add: len)
  qed
qed

lemma wots_sign_seed:
  "wots_sign B (bytes_of seed) d =
     Some (concat (map (\<lambda>i. bytes_of (chain B (chain_secret B seed i) (ucast (digits d ! i)))) [0..<67]))"
  by (simp add: wots_sign_def Let_def fold_append wots_params)

lemma length_sig: "length (concat (map (\<lambda>i. bytes_of (f i)) [0..<n])) = 32 * n"
  by (induction n) simp_all

lemma wots_sign_length: "wots_sign B sk d = Some sig \<Longrightarrow> length sig = 2144"
  by (auto simp: wots_sign_def Let_def fold_append length_sig wots_params split: if_splits)

lemma wots_sign_panics_iff: "wots_sign B sk d = None \<longleftrightarrow> length sk < 32"
  by (simp add: wots_sign_def Let_def)

lemma wots_keygen_lengths:
  "length (fst (wots_keygen B seed)) = 32" "length (snd (wots_keygen B seed)) = 32"
  by (simp_all add: wots_keygen_def Let_def)

lemma wots_sign_verify:
  assumes "wots_sign B (fst (wots_keygen B seed)) d = Some sig"
  shows "wots_verify B (snd (wots_keygen B seed)) d sig"
proof -
  let ?c = "\<lambda>i. chain B (chain_secret B seed i) (ucast (digits d ! i))"
  have sig: "sig = concat (map (\<lambda>i. bytes_of (?c i)) [0..<67])"
    using assms by (simp add: wots_keygen_def Let_def wots_sign_seed)
  have "sig_chunk sig i = ?c i" if "i < 67" for i
    using that concat_chunk [of i 67 "\<lambda>i. bytes_of (?c i)" 32]
    by (simp add: sig_chunk_def sig wots_params)
  moreover have "chain B (?c i) ((WOTS_W - 1) - ucast (digits d ! i))
      = chain B (chain_secret B seed i) (WOTS_W - 1)" if "i < 67" for i
  proof -
    have "unat (digits d ! i) < 16" using that by (rule digit_bound)
    then have "unat (ucast (digits d ! i) :: u32) + unat ((WOTS_W - 1) - ucast (digits d ! i)) = 15"
      by (simp add: unat_digit_u32 unat_rest_u32)
    then show ?thesis by (simp add: chain_def chain_loop_add WOTS_W_def)
  qed
  ultimately have "recomputed_tops B d sig
      = map (\<lambda>i. chain B (chain_secret B seed i) (WOTS_W - 1)) [0..<67]"
    by (simp add: recomputed_tops_def Let_def wots_params)
  moreover have "length sig = 2144" by (simp add: sig length_sig)
  ultimately show ?thesis
    by (simp add: wots_verify_def wots_keygen_def Let_def wots_params)
qed

interpretation wots: witness_scheme "wots_blake3 B" for B
proof
  fix seed
  show "fst (ws_keygen (wots_blake3 B) seed) \<noteq> []"
    using wots_keygen_lengths(1) [of B seed] by force
next
  fix seed d
  show "\<exists>sig. ws_sign (wots_blake3 B) (fst (ws_keygen (wots_blake3 B) seed)) d = Some sig"
    by (simp add: wots_keygen_def Let_def wots_sign_seed)
next
  fix seed d sig
  assume "ws_sign (wots_blake3 B) (fst (ws_keygen (wots_blake3 B) seed)) d = Some sig"
  then show "ws_verify (wots_blake3 B) (snd (ws_keygen (wots_blake3 B) seed)) d sig"
    by (simp add: wots_sign_verify)
qed

section \<open>What a second signature gives away\<close>

definition chain_input :: "bytes32 \<Rightarrow> byte list" where
  "chain_input x = hasher_input WOTS_CHAIN_V1 [bytes_of x]"

definition pk_input :: "bytes32 list \<Rightarrow> byte list" where
  "pk_input tops = hasher_input WOTS_PK_V1 [compress_input tops]"

lemma hash_chain_collides:
  "hash_h B WOTS_CHAIN_V1 [bytes_of x] = hash_h B WOTS_CHAIN_V1 [bytes_of y] \<Longrightarrow>
     x = y \<or> collides B (chain_input x) (chain_input y)"
  by (auto simp: hash_h_def collides_def chain_input_def hasher_input_eq)

lemma chain_loop_collides:
  "chain_loop B x n = chain_loop B y n \<Longrightarrow>
     x = y \<or> (\<exists>k < n. collides B (chain_input (chain_loop B x k)) (chain_input (chain_loop B y k)))"
proof (induction n arbitrary: x y)
  case 0
  then show ?case by simp
next
  case (Suc n)
  let ?f = "\<lambda>x. hash_h B WOTS_CHAIN_V1 [bytes_of x]"
  from Suc.prems have "chain_loop B (?f x) n = chain_loop B (?f y) n" by simp
  from Suc.IH [OF this] show ?case
  proof
    assume "?f x = ?f y"
    then have "x = y \<or> collides B (chain_input x) (chain_input y)" by (rule hash_chain_collides)
    then show ?thesis by (metis chain_loop.simps(1) zero_less_Suc)
  next
    assume "\<exists>k < n. collides B (chain_input (chain_loop B (?f x) k)) (chain_input (chain_loop B (?f y) k))"
    then show ?thesis by (metis Suc_mono chain_loop.simps(2))
  qed
qed

lemma wots_verify_tops:
  "wots_verify B pk d sig \<Longrightarrow>
     length pk = 32 \<and> length sig = 2144 \<and> bytes_of (compress B (recomputed_tops B d sig)) = pk"
  by (auto simp: wots_verify_def wots_params split: if_splits)

lemma compress_collides:
  assumes "compress B ts = compress B ts'" and "length ts = length ts'"
  shows "ts = ts' \<or> collides B (pk_input ts) (pk_input ts')"
proof -
  have "ts = ts'" if "compress_input ts = compress_input ts'"
    using that assms(2) by (auto simp: compress_input_eq intro: b32c.concat_map_inject)
  then show ?thesis
    using assms(1) by (auto simp: compress_def hash_h_def collides_def pk_input_def hasher_input_eq)
qed

lemma recomputed_tops_nth:
  assumes "i < 67"
  shows "recomputed_tops B d sig ! i = chain_loop B (sig_chunk sig i) (15 - unat (digits d ! i))"
  using assms digit_bound [OF assms, of d]
  by (simp add: recomputed_tops_def Let_def wots_params chain_def unat_rest_u32 [unfolded WOTS_W_def, simplified])

lemma length_recomputed_tops [simp]: "length (recomputed_tops B d sig) = 67"
  by (simp add: recomputed_tops_def Let_def wots_params)

lemma same_key_tops:
  assumes v: "wots_verify B pk d sig" and v': "wots_verify B pk d' sig'"
  shows "recomputed_tops B d' sig' = recomputed_tops B d sig \<or>
    collides B (pk_input (recomputed_tops B d' sig')) (pk_input (recomputed_tops B d sig))"
proof -
  have "compress B (recomputed_tops B d' sig') = compress B (recomputed_tops B d sig)"
    using wots_verify_tops [OF v] wots_verify_tops [OF v'] by (metis bytes_of_eq_iff)
  then show ?thesis using compress_collides by force
qed

lemma two_digests_give_away:
  assumes v: "wots_verify B pk d sig" and v': "wots_verify B pk d' sig'" and "d \<noteq> d'"
  shows "collides B (pk_input (recomputed_tops B d' sig')) (pk_input (recomputed_tops B d sig)) \<or>
    (\<exists>i < 67. unat (digits d' ! i) < unat (digits d ! i) \<and>
       (let earlier = chain_loop B (sig_chunk sig' i) (unat (digits d ! i) - unat (digits d' ! i))
        in earlier = sig_chunk sig i \<or>
           (\<exists>k < 15 - unat (digits d ! i).
              collides B (chain_input (chain_loop B earlier k))
                         (chain_input (chain_loop B (sig_chunk sig i) k)))))"
proof -
  obtain i where i: "i < 67" and less: "unat (digits d' ! i) < unat (digits d ! i)"
    using digits_some_less [OF \<open>d \<noteq> d'\<close>] by blast
  let ?earlier = "chain_loop B (sig_chunk sig' i) (unat (digits d ! i) - unat (digits d' ! i))"
  consider "recomputed_tops B d' sig' = recomputed_tops B d sig"
    | "collides B (pk_input (recomputed_tops B d' sig')) (pk_input (recomputed_tops B d sig))"
    using same_key_tops [OF v v'] by blast
  then show ?thesis
  proof cases
    case 1
    then have "chain_loop B (sig_chunk sig' i) (15 - unat (digits d' ! i))
        = chain_loop B (sig_chunk sig i) (15 - unat (digits d ! i))"
      using i by (metis recomputed_tops_nth)
    moreover have "15 - unat (digits d' ! i)
        = (unat (digits d ! i) - unat (digits d' ! i)) + (15 - unat (digits d ! i))"
      using less digit_bound [OF i, of d] by linarith
    ultimately have "chain_loop B ?earlier (15 - unat (digits d ! i))
        = chain_loop B (sig_chunk sig i) (15 - unat (digits d ! i))"
      by (simp add: chain_loop_add)
    from chain_loop_collides [OF this] i less show ?thesis by (auto simp: Let_def)
  next
    case 2
    then show ?thesis by blast
  qed
qed

text \<open>
  C36: key generation, signing and verification agree. For every seed and digest, and whatever the
  hash function is, signing with the generated key does not panic, the signature is 2144 bytes
  and verifies under the generated 32-byte public key.
\<close>

theorem wots_correct:
  "\<exists>sig. wots_sign B (fst (wots_keygen B seed)) d = Some sig \<and> length sig = 2144 \<and>
     length (snd (wots_keygen B seed)) = 32 \<and> wots_verify B (snd (wots_keygen B seed)) d sig"
  using wots.sign_total [of B seed d] wots.sign_verify [of B seed d]
  by (auto simp: wots_sign_length wots_keygen_lengths)

text \<open>
  The digits of a digest are 67 values below 16: its 64 nibbles, high nibble first, followed by
  the base-16 digits of the checksum, which is the sum of the complements of the nibbles.
\<close>

lemma digits_spec:
  "length (digits d) = 67 \<and> (\<forall>k < 67. unat (digits d ! k) < 16) \<and>
   (\<forall>i < 32. unat (digits d ! (2 * i)) = unat (bytes_of d ! i) div 16 \<and>
             unat (digits d ! (2 * i + 1)) = unat (bytes_of d ! i) mod 16) \<and>
   unat (digits d ! 64) * 256 + unat (digits d ! 65) * 16 + unat (digits d ! 66)
     = (\<Sum>k < 64. 15 - unat (digits d ! k))"
  unfolding msg_sum_def [symmetric]
  using digits_nibbles by (simp add: digit_bound msg_sum_digits)

text \<open>
  The digit vectors of two different digests are incomparable: some digit of the second is
  strictly below the same digit of the first. This is what the Winternitz checksum is for: a
  signature on one digest never reveals every chain value that another digest needs.
\<close>

lemma digits_incomparable:
  assumes "d \<noteq> d'"
  shows "\<exists>k < 67. unat (digits d' ! k) < unat (digits d ! k)"
  using assms by (rule digits_some_less)

text \<open>
  C11: two signatures that verify under one public key on different digests. Either the public key
  is a collision of the compressing hash at the two recomputed chain tops, or on some chain the
  second signature's value lies strictly before the first's: hashing it on reaches the value the
  first signature revealed (a preimage of it), or runs into a collision of the chain step at a
  named position.
\<close>

theorem wots_second_signature:
  assumes v: "wots_verify B pk d sig" and v': "wots_verify B pk d' sig'" and "d \<noteq> d'"
  shows "collides B (pk_input (recomputed_tops B d' sig')) (pk_input (recomputed_tops B d sig)) \<or>
    (\<exists>i < 67. unat (digits d' ! i) < unat (digits d ! i) \<and>
       (let earlier = chain_loop B (sig_chunk sig' i) (unat (digits d ! i) - unat (digits d' ! i))
        in earlier = sig_chunk sig i \<or>
           (\<exists>k < 15 - unat (digits d ! i).
              collides B (chain_input (chain_loop B earlier k))
                         (chain_input (chain_loop B (sig_chunk sig i) k)))))"
  using assms by (rule two_digests_give_away)

theorem wots_second_signature_witness:
  "\<exists>pk sig sig'. wots_verify sample_blake3 pk (fill32 1) sig \<and>
     wots_verify sample_blake3 pk (fill32 2) sig' \<and>
     (collides sample_blake3 (pk_input (recomputed_tops sample_blake3 (fill32 2) sig'))
        (pk_input (recomputed_tops sample_blake3 (fill32 1) sig)) \<or>
      (\<exists>i < 67. unat (digits (fill32 2) ! i) < unat (digits (fill32 1) ! i)))"
proof -
  let ?k = "wots_keygen sample_blake3 (fill32 7)"
  obtain sig sig' where "wots_sign sample_blake3 (fst ?k) (fill32 1) = Some sig"
    and "wots_sign sample_blake3 (fst ?k) (fill32 2) = Some sig'"
    using wots.sign_total [of sample_blake3 "fill32 7"] by fastforce
  then have v: "wots_verify sample_blake3 (snd ?k) (fill32 1) sig"
      "wots_verify sample_blake3 (snd ?k) (fill32 2) sig'"
    by (auto intro: wots_sign_verify)
  have "fill32 1 \<noteq> fill32 2" by simp
  from wots_second_signature [OF v this] v show ?thesis by blast
qed

end
