(* ===== verification/Appliance_Facts.thy ===== *)
theory Appliance_Facts
  imports Recovery Wots
begin

text \<open>
  Facts about the operations of \<open>Appliance\<close> that the later theories rest on: what each leaves
  unchanged, when each succeeds and with what state, and, over a chip that keeps its contract,
  how each moves the counter.
\<close>

section \<open>What no operation changes\<close>

text \<open>The enrolled configuration: everything but the active state and the chip.\<close>

definition config :: "'c appliance \<Rightarrow> u32 \<times> bytes32 \<times> u16 \<times> bool \<times> bool" where
  "config a = (h0 a, anchor_id a, slot a, firmware_boundary_invalid a, rmemory_map_invalid a)"

lemma config_update [simp]:
  "config (a\<lparr>tropic := c\<rparr>) = config a"
  "config (a\<lparr>active := s\<rparr>) = config a"
  "config (mark_committed u a) = config a"
  by (simp_all add: config_def mark_committed_def)

lemma mark_committed_simps [simp]:
  "tropic (mark_committed u a) = tropic a"
  "h0 (mark_committed u a) = h0 a"
  "act_root (active (mark_committed u a)) = act_root (active a)"
  "act_u (active (mark_committed u a)) = u"
  "act_status (active (mark_committed u a)) = act_status (active a)"
  by (simp_all add: mark_committed_def)

lemma live_index_frame [frame_simps]:
  "active (snd (live_index P a)) = active a"
  "config (snd (live_index P a)) = config a"
  by (auto simp: live_index_def split: prod.splits sum.splits option.splits)

lemma live_indexE:
  assumes "live_index P a = (r, a')"
  obtains ch where "a' = a\<lparr>tropic := ch\<rparr>"
  using assms by (auto simp: live_index_def split: prod.splits sum.splits option.splits)

text \<open>Widened from 32 bits, the live index leaves room for its successor.\<close>

lemma live_index_succ:
  assumes "live_index P a = (Inr u, a')"
  shows "unat u < 4294967296" and "unat (u + 1) = unat u + 1"
proof -
  from assms obtain v :: u32 where u: "u = ucast v"
    by (auto simp: live_index_def split: prod.splits sum.splits option.splits)
  show bound: "unat u < 4294967296" by (simp only: u unat_u32_as_u64 unat_u32_less)
  then show "unat (u + 1) = unat u + 1"
    by (simp add: unat_word_ariths)
qed

section \<open>Preparing\<close>

text \<open>The record that a successful \<open>prepare\<close> stores, for the output \<open>w\<close> of the secure element.\<close>

definition prepared_for ::
    "'c platform \<Rightarrow> 'c appliance \<Rightarrow> transition \<Rightarrow> bytes32 \<Rightarrow> bytes32 \<Rightarrow> prepared_record" where
  "prepared_for P a t rc w =
     (let B = pf_blake3 P;
          d = transition_digest B t;
          x = witness_input B t d (anchor_id a) (slot a) rc;
          keys = ws_keygen (pf_sig P) (witness_key_material B w x t (anchor_id a) (slot a));
          p_hw = pk_hash B (snd keys)
      in \<lparr> p_txn = t, p_digest = d, p_witness_input = x,
           p_cert_message = cert_message B t d x p_hw (anchor_id a) (slot a) rc,
           p_pk_hw = snd keys, p_p_hw = p_hw, p_sk_hw = fst keys, p_receiver_challenge = rc \<rparr>)"

lemma p_txn_prepared_for [simp]: "p_txn (prepared_for P a t rc w) = t"
  by (simp add: prepared_for_def Let_def)

lemma prepared_for_keys:
  "\<exists>seed. p_sk_hw (prepared_for P a t rc w) = fst (ws_keygen (pf_sig P) seed) \<and>
          p_pk_hw (prepared_for P a t rc w) = snd (ws_keygen (pf_sig P) seed)"
  by (auto simp: prepared_for_def Let_def)

lemma prepared_for_cong:
  "anchor_id a' = anchor_id a \<Longrightarrow> slot a' = slot a \<Longrightarrow> prepared_for P a' t rc w = prepared_for P a t rc w"
  by (simp add: prepared_for_def)

lemma prepare_cases:
  obtains (success) ch w ch' where
      "prepare P t rc a = (Done (), a\<lparr>tropic := ch', active := (active a)
         \<lparr>act_status := Prepared, act_record := RPrepared (prepared_for P a t rc w)\<rparr>\<rparr>)"
      and "act_status (active a) = Ready" and "prev_root t = act_root (active a)"
      and "anchor_counter t = act_u (active a)"
      and "plus_u64 (pf_debug P) (anchor_counter t) 1 = Some (next_anchor_counter t)"
      and "live_index P a = (Inr (act_u (active a)), a\<lparr>tropic := ch\<rparr>)"
      and "pf_debug P \<longrightarrow> enc_fits t"
      and "mac_and_destroy (pf_tropic P) (slot a) (p_witness_input (prepared_for P a t rc w)) ch
             = (Inr w, ch')"
  | (stopped) "fst (prepare P t rc a) \<noteq> Done ()"
      and "active (snd (prepare P t rc a)) = active a"
      and "config (snd (prepare P t rc a)) = config a"
proof (cases "fst (prepare P t rc a) = Done ()")
  case True
  then obtain a' where fin: "prepare P t rc a = (Done (), a')" by (metis prod.collapse)
  then have g: "act_status (active a) = Ready" "prev_root t = act_root (active a)"
      "anchor_counter t = act_u (active a)"
      "plus_u64 (pf_debug P) (anchor_counter t) 1 = Some (next_anchor_counter t)"
    by (auto simp: prepare_def split: if_splits option.splits)
  obtain r a1 where li: "live_index P a = (r, a1)" by (metis prod.collapse)
  with fin g obtain live_u where r: "r = Inr live_u" "live_u = act_u (active a1)"
      "pf_debug P \<longrightarrow> enc_fits t"
    by (auto simp: prepare_def split: if_splits sum.splits)
  from li obtain ch where a1: "a1 = a\<lparr>tropic := ch\<rparr>" by (rule live_indexE)
  let ?x = "witness_input (pf_blake3 P) t (transition_digest (pf_blake3 P) t) (anchor_id a) (slot a) rc"
  obtain m ch' where mac: "mac_and_destroy (pf_tropic P) (slot a) ?x ch = (m, ch')"
    by (metis prod.collapse)
  with fin g li r a1 obtain w where m: "m = Inr w"
    by (cases m) (auto simp: prepare_def Let_def)
  have "a' = a\<lparr>tropic := ch', active := (active a)
         \<lparr>act_status := Prepared, act_record := RPrepared (prepared_for P a t rc w)\<rparr>\<rparr>"
    using fin g li r a1 mac m
    by (auto simp: prepare_def prepared_for_def Let_def split: prod.splits)
  with fin g li r a1 mac m show ?thesis
    by (intro that(1) [where ch = ch and w = w and ch' = ch']) (auto simp: prepared_for_def Let_def)
next
  case False
  obtain r a1 where li: "live_index P a = (r, a1)" by (metis prod.collapse)
  from li obtain ch where a1: "a1 = a\<lparr>tropic := ch\<rparr>" by (rule live_indexE)
  have "active (snd (prepare P t rc a)) = active a \<and> config (snd (prepare P t rc a)) = config a"
    using False li a1
    by (simp add: prepare_def Let_def split: option.splits sum.splits prod.splits if_splits)
  with False that(2) show ?thesis by blast
qed

lemma prepare_DoneE:
  assumes "prepare P t rc a = (Done (), a1)"
  obtains ch w ch' where
      "a1 = a\<lparr>tropic := ch', active := (active a)
         \<lparr>act_status := Prepared, act_record := RPrepared (prepared_for P a t rc w)\<rparr>\<rparr>"
    and "act_status (active a) = Ready" and "prev_root t = act_root (active a)"
    and "anchor_counter t = act_u (active a)"
    and "plus_u64 (pf_debug P) (anchor_counter t) 1 = Some (next_anchor_counter t)"
    and "live_index P a = (Inr (act_u (active a)), a\<lparr>tropic := ch\<rparr>)"
    and "pf_debug P \<longrightarrow> enc_fits t"
    and "unat (next_anchor_counter t) = unat (anchor_counter t) + 1"
proof (cases rule: prepare_cases [where P = P and t = t and rc = rc and a = a])
  case (success ch w ch')
  from success(5) live_index_succ(2) [OF success(6)]
  have succ: "unat (next_anchor_counter t) = unat (anchor_counter t) + 1"
    by (auto simp: plus_u64_def success(4) checked_add_Some_iff split: if_splits)
  show ?thesis
    by (rule that [where ch = ch and w = w and ch' = ch']) (use success succ assms in simp_all)
next
  case stopped
  with assms show ?thesis by simp
qed

section \<open>Committing\<close>

text \<open>The candidate that phase 1 of \<open>commit\<close> stores.\<close>

definition candidate ::
    "'c appliance \<Rightarrow> prepared_record \<Rightarrow> byte list \<Rightarrow> u32 \<Rightarrow> committed_record" where
  "candidate a p sigma hv =
     \<lparr> cr_prev_root = prev_root (p_txn p), cr_next_root = next_root (p_txn p),
       cr_anchor_counter = anchor_counter (p_txn p),
       cr_next_anchor_counter = next_anchor_counter (p_txn p),
       cr_release = commit_release a p sigma hv, cr_committed = False \<rparr>"

lemma commit_release_tropic [simp]: "commit_release (a\<lparr>tropic := c\<rparr>) p sigma hv = commit_release a p sigma hv"
  by (simp add: commit_release_def)

lemma candidate_simps [simp]:
  "cr_prev_root (candidate a p sigma hv) = prev_root (p_txn p)"
  "cr_next_root (candidate a p sigma hv) = next_root (p_txn p)"
  "cr_anchor_counter (candidate a p sigma hv) = anchor_counter (p_txn p)"
  "cr_next_anchor_counter (candidate a p sigma hv) = next_anchor_counter (p_txn p)"
  "cr_release (candidate a p sigma hv) = commit_release a p sigma hv"
  "\<not> cr_committed (candidate a p sigma hv)"
  by (simp_all add: candidate_def)

definition store_candidate ::
    "committed_record \<Rightarrow> 'c \<Rightarrow> 'c appliance \<Rightarrow> 'c appliance" where
  "store_candidate cand ch a =
     a\<lparr>tropic := ch, active := (active a)\<lparr>act_status := Committed, act_record := RCommitted cand\<rparr>\<rparr>"

lemma store_candidate_simps [simp]:
  "tropic (store_candidate cand ch a) = ch"
  "act_root (active (store_candidate cand ch a)) = act_root (active a)"
  "act_u (active (store_candidate cand ch a)) = act_u (active a)"
  "act_status (active (store_candidate cand ch a)) = Committed"
  "act_record (active (store_candidate cand ch a)) = RCommitted cand"
  "config (store_candidate cand ch a) = config a"
  "h0 (store_candidate cand ch a) = h0 a"
  by (simp_all add: store_candidate_def config_def)

lemma store_candidate_tropic [simp]:
  "(store_candidate cand ch a)\<lparr>tropic := ch'\<rparr> = store_candidate cand ch' a"
  by (simp add: store_candidate_def)

text \<open>What phase 1 checked before it stored the candidate.\<close>

definition commit_ready ::
    "'c platform \<Rightarrow> 'c appliance \<Rightarrow> prepared_record \<Rightarrow> u32 \<Rightarrow> 'c \<Rightarrow> byte list \<Rightarrow> bool" where
  "commit_ready P a p hv ch sigma \<longleftrightarrow>
     act_record (active a) = RPrepared p \<and> p_sk_hw p \<noteq> [] \<and>
     prev_root (p_txn p) = act_root (active a) \<and>
     counter_get (pf_tropic P) (tropic a) = (Inr hv, ch) \<and> hv \<noteq> 0 \<and>
     unat (h0 a) = unat hv + unat (anchor_counter (p_txn p)) \<and>
     ws_sign (pf_sig P) (p_sk_hw p) (p_cert_message p) = Some sigma"

lemma u32_index_iff:
  "(\<exists>u. checked_sub (e :: u32) hv = Some u \<and> (ucast u :: u64) = n) \<longleftrightarrow> unat e = unat hv + unat n"
proof
  assume "unat e = unat hv + unat n"
  moreover define u :: u32 where "u = ucast n"
  ultimately have "unat n < 2 ^ LENGTH(32)" using unat_u32_less [of e] by simp
  then have "unat u = unat n"
    by (simp add: u_def unsigned_ucast_eq take_bit_nat_eq_self)
  with \<open>unat e = unat hv + unat n\<close> show "\<exists>u. checked_sub e hv = Some u \<and> (ucast u :: u64) = n"
    by (intro exI [of _ u]) (simp add: checked_sub_Some_iff word_unat_eq_iff [where 'a = 64])
qed (auto simp: checked_sub_Some_iff)

lemma commit_phase1_cases:
  obtains (success) p hv ch sigma where
      "commit_phase1 P a = (Done (), store_candidate (candidate a p sigma hv) ch a)"
      and "commit_ready P a p hv ch sigma"
  | (stopped) "fst (commit_phase1 P a) \<noteq> Done ()"
      and "active (snd (commit_phase1 P a)) = active a"
      and "config (snd (commit_phase1 P a)) = config a"
proof (cases "fst (commit_phase1 P a) = Done ()")
  case True
  then obtain p where p: "act_record (active a) = RPrepared p"
    by (auto simp: commit_phase1_def split: active_record.splits)
  obtain r ch where cg: "counter_get (pf_tropic P) (tropic a) = (r, ch)" by (metis prod.collapse)
  from True p cg obtain hv where r: "r = Inr hv" "p_sk_hw p \<noteq> []" "hv \<noteq> 0"
      "prev_root (p_txn p) = act_root (active a)"
    by (cases r) (auto simp: commit_phase1_def Let_def split: if_splits)
  with True p cg obtain u sigma where u: "checked_sub (h0 a) hv = Some u"
      "ucast u = anchor_counter (p_txn p)"
      "ws_sign (pf_sig P) (p_sk_hw p) (p_cert_message p) = Some sigma"
    by (auto simp: commit_phase1_def Let_def split: if_splits option.splits)
  have "commit_phase1 P a = (Done (), store_candidate (candidate a p sigma hv) ch a)"
    using p cg r u by (simp add: commit_phase1_def store_candidate_def candidate_def Let_def)
  moreover have "commit_ready P a p hv ch sigma"
    using p cg r u u32_index_iff [of "h0 a" hv "anchor_counter (p_txn p)"]
    by (auto simp: commit_ready_def)
  ultimately show ?thesis by (rule that(1))
next
  case False
  then have "active (snd (commit_phase1 P a)) = active a \<and> config (snd (commit_phase1 P a)) = config a"
    by (auto simp: commit_phase1_def Let_def
        split: active_record.splits option.splits sum.splits prod.splits if_splits)
  with False that(2) show ?thesis by blast
qed

lemma commit_phase1_Done_iff:
  "fst (commit_phase1 P a) = Done () \<longleftrightarrow> (\<exists>p hv ch sigma. commit_ready P a p hv ch sigma)"
proof
  assume "fst (commit_phase1 P a) = Done ()"
  then show "\<exists>p hv ch sigma. commit_ready P a p hv ch sigma"
    by (cases P a rule: commit_phase1_cases) auto
next
  assume "\<exists>p hv ch sigma. commit_ready P a p hv ch sigma"
  then obtain p hv ch sigma where r: "commit_ready P a p hv ch sigma" by blast
  then obtain u where "checked_sub (h0 a) hv = Some u" "ucast u = anchor_counter (p_txn p)"
    using u32_index_iff [of "h0 a" hv "anchor_counter (p_txn p)"] by (auto simp: commit_ready_def)
  with r show "fst (commit_phase1 P a) = Done ()"
    by (simp add: commit_ready_def commit_phase1_def Let_def)
qed

text \<open>
  \<open>commit\<close> either stops in phase 1 with nothing changed but the chip session, or stores the
  candidate and then either fails to move the counter, leaving the candidate unmarked, or marks it.
\<close>

lemma commit_cases:
  obtains (success) p hv ch sigma ch' u where
      "commit_ready P a p hv ch sigma" and "counter_update (pf_tropic P) ch = (Inr u, ch')"
      and "commit P a = (Done (), mark_committed (next_anchor_counter (p_txn p))
             (store_candidate (candidate a p sigma hv) ch' a))"
  | (unmoved) p hv ch sigma ch' e where
      "commit_ready P a p hv ch sigma" and "counter_update (pf_tropic P) ch = (Inl e, ch')"
      and "commit P a = (Fail CounterExhausted, store_candidate (candidate a p sigma hv) ch' a)"
  | (stopped) "fst (commit P a) \<noteq> Done ()" and "commit P a = commit_phase1 P a"
      and "active (snd (commit P a)) = active a" and "config (snd (commit P a)) = config a"
proof (cases P a rule: commit_phase1_cases)
  case (success p hv ch sigma)
  obtain r ch' where upd: "counter_update (pf_tropic P) ch = (r, ch')" by (metis prod.collapse)
  from success(2) have rec: "act_record (active a) = RPrepared p" by (simp add: commit_ready_def)
  show ?thesis
  proof (cases r)
    case (Inl e)
    then have "commit P a = (Fail CounterExhausted, store_candidate (candidate a p sigma hv) ch' a)"
      using success upd by (simp add: commit_def commit_phase2_def)
    with success upd Inl that(2) show ?thesis by blast
  next
    case (Inr u)
    then have "commit P a = (Done (), mark_committed (next_anchor_counter (p_txn p))
        (store_candidate (candidate a p sigma hv) ch' a))"
      using success upd rec by (simp add: commit_def commit_phase2_def)
    with success upd Inr that(1) show ?thesis by blast
  qed
next
  case stopped
  then have "commit P a = commit_phase1 P a"
    by (auto simp: commit_def split: prod.splits outcome.splits)
  with stopped that(3) show ?thesis by simp
qed

lemma commit_ready_unique:
  assumes "commit_ready P a p hv ch sigma" and "commit_ready P a p' hv' ch' sigma'"
  shows "p' = p" and "hv' = hv" and "ch' = ch" and "sigma' = sigma"
  using assms by (simp_all add: commit_ready_def)

lemma commit_phase1_of_ready:
  assumes ready: "commit_ready P a p hv ch sigma"
  shows "commit_phase1 P a = (Done (), store_candidate (candidate a p sigma hv) ch a)"
proof (cases P a rule: commit_phase1_cases)
  case (success p' hv' ch' sigma')
  with commit_ready_unique [OF ready success(2)] show ?thesis by simp
next
  case stopped
  with ready show ?thesis using commit_phase1_Done_iff [of P a] by blast
qed

lemma commit_of_ready:
  assumes "commit_ready P a p hv ch sigma" and "counter_update (pf_tropic P) ch = (r, ch')"
  shows "commit P a =
    (case r of Inl e \<Rightarrow> (Fail CounterExhausted, store_candidate (candidate a p sigma hv) ch' a)
     | Inr _ \<Rightarrow> (Done (), mark_committed (next_anchor_counter (p_txn p))
                   (store_candidate (candidate a p sigma hv) ch' a)))"
proof -
  have "act_record (active a) = RPrepared p" using assms(1) by (simp add: commit_ready_def)
  with assms commit_phase1_of_ready [OF assms(1)] show ?thesis
    by (simp add: commit_def commit_phase2_def split: sum.split)
qed

lemma commit_DoneE:
  assumes "commit P a = (Done (), a')"
  obtains p hv ch sigma ch' u where "commit_ready P a p hv ch sigma"
    and "counter_update (pf_tropic P) ch = (Inr u, ch')"
    and "a' = mark_committed (next_anchor_counter (p_txn p))
               (store_candidate (candidate a p sigma hv) ch' a)"
  using assms by (cases P a rule: commit_cases) simp_all

section \<open>Emitting, finalizing, cancelling\<close>

lemma emit_Inr_iff:
  "emit a = Inr r \<longleftrightarrow>
     (\<exists>c. act_record (active a) = RCommitted c \<and> cr_committed c \<and> r = cr_release c)"
  by (auto simp: emit_def split: active_record.splits)

lemma finalize_cases:
  obtains (success) c ch where
      "finalize P a = (Inr (cr_next_root c),
         a\<lparr>tropic := ch, active := \<lparr> act_root = cr_next_root c, act_u = act_u (active a),
                                    act_status = Ready, act_record = REmpty \<rparr>\<rparr>)"
      and "act_record (active a) = RCommitted c" and "cr_committed c"
      and "live_index P a = (Inr (act_u (active a)), a\<lparr>tropic := ch\<rparr>)"
  | (stopped) e where "fst (finalize P a) = Inl e"
      and "active (snd (finalize P a)) = active a" and "config (snd (finalize P a)) = config a"
proof -
  obtain r a1 where li: "live_index P a = (r, a1)" by (metis prod.collapse)
  from li obtain ch where a1: "a1 = a\<lparr>tropic := ch\<rparr>" by (rule live_indexE)
  show ?thesis
  proof (cases "\<exists>c. act_record (active a) = RCommitted c \<and> cr_committed c \<and> r = Inr (act_u (active a))")
    case True
    then obtain c where c: "act_record (active a) = RCommitted c" "cr_committed c"
        "r = Inr (act_u (active a))" by blast
    show ?thesis
      by (rule that(1) [of c ch]) (use c li a1 in \<open>simp_all add: finalize_def\<close>)
  next
    case False
    then have "\<exists>e. fst (finalize P a) = Inl e \<and> active (snd (finalize P a)) = active a \<and>
        config (snd (finalize P a)) = config a"
      using li a1 by (auto simp: finalize_def split: active_record.splits sum.splits)
    with that(2) show ?thesis by blast
  qed
qed

lemma cancel_Inr_iff:
  "fst (cancel a) = Inr () \<longleftrightarrow> (\<exists>p. act_record (active a) = RPrepared p)"
  by (auto simp: cancel_def Let_def split: active_record.splits)

lemma cancel_cases:
  obtains (success) p where
      "cancel a = (Inr (), a\<lparr>active := (active a)\<lparr>act_status := Ready, act_record := REmpty\<rparr>\<rparr>)"
      and "act_record (active a) = RPrepared p"
  | (stopped) "cancel a = (Inl WrongState, a)" and "\<forall>p. act_record (active a) \<noteq> RPrepared p"
  by (cases "act_record (active a)") (auto simp: cancel_def Let_def)

section \<open>Recovering\<close>

lemma mark_committed_record [simp]:
  "act_record (active a) = RCommitted c \<Longrightarrow>
     act_record (active (mark_committed u a)) = RCommitted (c\<lparr>cr_committed := True\<rparr>)"
  by (simp add: mark_committed_def)

lemma mark_committed_again:
  "act_record (active a) = RCommitted c \<Longrightarrow> cr_committed c \<Longrightarrow>
     mark_committed u a = a\<lparr>active := (active a)\<lparr>act_u := u\<rparr>\<rparr>"
  by (simp add: mark_committed_def)

lemma recover_prepared_frame: "snd (recover_prepared u a) = a"
  by (simp add: recover_prepared_def Let_def)

lemma recover_ready_frame:
  "active (snd (recover_ready P u a)) = active a" "config (snd (recover_ready P u a)) = config a"
  by (simp_all add: recover_ready_def split: prod.split sum.split)

lemma recover_committed_frame:
  assumes "\<forall>r. fst (recover_committed P u c a) \<noteq> ReemitCommitted r"
  shows "active (snd (recover_committed P u c a)) = active a"
    and "config (snd (recover_committed P u c a)) = config a"
  using assms by (auto simp: recover_committed_def Let_def split: prod.splits sum.splits if_splits)

lemma recover_cases:
  obtains (reemit) c live_u ch ch' u where
      "recover P a = (ReemitCommitted (cr_next_root c),
         mark_committed (cr_next_anchor_counter c) (a\<lparr>tropic := ch'\<rparr>))"
      and "act_status (active a) = Committed" and "act_record (active a) = RCommitted c"
      and "live_index P a = (Inr live_u, a\<lparr>tropic := ch\<rparr>)"
      and "(cr_next_anchor_counter c = live_u \<and> ch' = ch) \<or>
           (\<not> cr_committed c \<and> cr_next_anchor_counter c = live_u + 1 \<and>
            cr_prev_root c = act_root (active a) \<and>
            counter_update (pf_tropic P) ch = (Inr u, ch'))"
  | (stopped) "\<forall>r. fst (recover P a) \<noteq> ReemitCommitted r"
      and "active (snd (recover P a)) = active a" and "config (snd (recover P a)) = config a"
proof (cases "\<exists>r. fst (recover P a) = ReemitCommitted r")
  case True
  note reemit = that(1)
  obtain r a1 where li: "live_index P a = (r, a1)" by (metis prod.collapse)
  from li obtain ch where a1: "a1 = a\<lparr>tropic := ch\<rparr>" by (rule live_indexE)
  from True li a1 obtain live_u c where c: "r = Inr live_u" "act_status (active a) = Committed"
      "act_record (active a) = RCommitted c"
      "recover P a = recover_committed P live_u c (a\<lparr>tropic := ch\<rparr>)"
    by (auto simp: recover_def recover_prepared_def recover_ready_def Let_def
        split: if_splits sum.splits status.splits active_record.splits prod.splits)
  show ?thesis
  proof (cases "cr_next_anchor_counter c = live_u")
    case same: True
    then have "recover P a = (ReemitCommitted (cr_next_root c),
        mark_committed (cr_next_anchor_counter c) (a\<lparr>tropic := ch\<rparr>))"
      using c True by (auto simp: recover_committed_def mark_committed_again split: if_splits)
    with same c li a1 show ?thesis by (intro reemit [of c ch live_u ch]) simp_all
  next
    case False
    obtain q ch' where upd: "counter_update (pf_tropic P) ch = (q, ch')" by (metis prod.collapse)
    with False True c obtain u where "q = Inr u" "\<not> cr_committed c"
        "cr_next_anchor_counter c = live_u + 1" "cr_prev_root c = act_root (active a)"
      by (auto simp: recover_committed_def Let_def split: if_splits sum.splits)
    with c li a1 upd show ?thesis
      by (intro reemit [of c ch' live_u ch u]) (simp_all add: recover_committed_def)
  qed
next
  case False
  obtain r a1 where li: "live_index P a = (r, a1)" by (metis prod.collapse)
  from li obtain ch where a1: "a1 = a\<lparr>tropic := ch\<rparr>" by (rule live_indexE)
  have "active (snd (recover P a)) = active a \<and> config (snd (recover P a)) = config a"
  proof (cases r)
    case (Inl e)
    with li a1 show ?thesis by (simp add: recover_def)
  next
    case (Inr live_u)
    with False li a1 show ?thesis
      by (auto simp: recover_def recover_prepared_frame recover_ready_frame recover_committed_frame
          split: status.splits active_record.splits)
  qed
  with False that(2) show ?thesis by blast
qed

end
