(* ===== verification/Counter_Discipline.thy ===== *)
theory Counter_Discipline
  imports Appliance_Facts
begin

text \<open>
  How the operations of the appliance move the down-counter of a chip that keeps the contract
  \<open>tropic_chip\<close>. The index of a state is the number of steps the counter has taken since
  enrollment, \<open>u = H0 - H\<close>. The locale \<open>appliance_chip\<close> is the appliance's view of the secure
  element; it is interpreted on the host tests' platform at the end.
\<close>

definition chip_index :: "('c \<Rightarrow> u32) \<Rightarrow> 'c appliance \<Rightarrow> nat" where
  "chip_index live a = unat (h0 a) - unat (live (tropic a))"

lemma chip_index_active [simp]: "chip_index live (a\<lparr>active := s\<rparr>) = chip_index live a"
  by (simp add: chip_index_def)

lemma chip_index_mark [simp]: "chip_index live (mark_committed u a) = chip_index live a"
  by (simp add: chip_index_def)

lemma config_h0: "config a' = config a \<Longrightarrow> h0 a' = h0 a"
  by (simp add: config_def)

lemma chip_index_mono:
  "config a' = config a \<Longrightarrow> live (tropic a') \<le> live (tropic a) \<Longrightarrow> chip_index live a \<le> chip_index live a'"
  using config_h0 [of a' a] by (simp add: chip_index_def word_le_nat_alt)

locale appliance_chip = tropic_chip "pf_tropic P" live
  for P :: "'c platform" and live :: "'c \<Rightarrow> u32"
begin

lemma live_index_live [simp]: "live (tropic (snd (live_index P a))) = live (tropic a)"
  using get_frame [of "tropic a"]
  by (auto simp: live_index_def split: prod.splits sum.splits option.splits)

lemma live_index_Inr:
  assumes "live_index P a = (Inr u, a\<lparr>tropic := ch\<rparr>)"
  shows "unat u = chip_index live a" and "unat (live (tropic a)) \<le> unat (h0 a)"
    and "live ch = live (tropic a)"
proof -
  obtain r c where cg: "counter_get (pf_tropic P) (tropic a) = (r, c)" by (metis prod.collapse)
  with assms get_value [of "tropic a"] obtain v where
    "checked_sub (h0 a) (live (tropic a)) = Some v" "u = ucast v"
    by (auto simp: live_index_def split: sum.splits option.splits)
  then show "unat u = chip_index live a" and "unat (live (tropic a)) \<le> unat (h0 a)"
    by (auto simp: checked_sub_Some_iff chip_index_def)
  show "live ch = live (tropic a)"
    using live_index_live [of a] assms by simp
qed

lemma prepare_live: "live (tropic (snd (prepare P t rc a))) = live (tropic a)"
proof -
  obtain r a1 where li: "live_index P a = (r, a1)" by (metis prod.collapse)
  then have "live (tropic a1) = live (tropic a)" using live_index_live [of a] by simp
  moreover have "live c = live (tropic a1)"
    if "mac_and_destroy (pf_tropic P) q x (tropic a1) = (m, c)" for q x m c
    using macd_frame [of q x "tropic a1"] that by simp
  ultimately show ?thesis
    using li by (auto simp: prepare_def Let_def split: option.splits sum.splits prod.splits)
qed

lemma commit_ready_live:
  assumes "commit_ready P a p hv ch sigma"
  shows "live ch = live (tropic a)" and "hv = live (tropic a)"
    and "unat (anchor_counter (p_txn p)) = chip_index live a" and "unat (live (tropic a)) \<le> unat (h0 a)"
proof -
  from assms have cg: "counter_get (pf_tropic P) (tropic a) = (Inr hv, ch)"
    and eq: "unat (h0 a) = unat hv + unat (anchor_counter (p_txn p))"
    by (simp_all add: commit_ready_def)
  show "live ch = live (tropic a)" using get_frame [of "tropic a"] cg by simp
  show hv: "hv = live (tropic a)" using get_value [of "tropic a" hv] cg by simp
  show "unat (anchor_counter (p_txn p)) = chip_index live a"
    and "unat (live (tropic a)) \<le> unat (h0 a)"
    using eq by (simp_all add: chip_index_def hv)
qed

lemma commit_phase1_live: "live (tropic (snd (commit_phase1 P a))) = live (tropic a)"
proof -
  obtain r c where cg: "counter_get (pf_tropic P) (tropic a) = (r, c)" by (metis prod.collapse)
  then have "live c = live (tropic a)" using get_frame [of "tropic a"] by simp
  with cg show ?thesis
    by (auto simp: commit_phase1_def Let_def
        split: active_record.splits sum.splits option.splits if_splits)
qed

lemma commit_live: "live (tropic (snd (commit P a))) \<le> live (tropic a)"
proof (cases P a rule: commit_cases)
  case (success p hv ch sigma ch' u)
  then show ?thesis using update_le [of ch] commit_ready_live(1) [OF success(1)] by simp
next
  case (unmoved p hv ch sigma ch' e)
  then show ?thesis using update_le [of ch] commit_ready_live(1) [OF unmoved(1)] by simp
next
  case stopped
  then show ?thesis using commit_phase1_live [of a] by simp
qed

lemma finalize_live: "live (tropic (snd (finalize P a))) = live (tropic a)"
proof -
  obtain r a1 where li: "live_index P a = (r, a1)" by (metis prod.collapse)
  then have "live (tropic a1) = live (tropic a)" using live_index_live [of a] by simp
  with li show ?thesis
    by (auto simp: finalize_def split: active_record.splits sum.splits)
qed

lemma finalize_index:
  assumes "finalize P a = (Inr r, a')"
  shows "unat (act_u (active a)) = chip_index live a"
proof (cases P a rule: finalize_cases)
  case (success c ch)
  then show ?thesis by (auto dest: live_index_Inr(1))
next
  case (stopped e)
  with assms show ?thesis by simp
qed

lemma update_step:
  assumes "counter_update (pf_tropic P) ch = (Inr u, ch')"
  shows "unat (live ch) = Suc (unat (live ch'))"
  using update_ok [of ch u] assms by simp

text \<open>A completed commit takes exactly one counter step.\<close>

lemma commit_Done_index:
  assumes "commit P a = (Done (), a')"
  shows "chip_index live a' = Suc (chip_index live a)"
    and "\<exists>p. act_record (active a) = RPrepared p \<and> unat (anchor_counter (p_txn p)) = chip_index live a"
proof -
  obtain p hv ch sigma ch' u where
    r: "commit_ready P a p hv ch sigma" "counter_update (pf_tropic P) ch = (Inr u, ch')"
      "a' = mark_committed (next_anchor_counter (p_txn p))
             (store_candidate (candidate a p sigma hv) ch' a)"
    using assms by (rule commit_DoneE)
  note live = commit_ready_live [OF r(1)]
  from update_step [OF r(2)] live(1,4) show "chip_index live a' = Suc (chip_index live a)"
    by (simp add: r(3) chip_index_def)
  from r(1) live(3) show "\<exists>p. act_record (active a) = RPrepared p \<and>
      unat (anchor_counter (p_txn p)) = chip_index live a"
    by (auto simp: commit_ready_def)
qed

text \<open>
  After a recovery that re-emits, the index of the record is the chip's index, and the counter has
  moved at most once, only for a candidate not yet marked.
\<close>

lemma recover_reemit_index:
  assumes "recover P a = (ReemitCommitted r, a')"
  obtains c ch where "act_record (active a) = RCommitted c"
    and "act_status (active a) = Committed" and "r = cr_next_root c"
    and "a' = mark_committed (cr_next_anchor_counter c) (a\<lparr>tropic := ch\<rparr>)"
    and "unat (cr_next_anchor_counter c) = chip_index live a'"
    and "live ch = live (tropic a) \<or>
         \<not> cr_committed c \<and> unat (live (tropic a)) = Suc (unat (live ch))"
    and "unat (live (tropic a)) \<le> unat (h0 a)"
proof (cases rule: recover_cases [of P a])
  case (reemit c live_u ch ch' u)
  note li = live_index_Inr [OF reemit(4)]
  have a': "a' = mark_committed (cr_next_anchor_counter c) (a\<lparr>tropic := ch'\<rparr>)" and "r = cr_next_root c"
    using assms reemit(1) by simp_all
  from reemit(5) show ?thesis
  proof
    assume "cr_next_anchor_counter c = live_u \<and> ch' = ch"
    with li have "unat (cr_next_anchor_counter c) = chip_index live a'" "live ch' = live (tropic a)"
      by (simp_all add: a' chip_index_def)
    with reemit a' \<open>r = cr_next_root c\<close> li(2) show ?thesis by (intro that [of c ch']) auto
  next
    assume s: "\<not> cr_committed c \<and> cr_next_anchor_counter c = live_u + 1 \<and>
        cr_prev_root c = act_root (active a) \<and> counter_update (pf_tropic P) ch = (Inr u, ch')"
    then have "unat (live (tropic a)) = Suc (unat (live ch'))"
      using update_step [of ch u ch'] li(3) by simp
    moreover from this s li live_index_succ(2) [OF reemit(4)]
    have "unat (cr_next_anchor_counter c) = chip_index live a'"
      by (simp add: a' chip_index_def)
    ultimately show ?thesis
      using reemit a' \<open>r = cr_next_root c\<close> s li(2) by (intro that [of c ch']) auto
  qed
next
  case stopped
  with assms show ?thesis by simp
qed

lemma recover_live: "live (tropic (snd (recover P a))) \<le> live (tropic a)"
proof -
  obtain r a1 where li: "live_index P a = (r, a1)" by (metis prod.collapse)
  then have a1: "live (tropic a1) = live (tropic a)" using live_index_live [of a] by simp
  have "live (tropic (snd (recover_committed P u c a1))) \<le> live (tropic a1)" for u c
    using update_le [of "tropic a1"]
    by (auto simp: recover_committed_def Let_def split: prod.split sum.split)
  moreover have "live (tropic (snd (recover_ready P u a1))) = live (tropic a1)" for u
    using get_frame [of "tropic a1"]
    by (auto simp: recover_ready_def split: prod.split sum.split)
  ultimately show ?thesis
    using li a1
    by (auto simp: recover_def recover_prepared_frame
        split: sum.split status.split active_record.split)
qed

end

section \<open>The platform of the host tests\<close>

text \<open>
  \<open>Appliance<MockTropic, WotsBlake3>\<close> of \<open>tests/integration.rs\<close>: the mock chip, whose
  MAC-And-Destroy is the keyed hash of slot and input, and the WOTS signature.
\<close>

definition mock_mac :: "blake3 \<Rightarrow> bytes32 \<Rightarrow> u16 \<Rightarrow> bytes32 \<Rightarrow> bytes32" where
  "mock_mac B secret q x = kdf B secret ''test/macandd'' [u16_le q, bytes_of x]"

definition mock_platform :: "bool \<Rightarrow> blake3 \<Rightarrow> mock_tropic platform" where
  "mock_platform dbg B =
     \<lparr> pf_debug = dbg, pf_blake3 = B, pf_tropic = mock_ops (mock_mac B), pf_sig = wots_blake3 B \<rparr>"

lemma mock_platform_simps [simp]:
  "pf_debug (mock_platform dbg B) = dbg" "pf_blake3 (mock_platform dbg B) = B"
  "pf_tropic (mock_platform dbg B) = mock_ops (mock_mac B)"
  "pf_sig (mock_platform dbg B) = wots_blake3 B"
  by (simp_all add: mock_platform_def)

interpretation mock_app: appliance_chip "mock_platform dbg B" mock_h for dbg B
  by (simp add: appliance_chip_def mock.tropic_chip_axioms)

end
