(* ===== verification/Lifecycle.thy ===== *)
theory Lifecycle
  imports Counter_Discipline
begin

text \<open>
  One root advance on a chip that answers: \<open>prepare\<close>, \<open>commit\<close>, \<open>emit\<close> and \<open>finalize\<close> succeed in
  turn and leave the appliance ready for the next advance. Also the appliance and the transition
  of the host tests, for closed examples.
\<close>

text \<open>
  Offline-ready: no transfer is under way, the index agrees with the counter and the counter can
  still move.
\<close>

definition offline_ready :: "('c \<Rightarrow> u32) \<Rightarrow> 'c appliance \<Rightarrow> bool" where
  "offline_ready live a \<longleftrightarrow>
     act_status (active a) = Ready \<and> act_record (active a) = REmpty \<and>
     unat (h0 a) = unat (live (tropic a)) + unat (act_u (active a)) \<and> live (tropic a) \<noteq> 0"

text \<open>The transition advances the active root from the active index to the next.\<close>

definition advances :: "transition \<Rightarrow> 'c appliance \<Rightarrow> bool" where
  "advances t a \<longleftrightarrow>
     prev_root t = act_root (active a) \<and> anchor_counter t = act_u (active a) \<and>
     unat (next_anchor_counter t) = unat (anchor_counter t) + 1"

locale reliable_appliance = appliance_chip P live + reliable_chip "pf_tropic P" live
  for P :: "'c platform" and live :: "'c \<Rightarrow> u32" +
  assumes scheme: "witness_scheme (pf_sig P)"
begin

lemma live_index_answers:
  assumes "unat (h0 a) = unat (live (tropic a)) + unat u"
  shows "\<exists>ch. live_index P a = (Inr u, a\<lparr>tropic := ch\<rparr>) \<and> live ch = live (tropic a)"
proof -
  obtain ch where cg: "counter_get (pf_tropic P) (tropic a) = (Inr (live (tropic a)), ch)"
    using get_answers [of "tropic a"] by (metis prod.collapse)
  moreover obtain v where "checked_sub (h0 a) (live (tropic a)) = Some v" "ucast v = u"
    using u32_index_iff [of "h0 a" "live (tropic a)" u] assms by blast
  ultimately show ?thesis
    using get_frame [of "tropic a"] by (intro exI [of _ ch]) (simp add: live_index_def)
qed

lemma prepare_succeeds:
  assumes ready: "offline_ready live a" and adv: "advances t a" and fits: "pf_debug P \<longrightarrow> enc_fits t"
  shows "\<exists>w ch. prepare P t rc a = (Done (), a\<lparr>tropic := ch, active := (active a)
      \<lparr>act_status := Prepared, act_record := RPrepared (prepared_for P a t rc w)\<rparr>\<rparr>) \<and>
      live ch = live (tropic a)"
proof -
  obtain ch where li: "live_index P a = (Inr (act_u (active a)), a\<lparr>tropic := ch\<rparr>)"
      "live ch = live (tropic a)"
    using live_index_answers [of a "act_u (active a)"] ready by (auto simp: offline_ready_def)
  have plus: "plus_u64 (pf_debug P) (anchor_counter t) 1 = Some (next_anchor_counter t)"
    using adv by (intro plus_u64_succ) (simp add: advances_def)
  let ?x = "witness_input (pf_blake3 P) t (transition_digest (pf_blake3 P) t) (anchor_id a) (slot a) rc"
  obtain w ch' where mac: "mac_and_destroy (pf_tropic P) (slot a) ?x ch = (Inr w, ch')"
    using macd_answers [of "slot a" ?x ch] by (metis prod.collapse)
  have "prepare P t rc a = (Done (), a\<lparr>tropic := ch', active := (active a)
      \<lparr>act_status := Prepared, act_record := RPrepared (prepared_for P a t rc w)\<rparr>\<rparr>)"
    using ready adv fits li plus mac
    by (auto simp: prepare_def offline_ready_def advances_def prepared_for_def Let_def
        split: prod.split)
  moreover have "live ch' = live (tropic a)"
    using macd_frame [of "slot a" ?x ch] mac li(2) by simp
  ultimately show ?thesis by blast
qed

lemma commit_succeeds:
  assumes rec: "act_record (active a) = RPrepared (prepared_for P a0 t rc w)"
    and root: "prev_root t = act_root (active a)"
    and index: "unat (h0 a) = unat (live (tropic a)) + unat (anchor_counter t)"
    and room: "live (tropic a) \<noteq> 0"
  shows "\<exists>sigma hv ch. commit P a = (Done (), mark_committed (next_anchor_counter t)
      (store_candidate (candidate a (prepared_for P a0 t rc w) sigma hv) ch a)) \<and>
      Suc (unat (live ch)) = unat (live (tropic a))"
proof -
  let ?p = "prepared_for P a0 t rc w"
  have txn: "p_txn ?p = t" by (simp add: prepared_for_def Let_def)
  obtain seed where sk: "p_sk_hw ?p = fst (ws_keygen (pf_sig P) seed)"
    by (simp add: prepared_for_def Let_def)
  obtain sigma where sig: "ws_sign (pf_sig P) (p_sk_hw ?p) (p_cert_message ?p) = Some sigma"
    using witness_scheme.sign_total [OF scheme] sk by metis
  obtain ch where cg: "counter_get (pf_tropic P) (tropic a) = (Inr (live (tropic a)), ch)"
    using get_answers [of "tropic a"] by (metis prod.collapse)
  have "p_sk_hw ?p \<noteq> []" using witness_scheme.keygen_sk [OF scheme] sk by simp
  then have ready: "commit_ready P a ?p (live (tropic a)) ch sigma"
    using rec root index room sig cg by (simp add: commit_ready_def txn)
  then have live: "live ch = live (tropic a)" by (rule commit_ready_live)
  obtain ch' where upd: "counter_update (pf_tropic P) ch = (Inr (), ch')"
    using update_answers [of ch] room live by (metis prod.collapse)
  have "commit P a = (Done (), mark_committed (next_anchor_counter t)
      (store_candidate (candidate a ?p sigma (live (tropic a))) ch' a))"
    using commit_of_ready [OF ready upd] by (simp add: txn)
  then show ?thesis using update_step [OF upd] live by auto
qed

lemma finalize_succeeds:
  assumes "act_record (active a) = RCommitted c" and "cr_committed c"
    and "unat (h0 a) = unat (live (tropic a)) + unat (act_u (active a))"
  shows "\<exists>ch. finalize P a = (Inr (cr_next_root c),
      a\<lparr>tropic := ch, active := \<lparr> act_root = cr_next_root c, act_u = act_u (active a),
                                act_status = Ready, act_record = REmpty \<rparr>\<rparr>) \<and>
      live ch = live (tropic a)"
proof -
  obtain ch where "live_index P a = (Inr (act_u (active a)), a\<lparr>tropic := ch\<rparr>)"
      "live ch = live (tropic a)"
    using live_index_answers [OF assms(3)] by blast
  with assms(1,2) show ?thesis by (auto simp: finalize_def)
qed

lemma root_advance:
  assumes ready: "offline_ready live a" and adv: "advances t a" and fits: "pf_debug P \<longrightarrow> enc_fits t"
  shows
  "\<exists>a1 a2 rel a3.
    prepare P t rc a = (Done (), a1) \<and> commit P a1 = (Done (), a2) \<and> emit a2 = Inr rel \<and>
    rel_transition rel = t \<and> c_receiver_challenge (rel_cert rel) = rc \<and>
    finalize P a2 = (Inr (next_root t), a3) \<and>
    act_root (active a3) = next_root t \<and> act_u (active a3) = next_anchor_counter t \<and>
    live (tropic a3) = live (tropic a2) \<and>
    Suc (unat (live (tropic a3))) = unat (live (tropic a)) \<and>
    (live (tropic a3) \<noteq> 0 \<longrightarrow> offline_ready live a3)"
proof -
  obtain w ch where p: "prepare P t rc a = (Done (), a\<lparr>tropic := ch, active := (active a)
      \<lparr>act_status := Prepared, act_record := RPrepared (prepared_for P a t rc w)\<rparr>\<rparr>)"
      "live ch = live (tropic a)"
    using prepare_succeeds [OF ready adv fits] by blast
  define a1 where "a1 = a\<lparr>tropic := ch, active := (active a)
      \<lparr>act_status := Prepared, act_record := RPrepared (prepared_for P a t rc w)\<rparr>\<rparr>"
  have index: "unat (h0 a1) = unat (live (tropic a1)) + unat (anchor_counter t)"
    using ready adv p(2) by (simp add: a1_def offline_ready_def advances_def)
  obtain sigma hv ch2 where c: "commit P a1 = (Done (), mark_committed (next_anchor_counter t)
      (store_candidate (candidate a1 (prepared_for P a t rc w) sigma hv) ch2 a1))"
      "Suc (unat (live ch2)) = unat (live (tropic a1))"
    using commit_succeeds [of a1 a t rc w] index ready adv p(2)
    by (auto simp: a1_def offline_ready_def advances_def)
  define a2 where "a2 = mark_committed (next_anchor_counter t)
      (store_candidate (candidate a1 (prepared_for P a t rc w) sigma hv) ch2 a1)"
  have txn: "p_txn (prepared_for P a t rc w) = t"
    and chal: "p_receiver_challenge (prepared_for P a t rc w) = rc"
    by (simp_all add: prepared_for_def Let_def)
  have "unat (h0 a2) = unat (live (tropic a2)) + unat (act_u (active a2))"
    using index c(2) adv by (simp add: a2_def advances_def)
  then obtain ch3 where f: "finalize P a2 = (Inr (next_root t),
      a2\<lparr>tropic := ch3, active := \<lparr> act_root = next_root t, act_u = act_u (active a2),
                                 act_status = Ready, act_record = REmpty \<rparr>\<rparr>)"
      "live ch3 = live (tropic a2)"
    using finalize_succeeds [of a2] by (auto simp: a2_def txn)
  have "emit a2 = Inr (commit_release a1 (prepared_for P a t rc w) sigma hv)"
    by (simp add: emit_Inr_iff a2_def)
  then show ?thesis
    using p c f index adv
    by (intro exI [of _ a1] exI [of _ a2] exI)
      (auto simp: a1_def [symmetric] a2_def [symmetric] commit_release_def txn chal,
       auto simp: a2_def a1_def offline_ready_def advances_def)
qed

end

interpretation mock_rel: reliable_appliance "mock_platform dbg B" mock_h for dbg B
  by (simp add: reliable_appliance_def mock_app.appliance_chip_axioms mock.reliable_chip_axioms
      reliable_appliance_axioms_def wots.witness_scheme_axioms)

section \<open>A closed example\<close>

text \<open>The appliance, transition and challenge of \<open>tests/integration.rs\<close>.\<close>

definition test_appliance :: "u32 \<Rightarrow> mock_tropic appliance" where
  "test_appliance hv =
     appliance_new \<lparr> mock_h = hv, mock_secret = fill32 0xC0 \<rparr> 100 (fill32 0x11) (fill32 0xAA) 1"

definition test_transition :: "bytes32 \<Rightarrow> bytes32 \<Rightarrow> u64 \<Rightarrow> transition" where
  "test_transition prev nxt u =
     \<lparr> relationship_id = fill32 1, object_id = fill32 2, sender_device_id = fill32 3,
       recipient_device_id = fill32 0x44, prev_root = prev, next_root = nxt,
       anchor_counter = u, next_anchor_counter = u + 1, action_type = 0,
       action_fields = [9, 9, 9], payload_hash = fill32 6,
       old_leaf_proof = replicate 40 0xAB, new_leaf_proof = replicate 40 0xCD,
       authority_policy_hash = fill32 0x33 \<rparr>"

abbreviation test_platform :: "mock_tropic platform" where
  "test_platform \<equiv> mock_platform True sample_blake3"

abbreviation test_step0 :: transition where
  "test_step0 \<equiv> test_transition (fill32 0x11) (fill32 0x22) 0"

lemma test_appliance_ready: "offline_ready mock_h (test_appliance 100)"
  by (simp add: offline_ready_def test_appliance_def appliance_new_def)

lemma test_transition_fits: "enc_fits (test_transition prev nxt u)"
  by (simp add: enc_fits_def field_fits_def test_transition_def)

lemma test_step0_advances: "advances test_step0 (test_appliance hv)"
  by (simp add: advances_def test_transition_def test_appliance_def appliance_new_def)

text \<open>
  C22: one root advance succeeds. On a chip that answers and with a correct signature scheme, an
  offline-ready appliance completes prepare, commit, emit and finalize for any transition that
  advances its root by one index. It ends at the successor root and index, its counter one step
  further, offline-ready again unless the counter is now exhausted.
\<close>

theorem root_advance_completes:
  assumes ra: "reliable_appliance P live" and ready: "offline_ready live a"
    and adv: "advances t a" and fits: "pf_debug P \<longrightarrow> enc_fits t"
  shows
  "\<exists>a1 a2 rel a3.
    prepare P t rc a = (Done (), a1) \<and> commit P a1 = (Done (), a2) \<and> emit a2 = Inr rel \<and>
    rel_transition rel = t \<and> c_receiver_challenge (rel_cert rel) = rc \<and>
    finalize P a2 = (Inr (next_root t), a3) \<and>
    act_root (active a3) = next_root t \<and> act_u (active a3) = next_anchor_counter t \<and>
    live (tropic a3) = live (tropic a2) \<and>
    Suc (unat (live (tropic a3))) = unat (live (tropic a)) \<and>
    (live (tropic a3) \<noteq> 0 \<longrightarrow> offline_ready live a3)"
  by (rule reliable_appliance.root_advance [OF ra ready adv fits])

theorem root_advance_completes_witness:
  "\<exists>a1 a2 rel a3.
    prepare test_platform test_step0 (fill32 0x55) (test_appliance 100) = (Done (), a1) \<and>
    commit test_platform a1 = (Done (), a2) \<and> emit a2 = Inr rel \<and>
    finalize test_platform a2 = (Inr (fill32 0x22), a3) \<and> act_u (active a3) = 1"
  using root_advance_completes [OF mock_rel.reliable_appliance_axioms test_appliance_ready
      test_step0_advances, of True sample_blake3 "fill32 0x55"]
  by (auto simp: test_transition_fits) (auto simp: test_transition_def)

end
