(* ===== verification/Accept.thy ===== *)
theory Accept
  imports Root_Advance Tropic
begin

text \<open>
  \<open>anchor-core/src/accept.rs\<close>: the receiver's acceptance predicate. The DSM state and the
  authenticated counter read are traits that the receiver supplies, records of functions here.
  The lemmas compare \<open>accept_offline\<close> with the list of its checks and with the arithmetic and
  cryptographic conditions they stand for.
\<close>

section \<open>What the receiver supplies\<close>

record dsm_verifier =
  root_commits_counter :: "bytes32 \<Rightarrow> u64 \<Rightarrow> bool"
  verify_transition :: "transition \<Rightarrow> bool"
  delivers_to_receiver :: "transition \<Rightarrow> bool"

record counter_verifier =
  read_authentic_counter :: "bytes32 \<Rightarrow> counter_evidence \<Rightarrow> u64 option"

record verifier_context =
  accepted_prev_root :: bytes32
  pinned_anchor_id :: bytes32
  expected_receiver_challenge :: bytes32
  expected_policy_hash :: bytes32
  enrolled_counter :: u64
  exposure_cap_index :: u64
  anchor_uncompromised :: bool

datatype accept_error =
    NonCanonical
  | PrevRootNotAccepted
  | AnchorCounterUncommitted
  | BadNextIndex
  | ChallengeMismatch
  | DigestMismatch
  | TransitionProofInvalid
  | NotDeliveredToReceiver
  | PolicyMismatch
  | WitnessInputMismatch
  | PkHashMismatch
  | WitnessSigInvalid
  | CounterEvidenceInvalid
  | ExposureCapExceeded
  | AnchorCompromised

section \<open>The predicate\<close>

text \<open>
  \<open>dbg\<close> says whether the length assertions of the encoder are compiled in; with them, digesting a
  package with an oversized field panics.
\<close>

definition accept_offline ::
    "bool \<Rightarrow> blake3 \<Rightarrow> witness_sig \<Rightarrow> dsm_verifier \<Rightarrow> counter_verifier \<Rightarrow>
     offline_release \<Rightarrow> verifier_context \<Rightarrow> (accept_error, unit) outcome" where
  "accept_offline dbg B S D C rel ctx =
     (let t = as_transition (rel_transition rel);
          cert = rel_cert rel;
          ev = rel_counter rel
      in if \<not> ct_eq_32 (c_prev_root cert) (prev_root t)
            \<or> \<not> ct_eq_32 (c_next_root cert) (next_root t)
            \<or> c_anchor_counter cert \<noteq> anchor_counter t
            \<or> c_next_anchor_counter cert \<noteq> next_anchor_counter t
         then Fail NonCanonical
      else if \<not> ct_eq_32 (prev_root t) (accepted_prev_root ctx)
            \<or> \<not> ct_eq_32 (c_anchor_id cert) (pinned_anchor_id ctx)
         then Fail PrevRootNotAccepted
      else if \<not> root_commits_counter D (prev_root t) (anchor_counter t)
         then Fail AnchorCounterUncommitted
      else if checked_add (anchor_counter t) 1 \<noteq> Some (next_anchor_counter t)
         then Fail BadNextIndex
      else if \<not> ct_eq_32 (c_receiver_challenge cert) (expected_receiver_challenge ctx)
         then Fail ChallengeMismatch
      else if dbg \<and> \<not> enc_fits t then Panic
      else
        let d = transition_digest B t
        in if \<not> ct_eq_32 d (c_transition_digest cert) then Fail DigestMismatch
      else if \<not> verify_transition D t then Fail TransitionProofInvalid
      else if \<not> delivers_to_receiver D t then Fail NotDeliveredToReceiver
      else if \<not> ct_eq_32 (authority_policy_hash t) (expected_policy_hash ctx)
         then Fail PolicyMismatch
      else
        let x = witness_input B t d (c_anchor_id cert) (c_slot cert) (c_receiver_challenge cert)
        in if \<not> ct_eq_32 x (c_witness_input cert) then Fail WitnessInputMismatch
      else
        let p_hw = pk_hash B (c_pk_hw cert)
        in if \<not> ct_eq_32 p_hw (c_pk_hash cert) then Fail PkHashMismatch
      else
        let m = cert_message B t d x p_hw (c_anchor_id cert) (c_slot cert)
                  (c_receiver_challenge cert)
        in if \<not> ws_verify S (c_pk_hw cert) m (c_sigma cert) then Fail WitnessSigInvalid
      else (case checked_sub (enrolled_counter ctx) (next_anchor_counter t) of
          None \<Rightarrow> Fail CounterEvidenceInvalid
        | Some expects_live \<Rightarrow>
          (case read_authentic_counter C (pinned_anchor_id ctx) ev of
             None \<Rightarrow> Fail CounterEvidenceInvalid
           | Some attested \<Rightarrow>
             if \<not> ct_eq_32 (ev_anchor_id ev) (pinned_anchor_id ctx) \<or> attested \<noteq> expects_live
                then Fail CounterEvidenceInvalid
             else if next_anchor_counter t > exposure_cap_index ctx then Fail ExposureCapExceeded
             else if \<not> anchor_uncompromised ctx then Fail AnchorCompromised
             else Done ())))"

section \<open>The checks as a list\<close>

text \<open>The message the signature of a release has to cover.\<close>

definition release_message :: "blake3 \<Rightarrow> offline_release \<Rightarrow> bytes32" where
  "release_message B rel =
     (let t = rel_transition rel; cert = rel_cert rel; d = transition_digest B t;
          x = witness_input B t d (c_anchor_id cert) (c_slot cert) (c_receiver_challenge cert)
      in cert_message B t d x (pk_hash B (c_pk_hw cert)) (c_anchor_id cert) (c_slot cert)
           (c_receiver_challenge cert))"

definition release_message_input :: "blake3 \<Rightarrow> offline_release \<Rightarrow> byte list" where
  "release_message_input B rel =
     (let t = rel_transition rel; cert = rel_cert rel; d = transition_digest B t;
          x = witness_input B t d (c_anchor_id cert) (c_slot cert) (c_receiver_challenge cert)
      in hasher_input CERT_MESSAGE_V1
           (cert_message_fields t d x (pk_hash B (c_pk_hw cert)) (c_anchor_id cert) (c_slot cert)
              (c_receiver_challenge cert)))"

lemma release_message_eq: "release_message B rel = b3_hash B (release_message_input B rel)"
  by (simp add: release_message_def release_message_input_def cert_message_def hash_h_def Let_def)

text \<open>
  The specification of the predicate: the conditions of the checks, in their order, each with the
  error it reports, in terms of natural numbers and the mathematical equality.
\<close>

definition acceptance_checks ::
    "blake3 \<Rightarrow> witness_sig \<Rightarrow> dsm_verifier \<Rightarrow> counter_verifier \<Rightarrow> offline_release \<Rightarrow>
     verifier_context \<Rightarrow> (bool \<times> accept_error) list" where
  "acceptance_checks B S D C rel ctx =
     (let t = rel_transition rel; cert = rel_cert rel; ev = rel_counter rel;
          d = transition_digest B t
      in [(c_prev_root cert = prev_root t \<and> c_next_root cert = next_root t \<and>
           c_anchor_counter cert = anchor_counter t \<and>
           c_next_anchor_counter cert = next_anchor_counter t, NonCanonical),
          (prev_root t = accepted_prev_root ctx \<and> c_anchor_id cert = pinned_anchor_id ctx,
           PrevRootNotAccepted),
          (root_commits_counter D (prev_root t) (anchor_counter t), AnchorCounterUncommitted),
          (unat (next_anchor_counter t) = unat (anchor_counter t) + 1, BadNextIndex),
          (c_receiver_challenge cert = expected_receiver_challenge ctx, ChallengeMismatch),
          (d = c_transition_digest cert, DigestMismatch),
          (verify_transition D t, TransitionProofInvalid),
          (delivers_to_receiver D t, NotDeliveredToReceiver),
          (authority_policy_hash t = expected_policy_hash ctx, PolicyMismatch),
          (witness_input B t d (c_anchor_id cert) (c_slot cert) (c_receiver_challenge cert)
             = c_witness_input cert, WitnessInputMismatch),
          (pk_hash B (c_pk_hw cert) = c_pk_hash cert, PkHashMismatch),
          (ws_verify S (c_pk_hw cert) (release_message B rel) (c_sigma cert), WitnessSigInvalid),
          ((\<exists>H. read_authentic_counter C (pinned_anchor_id ctx) ev = Some H \<and>
                unat (enrolled_counter ctx) = unat H + unat (next_anchor_counter t)) \<and>
           ev_anchor_id ev = pinned_anchor_id ctx, CounterEvidenceInvalid),
          (unat (next_anchor_counter t) \<le> unat (exposure_cap_index ctx), ExposureCapExceeded),
          (anchor_uncompromised ctx, AnchorCompromised)])"

fun first_failure :: "(bool \<times> 'e) list \<Rightarrow> ('e, unit) outcome" where
  "first_failure [] = Done ()"
| "first_failure ((ok, e) # cs) = (if ok then first_failure cs else Fail e)"

lemma first_failure_Done_iff: "first_failure cs = Done () \<longleftrightarrow> list_all fst cs"
  by (induction cs rule: first_failure.induct) simp_all

lemma counter_evidence_iff:
  "(case checked_sub h0v nxt of None \<Rightarrow> Fail E
    | Some expects \<Rightarrow> (case r of None \<Rightarrow> Fail E
        | Some H \<Rightarrow> if \<not> same \<or> H \<noteq> expects then Fail E else rest)) =
   (if (\<exists>H. r = Some H \<and> unat h0v = unat H + unat (nxt :: 'a::len word)) \<and> same then rest else Fail E)"
  by (auto simp: checked_sub_Some_iff checked_sub_None_iff add.commute word_unat_eq_iff
      split: option.split)

lemma if_not_swap: "(if \<not> P then x else y) = (if P then y else x)"
  by simp

lemma accept_offline_first_failure:
  assumes "dbg \<longrightarrow> enc_fits (rel_transition rel)"
  shows "accept_offline dbg B S D C rel ctx = first_failure (acceptance_checks B S D C rel ctx)"
proof -
  have no_panic: "(dbg \<and> \<not> enc_fits (rel_transition rel)) = False" using assms by blast
  have cap: "(if exposure_cap_index ctx < n then Fail ExposureCapExceeded else r)
      = (if unat n \<le> unat (exposure_cap_index ctx) then r else Fail ExposureCapExceeded)" for n r
    by (simp add: word_less_nat_alt)
  show ?thesis
    unfolding accept_offline_def acceptance_checks_def Let_def counter_evidence_iff
      release_message_def
    by (simp only: cap checked_add_Some_iff ct_eq_32_iff as_transition_id first_failure.simps
        de_Morgan_conj [symmetric] if_not_swap no_panic if_False unsigned_1)
qed

lemma accept_offline_Done_iff:
  "accept_offline dbg B S D C rel ctx = Done () \<longleftrightarrow>
     (dbg \<longrightarrow> enc_fits (rel_transition rel)) \<and> list_all fst (acceptance_checks B S D C rel ctx)"
proof (cases "dbg \<longrightarrow> enc_fits (rel_transition rel)")
  case True
  then show ?thesis by (simp add: accept_offline_first_failure first_failure_Done_iff)
next
  case False
  then show ?thesis by (simp add: accept_offline_def Let_def)
qed

end
