(* ===== verification/Acceptance.thy ===== *)
theory Acceptance
  imports Lifecycle Accept
begin

text \<open>
  The appliance and the receiver together: the release that \<open>prepare\<close> and \<open>commit\<close> produce is the
  one \<open>accept_offline\<close> accepts, what an accepted release pins down, and what the predicate does
  not look at.
\<close>

section \<open>Acceptance of a well-formed release\<close>

text \<open>The receiver's side of an honest transfer: its context and its verifiers agree with the package.\<close>

definition receiver_expects ::
    "dsm_verifier \<Rightarrow> counter_verifier \<Rightarrow> verifier_context \<Rightarrow> offline_release \<Rightarrow> bool" where
  "receiver_expects D C ctx rel \<longleftrightarrow>
     (let t = rel_transition rel in
      accepted_prev_root ctx = prev_root t \<and>
      expected_receiver_challenge ctx = c_receiver_challenge (rel_cert rel) \<and>
      expected_policy_hash ctx = authority_policy_hash t \<and>
      pinned_anchor_id ctx = c_anchor_id (rel_cert rel) \<and>
      pinned_anchor_id ctx = ev_anchor_id (rel_counter rel) \<and>
      next_anchor_counter t \<le> exposure_cap_index ctx \<and> anchor_uncompromised ctx \<and>
      root_commits_counter D (prev_root t) (anchor_counter t) \<and>
      verify_transition D t \<and> delivers_to_receiver D t \<and>
      (\<exists>H. read_authentic_counter C (pinned_anchor_id ctx) (rel_counter rel) = Some H \<and>
           unat (enrolled_counter ctx) = unat H + unat (next_anchor_counter t)))"

lemma assembled_release_accepted:
  assumes scheme: "witness_scheme (pf_sig P)"
    and sign: "ws_sign (pf_sig P) (p_sk_hw (prepared_for P a t rc w))
                 (p_cert_message (prepared_for P a t rc w)) = Some sigma"
    and fits: "pf_debug P \<longrightarrow> enc_fits t"
    and succ: "unat (next_anchor_counter t) = unat (anchor_counter t) + 1"
    and rel: "rel = (commit_release a (prepared_for P a t rc w) sigma hv)\<lparr>rel_counter := ev\<rparr>"
    and expects: "receiver_expects D C ctx rel"
  shows "accept_offline (pf_debug P) (pf_blake3 P) (pf_sig P) D C rel ctx = Done ()"
proof -
  let ?p = "prepared_for P a t rc w"
  let ?B = "pf_blake3 P"
  let ?keys = "ws_keygen (pf_sig P)
    (witness_key_material ?B w (p_witness_input ?p) t (anchor_id a) (slot a))"
  have keys: "p_sk_hw ?p = fst ?keys" "p_pk_hw ?p = snd ?keys"
    by (simp_all add: prepared_for_def Let_def)
  have msg: "release_message ?B rel = p_cert_message ?p"
    by (simp add: rel release_message_def commit_release_def prepared_for_def Let_def)
  have "ws_verify (pf_sig P) (p_pk_hw ?p) (release_message ?B rel) sigma"
    using witness_scheme.sign_verify [OF scheme] sign unfolding keys msg by blast
  then have "list_all fst (acceptance_checks ?B (pf_sig P) D C rel ctx)"
    using succ expects
    by (auto simp: rel acceptance_checks_def receiver_expects_def Let_def commit_release_def
        prepared_for_def word_le_nat_alt)
  moreover have "rel_transition rel = t"
    by (simp add: rel commit_release_def prepared_for_def Let_def)
  ultimately show ?thesis using fits by (simp add: accept_offline_Done_iff)
qed

context appliance_chip
begin

text \<open>Prepare and commit in sequence, as one fact about the stored release.\<close>

lemma prepare_commit_release:
  assumes prep: "prepare P t rc a = (Done (), a1)" and com: "commit P a1 = (Done (), a2)"
  obtains w sigma hv where "emit a2 = Inr (commit_release a (prepared_for P a t rc w) sigma hv)"
    and "ws_sign (pf_sig P) (p_sk_hw (prepared_for P a t rc w))
           (p_cert_message (prepared_for P a t rc w)) = Some sigma"
    and "pf_debug P \<longrightarrow> enc_fits t" and "prev_root t = act_root (active a)"
    and "unat (next_anchor_counter t) = unat (anchor_counter t) + 1"
    and "unat (h0 a) = unat (live (tropic a2)) + unat (next_anchor_counter t)"
    and "hv = live (tropic a)"
proof -
  from prep obtain ch w ch' where
    a1: "a1 = a\<lparr>tropic := ch', active := (active a)
         \<lparr>act_status := Prepared, act_record := RPrepared (prepared_for P a t rc w)\<rparr>\<rparr>"
    and pr: "prev_root t = act_root (active a)" and fits: "pf_debug P \<longrightarrow> enc_fits t"
    and succ: "unat (next_anchor_counter t) = unat (anchor_counter t) + 1"
    by (rule prepare_DoneE)
  from com obtain p hv chc sigma ch2 u where
    r: "commit_ready P a1 p hv chc sigma" "counter_update (pf_tropic P) chc = (Inr u, ch2)"
      "a2 = mark_committed (next_anchor_counter (p_txn p))
             (store_candidate (candidate a1 p sigma hv) ch2 a1)"
    by (rule commit_DoneE)
  have p: "p = prepared_for P a t rc w"
    using r(1) by (simp add: commit_ready_def a1)
  have txn: "p_txn p = t" by (simp add: p prepared_for_def Let_def)
  have "emit a2 = Inr (commit_release a1 p sigma hv)"
    by (simp add: emit_Inr_iff r(3))
  moreover have "commit_release a1 p sigma hv = commit_release a p sigma hv"
    by (simp add: commit_release_def a1)
  moreover have "unat (h0 a) = unat (live (tropic a2)) + unat (next_anchor_counter t)"
    using commit_ready_live [OF r(1)] update_step [OF r(2)] succ
    by (simp add: r(3) chip_index_def a1 txn)
  moreover have "hv = live (tropic a)"
    using commit_ready_live(2) [OF r(1)] prepare_live [of t rc a] prep by simp
  ultimately show ?thesis
    using r(1) fits pr succ unfolding p by (intro that) (auto simp: commit_ready_def)
qed

end

lemma honest_transfer:
  assumes chip: "appliance_chip P live" and scheme: "witness_scheme (pf_sig P)"
    and prep: "prepare P t rc a = (Done (), a1)" and com: "commit P a1 = (Done (), a2)"
    and ctx: "accepted_prev_root ctx = act_root (active a)" "pinned_anchor_id ctx = anchor_id a"
      "expected_receiver_challenge ctx = rc" "expected_policy_hash ctx = authority_policy_hash t"
      "enrolled_counter ctx = ucast (h0 a)" "next_anchor_counter t \<le> exposure_cap_index ctx"
      "anchor_uncompromised ctx"
    and dsm: "root_commits_counter D (act_root (active a)) (anchor_counter t)"
      "verify_transition D t" "delivers_to_receiver D t"
    and read: "ev_anchor_id ev = anchor_id a"
      "read_authentic_counter C (anchor_id a) ev = Some (ucast (live (tropic a2)))"
  shows "\<exists>rel. emit a2 = Inr rel \<and> rel_transition rel = t \<and>
    accept_offline (pf_debug P) (pf_blake3 P) (pf_sig P) D C (rel\<lparr>rel_counter := ev\<rparr>) ctx = Done ()"
proof -
  obtain w sigma hv where r:
    "emit a2 = Inr (commit_release a (prepared_for P a t rc w) sigma hv)"
    "ws_sign (pf_sig P) (p_sk_hw (prepared_for P a t rc w))
       (p_cert_message (prepared_for P a t rc w)) = Some sigma"
    "pf_debug P \<longrightarrow> enc_fits t" "prev_root t = act_root (active a)"
    "unat (next_anchor_counter t) = unat (anchor_counter t) + 1"
    "unat (h0 a) = unat (live (tropic a2)) + unat (next_anchor_counter t)"
    by (rule appliance_chip.prepare_commit_release [OF chip prep com])
  let ?rel = "commit_release a (prepared_for P a t rc w) sigma hv"
  have f: "rel_transition ?rel = t" "c_anchor_id (rel_cert ?rel) = anchor_id a"
    "c_receiver_challenge (rel_cert ?rel) = rc"
    by (simp_all add: commit_release_def prepared_for_def Let_def)
  then have "receiver_expects D C ctx (?rel\<lparr>rel_counter := ev\<rparr>)"
    using ctx dsm read r(4,6) by (simp add: receiver_expects_def)
  with r f(1) show ?thesis
    using assembled_release_accepted [OF scheme r(2,3,5)] by blast
qed

text \<open>
  C6: end to end. Over any chip that keeps its contract and any correct signature scheme, when
  \<open>prepare\<close> and \<open>commit\<close> succeed in turn, \<open>emit\<close> returns a release for exactly the requested
  transition, and the receiver accepts it: a receiver that accepts the parent root, pinned this
  anchor and its enrolled counter, supplied this challenge, whose DSM checks pass, and whose own
  authenticated read, over the counter evidence it attached, returns the value the chip now has.
\<close>

theorem honest_transfer_accepted:
  assumes chip: "appliance_chip P live" and scheme: "witness_scheme (pf_sig P)"
    and prep: "prepare P t rc a = (Done (), a1)" and com: "commit P a1 = (Done (), a2)"
    and ctx: "accepted_prev_root ctx = act_root (active a)" "pinned_anchor_id ctx = anchor_id a"
      "expected_receiver_challenge ctx = rc" "expected_policy_hash ctx = authority_policy_hash t"
      "enrolled_counter ctx = ucast (h0 a)" "next_anchor_counter t \<le> exposure_cap_index ctx"
      "anchor_uncompromised ctx"
    and dsm: "root_commits_counter D (act_root (active a)) (anchor_counter t)"
      "verify_transition D t" "delivers_to_receiver D t"
    and read: "ev_anchor_id ev = anchor_id a"
      "read_authentic_counter C (anchor_id a) ev = Some (ucast (live (tropic a2)))"
  shows "\<exists>rel. emit a2 = Inr rel \<and> rel_transition rel = t \<and>
    accept_offline (pf_debug P) (pf_blake3 P) (pf_sig P) D C (rel\<lparr>rel_counter := ev\<rparr>) ctx = Done ()"
  using assms by (rule honest_transfer)

text \<open>The receiver of the host tests.\<close>

definition ok_dsm :: dsm_verifier where
  "ok_dsm = \<lparr> root_commits_counter = (\<lambda>_ _. True), verify_transition = (\<lambda>_. True),
              delivers_to_receiver = (\<lambda>_. True) \<rparr>"

definition ok_counter :: counter_verifier where
  "ok_counter = \<lparr> read_authentic_counter = (\<lambda>_ ev. Some (ev_live_counter_claim ev)) \<rparr>"

definition test_ctx :: verifier_context where
  "test_ctx = \<lparr> accepted_prev_root = fill32 0x11, pinned_anchor_id = fill32 0xAA,
     expected_receiver_challenge = fill32 0x55, expected_policy_hash = fill32 0x33,
     enrolled_counter = 100, exposure_cap_index = 1000, anchor_uncompromised = True \<rparr>"

definition test_evidence :: "u64 \<Rightarrow> counter_evidence" where
  "test_evidence claim = \<lparr> ev_anchor_id = fill32 0xAA, ev_enrolled_counter = 100,
     ev_live_counter_claim = claim, ev_derived_index_claim = 100 - claim,
     ev_verifier_transcript = [] \<rparr>"

lemma test_run:
  obtains a1 a2 where
    "prepare test_platform test_step0 (fill32 0x55) (test_appliance 100) = (Done (), a1)"
    and "commit test_platform a1 = (Done (), a2)" and "mock_h (tropic a2) = 99"
proof -
  obtain a1 a2 where r:
    "prepare test_platform test_step0 (fill32 0x55) (test_appliance 100) = (Done (), a1)"
    "commit test_platform a1 = (Done (), a2)"
    "Suc (unat (mock_h (tropic a2))) = unat (mock_h (tropic (test_appliance 100)))"
    using mock_rel.root_advance [OF test_appliance_ready test_step0_advances,
        where dbg = True and B = sample_blake3 and rc = "fill32 0x55"] test_transition_fits
    by metis
  from r(3) have "unat (mock_h (tropic a2)) = unat (99 :: u32)"
    by (simp add: test_appliance_def appliance_new_def)
  with r show ?thesis by (intro that) (simp_all only: word_unat_eq_iff)
qed

lemma test_accepted:
  obtains w sigma hv ev rel where
    "rel = (commit_release (test_appliance 100)
       (prepared_for test_platform (test_appliance 100) test_step0 (fill32 0x55) w) sigma hv)\<lparr>rel_counter := ev\<rparr>"
    and "accept_offline True sample_blake3 (wots_blake3 sample_blake3) ok_dsm ok_counter rel test_ctx = Done ()"
    and "rel_transition rel = test_step0"
proof -
  let ?a = "test_appliance 100"
  obtain a1 a2 where r: "prepare test_platform test_step0 (fill32 0x55) ?a = (Done (), a1)"
    "commit test_platform a1 = (Done (), a2)" "mock_h (tropic a2) = 99"
    by (rule test_run)
  obtain w sigma where s:
    "ws_sign (pf_sig test_platform) (p_sk_hw (prepared_for test_platform ?a test_step0 (fill32 0x55) w))
       (p_cert_message (prepared_for test_platform ?a test_step0 (fill32 0x55) w)) = Some sigma"
    using mock_app.prepare_commit_release [OF r(1,2)] by metis
  let ?rel = "(commit_release ?a (prepared_for test_platform ?a test_step0 (fill32 0x55) w) sigma 100)
    \<lparr>rel_counter := test_evidence 99\<rparr>"
  have "receiver_expects ok_dsm ok_counter test_ctx ?rel"
    by (simp add: receiver_expects_def commit_release_def prepared_for_def Let_def test_ctx_def
        ok_dsm_def ok_counter_def test_evidence_def test_appliance_def appliance_new_def
        test_transition_def)
  from assembled_release_accepted [OF _ s _ _ refl this]
  have "accept_offline True sample_blake3 (wots_blake3 sample_blake3) ok_dsm ok_counter ?rel test_ctx = Done ()"
    by (simp add: wots.witness_scheme_axioms test_transition_fits) (simp add: test_transition_def)
  then show ?thesis
    by (intro that [OF refl]) (simp_all add: commit_release_def prepared_for_def Let_def)
qed

theorem honest_transfer_accepted_witness:
  "\<exists>a1 a2 rel.
     prepare test_platform test_step0 (fill32 0x55) (test_appliance 100) = (Done (), a1) \<and>
     commit test_platform a1 = (Done (), a2) \<and> emit a2 = Inr rel \<and>
     accept_offline True sample_blake3 (wots_blake3 sample_blake3) ok_dsm ok_counter
       (rel\<lparr>rel_counter := test_evidence 99\<rparr>) test_ctx = Done ()"
proof -
  obtain a1 a2 where r: "prepare test_platform test_step0 (fill32 0x55) (test_appliance 100) = (Done (), a1)"
    "commit test_platform a1 = (Done (), a2)" "mock_h (tropic a2) = 99"
    by (rule test_run)
  have "\<exists>rel. emit a2 = Inr rel \<and> rel_transition rel = test_step0 \<and>
      accept_offline (pf_debug test_platform) (pf_blake3 test_platform) (pf_sig test_platform)
        ok_dsm ok_counter (rel\<lparr>rel_counter := test_evidence 99\<rparr>) test_ctx = Done ()"
    by (rule honest_transfer_accepted [OF mock_app.appliance_chip_axioms _ r(1,2)])
      (simp_all add: wots.witness_scheme_axioms test_ctx_def ok_dsm_def ok_counter_def
        test_evidence_def test_appliance_def appliance_new_def test_transition_def r(3))
  with r show ?thesis by auto
qed

section \<open>What acceptance means\<close>

lemma accepted_expects:
  assumes "accept_offline dbg B S D C rel ctx = Done ()"
  shows "receiver_expects D C ctx rel" and "dbg \<longrightarrow> enc_fits (rel_transition rel)"
    and "unat (next_anchor_counter (rel_transition rel)) = unat (anchor_counter (rel_transition rel)) + 1"
  using assms
  by (auto simp: accept_offline_Done_iff acceptance_checks_def receiver_expects_def Let_def
      word_le_nat_alt)

text \<open>
  C10: the predicate against its specification. In a release build the result is that of the first
  failing entry in the list of checks (the order of the paper's numbering), stated over natural
  numbers; in every build the release is accepted exactly when all entries hold and, where the
  length assertions are compiled in, the package passes them.
\<close>

theorem accept_offline_meets_spec:
  "accept_offline False B S D C rel ctx = first_failure (acceptance_checks B S D C rel ctx) \<and>
   (accept_offline dbg B S D C rel ctx = Done () \<longleftrightarrow>
      (dbg \<longrightarrow> enc_fits (rel_transition rel)) \<and> list_all fst (acceptance_checks B S D C rel ctx))"
  by (simp add: accept_offline_first_failure accept_offline_Done_iff)

theorem accept_offline_meets_spec_witness:
  "\<exists>rel. enc_fits (rel_transition rel) \<and>
     list_all fst (acceptance_checks sample_blake3 (wots_blake3 sample_blake3) ok_dsm ok_counter rel test_ctx)"
proof -
  obtain rel where "accept_offline True sample_blake3 (wots_blake3 sample_blake3) ok_dsm ok_counter
      rel test_ctx = Done ()"
    using test_accepted by blast
  with accept_offline_meets_spec [of sample_blake3 "wots_blake3 sample_blake3" ok_dsm ok_counter
      rel test_ctx True]
  show ?thesis by blast
qed

text \<open>
  C8: acceptance pins the index to the chip. If a release is accepted, the receiver's own counter
  read returned some \<open>H\<close> with \<open>H0 = H + (u + 1)\<close> as natural numbers, where \<open>u\<close> is the committed
  parent index and \<open>u + 1\<close> the successor index of package and certificate, within the exposure
  cap. In particular no wrap-around of an attacker-chosen index is ever accepted.
\<close>

theorem accepted_index_is_attested:
  assumes "accept_offline dbg B S D C rel ctx = Done ()"
  shows "\<exists>H. read_authentic_counter C (pinned_anchor_id ctx) (rel_counter rel) = Some H \<and>
    unat (enrolled_counter ctx) = unat H + (unat (anchor_counter (rel_transition rel)) + 1) \<and>
    unat (next_anchor_counter (rel_transition rel)) = unat (anchor_counter (rel_transition rel)) + 1 \<and>
    unat (next_anchor_counter (rel_transition rel)) \<le> unat (exposure_cap_index ctx)"
  using accepted_expects [OF assms] by (auto simp: receiver_expects_def Let_def word_le_nat_alt)

theorem accepted_index_is_attested_witness:
  "\<exists>rel H. accept_offline True sample_blake3 (wots_blake3 sample_blake3) ok_dsm ok_counter rel test_ctx
       = Done () \<and> read_authentic_counter ok_counter (fill32 0xAA) (rel_counter rel) = Some H \<and>
     100 = unat H + (unat (anchor_counter (rel_transition rel)) + 1)"
proof -
  obtain rel where a: "accept_offline True sample_blake3 (wots_blake3 sample_blake3) ok_dsm ok_counter
      rel test_ctx = Done ()"
    using test_accepted by blast
  from accepted_index_is_attested [OF a] a show ?thesis
    by (auto simp: test_ctx_def)
qed

text \<open>
  The host's numbers are not trusted. Replacing the counter evidence by any other that names the
  same anchor and from which the receiver's verifier reads the same authentic value leaves the
  result of the predicate unchanged, success or error, whatever live counter, index or enrolled
  counter it claims.
\<close>

lemma accept_ignores_counter_claims:
  assumes "ev_anchor_id ev = ev_anchor_id (rel_counter rel)"
    and "read_authentic_counter C (pinned_anchor_id ctx) ev
       = read_authentic_counter C (pinned_anchor_id ctx) (rel_counter rel)"
  shows "accept_offline dbg B S D C (rel\<lparr>rel_counter := ev\<rparr>) ctx
       = accept_offline dbg B S D C rel ctx"
proof (cases rel)
  case (fields t c e)
  then show ?thesis
    using assms
    by (simp only: accept_offline_def Let_def offline_release.select_convs
        offline_release.update_convs)
qed

theorem accept_ignores_counter_claims_witness:
  "\<exists>rel. accept_offline True sample_blake3 (wots_blake3 sample_blake3) ok_dsm ok_counter
     (rel\<lparr>rel_counter := (rel_counter rel)\<lparr>ev_enrolled_counter := 7, ev_derived_index_claim := 3\<rparr>\<rparr>)
     test_ctx = Done ()"
proof -
  obtain rel where acc: "accept_offline True sample_blake3 (wots_blake3 sample_blake3) ok_dsm ok_counter
      rel test_ctx = Done ()"
    by (metis test_accepted)
  let ?ev = "(rel_counter rel)\<lparr>ev_enrolled_counter := 7, ev_derived_index_claim := 3\<rparr>"
  have "accept_offline True sample_blake3 (wots_blake3 sample_blake3) ok_dsm ok_counter
      (rel\<lparr>rel_counter := ?ev\<rparr>) test_ctx = Done ()"
    by (subst accept_ignores_counter_claims) (simp, simp add: ok_counter_def, rule acc)
  then show ?thesis by blast
qed

text \<open>
  C24: the signed message binds the release. If two releases, whose packages fit their length
  prefixes, recompute to the same certificate message, then they carry the same transition, witness
  public key, anchor, slot and receiver challenge, or one of three named pairs of hash inputs is a
  collision.
\<close>

theorem release_message_binds:
  assumes "enc_fits (rel_transition rel)" and "enc_fits (rel_transition rel')"
    and "release_message B rel = release_message B rel'"
  shows "(rel_transition rel = rel_transition rel' \<and>
      c_pk_hw (rel_cert rel) = c_pk_hw (rel_cert rel') \<and>
      c_anchor_id (rel_cert rel) = c_anchor_id (rel_cert rel') \<and>
      c_slot (rel_cert rel) = c_slot (rel_cert rel') \<and>
      c_receiver_challenge (rel_cert rel) = c_receiver_challenge (rel_cert rel')) \<or>
    collides B (release_message_input B rel) (release_message_input B rel') \<or>
    collides B (digest_input (rel_transition rel)) (digest_input (rel_transition rel')) \<or>
    collides B (pk_hash_input (c_pk_hw (rel_cert rel))) (pk_hash_input (c_pk_hw (rel_cert rel')))"
proof (cases "release_message_input B rel = release_message_input B rel'")
  case False
  with assms(3) show ?thesis by (simp add: release_message_eq collides_def)
next
  case True
  then have f: "transition_digest B (rel_transition rel) = transition_digest B (rel_transition rel')"
    "pk_hash B (c_pk_hw (rel_cert rel)) = pk_hash B (c_pk_hw (rel_cert rel'))"
    "c_anchor_id (rel_cert rel) = c_anchor_id (rel_cert rel')"
    "c_slot (rel_cert rel) = c_slot (rel_cert rel')"
    "c_receiver_challenge (rel_cert rel) = c_receiver_challenge (rel_cert rel')"
    by (simp_all add: release_message_input_def Let_def hasher_input_eq cert_message_fields_inject)
  show ?thesis
    using transition_digest_eqD [OF f(1) assms(1,2)] pk_hash_eqD [OF f(2)] f(3-5) by blast
qed

theorem release_message_binds_witness:
  "\<exists>rel rel'. rel_transition rel \<noteq> rel_transition rel' \<and>
     release_message sample_blake3 rel = release_message sample_blake3 rel' \<and>
     (\<exists>x y. collides sample_blake3 x y)"
proof -
  obtain rel :: offline_release where f: "rel_transition rel = test_step0"
    by (metis test_accepted)
  let ?rel' = "rel\<lparr>rel_transition := test_transition (fill32 0x11) (fill32 0x23) 0\<rparr>"
  have m: "release_message sample_blake3 rel = release_message sample_blake3 ?rel'"
    by (simp add: release_message_def cert_message_def cert_message_fields_def hash_h_def hasher_input_eq
        Let_def sample_blake3_def)
  have "enc_fits (rel_transition rel)" "enc_fits (rel_transition ?rel')"
    by (simp_all add: f test_transition_fits)
  moreover have "rel_transition rel \<noteq> rel_transition ?rel'" by (simp add: f test_transition_def)
  ultimately show ?thesis using release_message_binds [of rel ?rel' sample_blake3] m by blast
qed

text \<open>
  C34: the predicate cannot tell where the witness key came from, nor that a counter step was
  already used. Given one accepted release, take any other transition from the same parent root and
  index under the same policy whose DSM checks pass, any other challenge, and any 32 bytes in place
  of the output of the secure element: the release assembled from these, with the same counter
  evidence, is accepted by the receiver who supplied that challenge.
\<close>

theorem accept_alternative_release:
  assumes scheme: "witness_scheme (pf_sig P)"
    and acc: "accept_offline (pf_debug P) (pf_blake3 P) (pf_sig P) D C
        ((commit_release a (prepared_for P a t rc w) sigma hv)\<lparr>rel_counter := ev\<rparr>) ctx = Done ()"
    and same: "prev_root t' = prev_root t" "anchor_counter t' = anchor_counter t"
      "next_anchor_counter t' = next_anchor_counter t"
      "authority_policy_hash t' = authority_policy_hash t"
    and dsm: "verify_transition D t'" "delivers_to_receiver D t'" and fits: "pf_debug P \<longrightarrow> enc_fits t'"
  shows "\<exists>sigma'. accept_offline (pf_debug P) (pf_blake3 P) (pf_sig P) D C
      ((commit_release a (prepared_for P a t' rc' w') sigma' hv)\<lparr>rel_counter := ev\<rparr>)
      (ctx\<lparr>expected_receiver_challenge := rc'\<rparr>) = Done ()"
proof -
  let ?p' = "prepared_for P a t' rc' w'"
  obtain seed where "p_sk_hw ?p' = fst (ws_keygen (pf_sig P) seed)"
    by (simp add: prepared_for_def Let_def)
  then obtain sigma' where sign: "ws_sign (pf_sig P) (p_sk_hw ?p') (p_cert_message ?p') = Some sigma'"
    using witness_scheme.sign_total [OF scheme] by metis
  note exp = accepted_expects [OF acc]
  have "unat (next_anchor_counter t') = unat (anchor_counter t') + 1"
    using exp(3) same by (simp add: commit_release_def prepared_for_def Let_def)
  moreover have "receiver_expects D C (ctx\<lparr>expected_receiver_challenge := rc'\<rparr>)
      ((commit_release a ?p' sigma' hv)\<lparr>rel_counter := ev\<rparr>)"
    using exp(1) same dsm
    by (auto simp: receiver_expects_def commit_release_def prepared_for_def Let_def)
  ultimately show ?thesis
    using assembled_release_accepted [OF scheme sign fits _ refl] by blast
qed

theorem accept_alternative_release_witness:
  "\<exists>rel rel'. next_root (rel_transition rel) \<noteq> next_root (rel_transition rel') \<and>
     accept_offline True sample_blake3 (wots_blake3 sample_blake3) ok_dsm ok_counter rel test_ctx = Done () \<and>
     accept_offline True sample_blake3 (wots_blake3 sample_blake3) ok_dsm ok_counter rel'
       (test_ctx\<lparr>expected_receiver_challenge := fill32 0x66\<rparr>) = Done ()"
proof -
  obtain w sigma hv ev where acc: "accept_offline True sample_blake3 (wots_blake3 sample_blake3) ok_dsm ok_counter
      ((commit_release (test_appliance 100)
        (prepared_for test_platform (test_appliance 100) test_step0 (fill32 0x55) w) sigma hv)\<lparr>rel_counter := ev\<rparr>)
      test_ctx = Done ()"
    by (metis test_accepted)
  let ?t' = "test_transition (fill32 0x11) (fill32 0x77) 0"
  have "\<exists>sigma'. accept_offline (pf_debug test_platform) (pf_blake3 test_platform)
      (pf_sig test_platform) ok_dsm ok_counter
      ((commit_release (test_appliance 100)
        (prepared_for test_platform (test_appliance 100) ?t' (fill32 0x66) (fill32 0)) sigma' hv)
        \<lparr>rel_counter := ev\<rparr>)
      (test_ctx\<lparr>expected_receiver_challenge := fill32 0x66\<rparr>) = Done ()"
    by (rule accept_alternative_release [where t = test_step0 and rc = "fill32 0x55" and w = w and sigma = sigma])
      (use acc in \<open>simp_all add: wots.witness_scheme_axioms ok_dsm_def test_transition_def
         enc_fits_def field_fits_def\<close>)
  then obtain sigma' where acc': "accept_offline True sample_blake3 (wots_blake3 sample_blake3) ok_dsm ok_counter
      ((commit_release (test_appliance 100)
        (prepared_for test_platform (test_appliance 100) ?t' (fill32 0x66) (fill32 0)) sigma' hv)
        \<lparr>rel_counter := ev\<rparr>)
      (test_ctx\<lparr>expected_receiver_challenge := fill32 0x66\<rparr>) = Done ()"
    by auto
  show ?thesis
    using acc acc'
    by (intro exI conjI) (auto simp: commit_release_def prepared_for_def Let_def test_transition_def)
qed

end
