(* ===== verification/System.thy ===== *)
theory System
  imports Anchor_Spec Acceptance
begin

text \<open>
  The appliance over time: any sequence of its operations, with any arguments, interleaved with
  power loss inside \<open>commit\<close>, reboots that run \<open>recover\<close>, and counter steps behind the appliance's
  back. Every step is matched by steps of the abstract anchor, whose safety then holds of the
  releases the program hands out.
\<close>

section \<open>The step relation\<close>

text \<open>The appliance and the releases handed out so far.\<close>

type_synonym 'c system = "'c appliance \<times> offline_release list"

text \<open>
  \<open>power_loss\<close> stops a commit after its candidate is stored; together with \<open>chip\<close>, also after the
  counter has moved and before the flag is set. \<open>chip\<close> is any change of the chip that does not
  raise the counter: reads, lost sessions, steps taken by others. \<open>flags\<close> is the boot check that
  sets the two public validity flags.
\<close>

inductive sys_step :: "'c platform \<Rightarrow> ('c \<Rightarrow> u32) \<Rightarrow> 'c system \<Rightarrow> 'c system \<Rightarrow> bool"
  for P live where
  prepare: "sys_step P live (a, out) (snd (prepare P t rc a), out)"
| commit: "sys_step P live (a, out) (snd (commit P a), out)"
| power_loss: "commit_phase1 P a = (Done (), a') \<Longrightarrow> sys_step P live (a, out) (a', out)"
| emit: "emit a = Inr r \<Longrightarrow> sys_step P live (a, out) (a, out @ [r])"
| finalize: "sys_step P live (a, out) (snd (finalize P a), out)"
| cancel: "sys_step P live (a, out) (snd (cancel a), out)"
| recover: "sys_step P live (a, out) (snd (recover P a), out)"
| chip: "live c \<le> live (tropic a) \<Longrightarrow> sys_step P live (a, out) (a\<lparr>tropic := c\<rparr>, out)"
| flags: "sys_step P live (a, out)
    (a\<lparr>firmware_boundary_invalid := f, rmemory_map_invalid := m\<rparr>, out)"

section \<open>Representation\<close>

text \<open>A candidate is coherent when its fields repeat those of its release.\<close>

definition coherent :: "committed_record \<Rightarrow> bool" where
  "coherent c \<longleftrightarrow>
     cr_prev_root c = prev_root (rel_transition (cr_release c)) \<and>
     cr_next_root c = rel_root (cr_release c) \<and>
     cr_anchor_counter c = anchor_counter (rel_transition (cr_release c)) \<and>
     cr_next_anchor_counter c = next_anchor_counter (rel_transition (cr_release c))"

lemma coherent_candidate [simp]: "coherent (candidate a p sigma hv)"
  by (simp add: coherent_def commit_release_def rel_root_def)

lemma coherent_mark [simp]: "coherent (c\<lparr>cr_committed := b\<rparr>) = coherent c"
  by (simp add: coherent_def)

definition holds_stage :: "'c platform \<Rightarrow> 'c appliance \<Rightarrow> stage \<Rightarrow> bool" where
  "holds_stage P a st =
     (case st of
        Idle \<Rightarrow> act_status (active a) = Ready \<and> act_record (active a) = REmpty
      | Drafted t \<Rightarrow> act_status (active a) = Prepared \<and>
          (\<exists>rc w. act_record (active a) = RPrepared (prepared_for P a t rc w))
      | Sealed r \<Rightarrow> act_status (active a) = Committed \<and>
          (\<exists>c. act_record (active a) = RCommitted c \<and> \<not> cr_committed c \<and> cr_release c = r \<and> coherent c)
      | Released r \<Rightarrow> act_status (active a) = Committed \<and>
          (\<exists>c. act_record (active a) = RCommitted c \<and> cr_committed c \<and> cr_release c = r \<and> coherent c))"

definition represents ::
    "'c platform \<Rightarrow> ('c \<Rightarrow> u32) \<Rightarrow> bytes32 \<Rightarrow> 'c system \<Rightarrow> anchor \<Rightarrow> bool" where
  "represents P live g s A \<longleftrightarrow>
     anchor_inv g A \<and> act_root (active (fst s)) = a_root A \<and>
     unat (act_u (active (fst s))) = a_index A \<and> chip_index live (fst s) = a_steps A \<and>
     snd s = a_log A \<and> holds_stage P (fst s) (a_stage A)"

lemma represents_stage:
  assumes "represents P live g (a, out) A"
  shows "act_record (active a) = RPrepared p \<Longrightarrow>
           a_stage A = Drafted (p_txn p) \<and> next_step A (p_txn p) \<and>
           (\<exists>rc w. p = prepared_for P a (p_txn p) rc w)"
    and "act_record (active a) = RCommitted c \<Longrightarrow>
           a_stage A = (if cr_committed c then Released (cr_release c) else Sealed (cr_release c)) \<and>
           coherent c \<and> act_status (active a) = Committed"
    and "act_status (active a) = Ready \<longleftrightarrow> a_stage A = Idle"
    and "act_record (active a) = REmpty \<longleftrightarrow> a_stage A = Idle"
  using assms
  by (auto simp: represents_def holds_stage_def anchor_inv_def stage_ok_def split: stage.splits)
    (intro exI, rule refl)

lemma represents_tick:
  assumes "represents P live g (a, out) A" and "active a' = active a"
    and "anchor_id a' = anchor_id a" "slot a' = slot a"
    and "chip_index live a \<le> chip_index live a'"
  shows "anchor_step A (A\<lparr>a_steps := chip_index live a'\<rparr>)"
    and "represents P live g (a', out) (A\<lparr>a_steps := chip_index live a'\<rparr>)"
proof -
  show step: "anchor_step A (A\<lparr>a_steps := chip_index live a'\<rparr>)"
    using assms(1,5) by (intro anchor_step.tick) (simp add: represents_def)
  have "anchor_inv g (A\<lparr>a_steps := chip_index live a'\<rparr>)"
    using anchor_inv_step [OF step] assms(1) by (simp add: represents_def)
  then show "represents P live g (a', out) (A\<lparr>a_steps := chip_index live a'\<rparr>)"
    using assms prepared_for_cong [OF assms(3,4), of P]
    by (simp add: represents_def holds_stage_def cong: stage.case_cong)
qed

text \<open>Every step that leaves the active record alone is a tick.\<close>

lemma represents_frame:
  assumes "represents P live g (a, out) A" and "active a' = active a" and "config a' = config a"
    and "live (tropic a') \<le> live (tropic a)"
  shows "\<exists>A'. anchor_step\<^sup>*\<^sup>* A A' \<and> represents P live g (a', out) A'"
proof -
  have "anchor_id a' = anchor_id a" "slot a' = slot a" "chip_index live a \<le> chip_index live a'"
    using assms(3) chip_index_mono [OF assms(3,4)] by (simp_all add: config_def)
  from represents_tick [OF assms(1,2) this] show ?thesis by blast
qed

lemma represents_step:
  assumes "represents P live g s A" and "anchor_step A A'"
    and "act_root (active (fst s')) = a_root A'" "unat (act_u (active (fst s'))) = a_index A'"
    and "chip_index live (fst s') = a_steps A'" "snd s' = a_log A'" "holds_stage P (fst s') (a_stage A')"
  shows "represents P live g s' A'"
  using assms anchor_inv_step [OF assms(2)] by (simp add: represents_def)

lemma rtranclp_snoc2: "r\<^sup>*\<^sup>* x y \<Longrightarrow> r y z \<Longrightarrow> r\<^sup>*\<^sup>* x z"
  by (rule rtranclp.rtrancl_into_rtrancl)

section \<open>The operations refine the anchor\<close>

context appliance_chip
begin

lemma prepare_refines:
  assumes rep: "represents P live g (a, out) A"
  shows "\<exists>A'. anchor_step\<^sup>*\<^sup>* A A' \<and> represents P live g (snd (prepare P t rc a), out) A'"
proof (cases rule: prepare_cases [where P = P and t = t and rc = rc and a = a])
  case (success ch w ch')
  let ?a' = "snd (prepare P t rc a)"
  have fin: "prepare P t rc a = (Done (), ?a')" using success(1) by simp
  have idx: "a_index A = a_steps A"
    using live_index_Inr(1) [OF success(6)] rep by (simp add: represents_def)
  have next_t: "next_step A t"
    using rep success(3,4) prepare_DoneE [OF fin] by (auto simp: next_step_def represents_def)
  have idle: "a_stage A = Idle" using represents_stage(3) [OF rep] success(2) by simp
  have step: "anchor_step A (A\<lparr>a_stage := Drafted t\<rparr>)"
    by (rule anchor_step.draft [OF idle next_t idx])
  have "chip_index live ?a' = chip_index live a"
    using prepare_live [of t rc a] success(1) by (simp add: chip_index_def)
  moreover have "act_record (active ?a') = RPrepared (prepared_for P ?a' t rc w)"
    using prepared_for_cong [of ?a' a P t rc w] by (simp add: success(1))
  then have "holds_stage P ?a' (Drafted t)"
    unfolding holds_stage_def stage.case
    by (intro conjI exI) (simp_all add: success(1))
  ultimately have "represents P live g (?a', out) (A\<lparr>a_stage := Drafted t\<rparr>)"
    using rep success(1) by (intro represents_step [OF rep step]) (simp_all add: represents_def)
  with step show ?thesis by blast
next
  case stopped
  then show ?thesis using represents_frame [OF rep stopped(2,3)] prepare_live [of t rc a] by simp
qed

text \<open>The stored candidate is a sealed release.\<close>

lemma commit_ready_refines:
  assumes rep: "represents P live g (a, out) A" and ready: "commit_ready P a p hv ch sigma"
    and le: "live ch' \<le> live (tropic a)"
  defines "c \<equiv> candidate a p sigma hv" and "a' \<equiv> store_candidate (candidate a p sigma hv) ch' a"
  shows "\<exists>A'. anchor_step\<^sup>*\<^sup>* A A' \<and> represents P live g (a', out) A' \<and> a_stage A' = Sealed (cr_release c)"
proof -
  let ?r = "cr_release c" and ?A1 = "A\<lparr>a_stage := Sealed (cr_release c)\<rparr>"
  have rec: "act_record (active a) = RPrepared p" using ready by (simp add: commit_ready_def)
  note st = represents_stage(1) [OF rep rec]
  have txn: "rel_transition ?r = p_txn p" by (simp add: c_def commit_release_def)
  have "a_index A = a_steps A"
    using st rep commit_ready_live(3) [OF ready] by (simp add: next_step_def represents_def)
  then have step: "anchor_step A ?A1" using st txn by (intro anchor_step.seal) simp_all
  let ?a1 = "store_candidate c (tropic a) a"
  have "represents P live g (?a1, out) ?A1"
    using rep by (intro represents_step [OF rep step])
      (auto simp: represents_def holds_stage_def c_def chip_index_def)
  from represents_tick [OF this, of a']
  have "anchor_step ?A1 (?A1\<lparr>a_steps := chip_index live a'\<rparr>)"
    and "represents P live g (a', out) (?A1\<lparr>a_steps := chip_index live a'\<rparr>)"
    using le by (simp_all add: a'_def c_def store_candidate_def chip_index_def word_le_nat_alt)
  with step show ?thesis
    by (intro exI [of _ "?A1\<lparr>a_steps := chip_index live a'\<rparr>"]) (auto intro: rtranclp_snoc2)
qed

text \<open>Marking the candidate at the chip's index releases it.\<close>

lemma mark_refines:
  assumes rep: "represents P live g (a, out) A" and rec: "act_record (active a) = RCommitted c"
    and idx: "unat (cr_next_anchor_counter c) = chip_index live a"
  shows "\<exists>A'. anchor_step\<^sup>*\<^sup>* A A' \<and>
    represents P live g (mark_committed (cr_next_anchor_counter c) a, out) A'"
proof -
  let ?r = "cr_release c" and ?a' = "mark_committed (cr_next_anchor_counter c) a"
  note st = represents_stage(2) [OF rep rec]
  have r: "rel_index ?r = unat (cr_next_anchor_counter c)"
    using st by (simp add: coherent_def rel_index_def)
  show ?thesis
  proof (cases "cr_committed c")
    case True
    with st rep have "a_index A = rel_index ?r"
      by (simp add: represents_def anchor_inv_def stage_ok_def)
    then have "represents P live g (?a', out) A"
      using True st rep rec r by (auto simp: represents_def holds_stage_def)
    then show ?thesis by blast
  next
    case False
    let ?A' = "A\<lparr>a_stage := Released ?r, a_index := rel_index ?r, a_chain := a_chain A @ [?r]\<rparr>"
    have step: "anchor_step A ?A'"
      using False st idx rep r by (intro anchor_step.release) (simp_all add: represents_def)
    have "represents P live g (?a', out) ?A'"
      using rep st rec r
      by (intro represents_step [OF rep step]) (auto simp: represents_def holds_stage_def)
    with step show ?thesis by blast
  qed
qed

lemma commit_refines:
  assumes rep: "represents P live g (a, out) A"
  shows "\<exists>A'. anchor_step\<^sup>*\<^sup>* A A' \<and> represents P live g (snd (commit P a), out) A'"
proof (cases P a rule: commit_cases)
  case (success p hv ch sigma ch' u)
  note live = commit_ready_live [OF success(1)] and upd = update_step [OF success(2)]
  let ?a1 = "store_candidate (candidate a p sigma hv) ch' a"
  have le: "live ch' \<le> live (tropic a)" using live(1) upd by (simp add: word_le_nat_alt)
  obtain A1 where A1: "anchor_step\<^sup>*\<^sup>* A A1" "represents P live g (?a1, out) A1"
    using commit_ready_refines [OF rep success(1) le] by blast
  have rec: "act_record (active a) = RPrepared p" using success(1) by (simp add: commit_ready_def)
  have "unat (next_anchor_counter (p_txn p)) = unat (anchor_counter (p_txn p)) + 1"
    using represents_stage(1) [OF rep rec] by (simp add: next_step_def)
  then have "unat (next_anchor_counter (p_txn p)) = chip_index live ?a1"
    using live upd by (simp add: chip_index_def)
  then obtain A2 where "anchor_step\<^sup>*\<^sup>* A1 A2" "represents P live g (snd (commit P a), out) A2"
    using mark_refines [OF A1(2), of "candidate a p sigma hv"] by (auto simp: success(3))
  with A1(1) show ?thesis by (meson rtranclp_trans)
next
  case (unmoved p hv ch sigma ch' e)
  have "live ch' \<le> live (tropic a)"
    using update_le [of ch] unmoved(2) commit_ready_live(1) [OF unmoved(1)] by simp
  from commit_ready_refines [OF rep unmoved(1) this] show ?thesis by (auto simp: unmoved(3))
next
  case stopped
  show ?thesis by (rule represents_frame [OF rep stopped(3,4) commit_live])
qed

lemma finalize_refines:
  assumes rep: "represents P live g (a, out) A"
  shows "\<exists>A'. anchor_step\<^sup>*\<^sup>* A A' \<and> represents P live g (snd (finalize P a), out) A'"
proof (cases P a rule: finalize_cases)
  case (success c ch)
  note st = represents_stage(2) [OF rep success(2)] and li = live_index_Inr [OF success(4)]
  let ?A' = "A\<lparr>a_stage := Idle, a_root := rel_root (cr_release c)\<rparr>"
  have "a_index A = rel_index (cr_release c)"
    using st success(3) rep by (simp add: represents_def anchor_inv_def stage_ok_def)
  then have step: "anchor_step A ?A'"
    using st success(3) rep li(1) by (intro anchor_step.advance) (simp_all add: represents_def)
  have "represents P live g (snd (finalize P a), out) ?A'"
    using rep st li(3) success(1)
    by (intro represents_step [OF rep step])
      (auto simp: represents_def holds_stage_def coherent_def chip_index_def)
  with step show ?thesis by blast
next
  case (stopped e)
  then show ?thesis using represents_frame [OF rep stopped(2,3)] finalize_live [of a] by simp
qed

lemma cancel_refines:
  assumes rep: "represents P live g (a, out) A"
  shows "\<exists>A'. anchor_step\<^sup>*\<^sup>* A A' \<and> represents P live g (snd (cancel a), out) A'"
proof (cases a rule: cancel_cases)
  case (success p)
  have step: "anchor_step A (A\<lparr>a_stage := Idle\<rparr>)"
    using represents_stage(1) [OF rep success(2)] by (blast intro: anchor_step.abandon)
  have "represents P live g (snd (cancel a), out) (A\<lparr>a_stage := Idle\<rparr>)"
    using rep success(1)
    by (intro represents_step [OF rep step]) (auto simp: represents_def holds_stage_def)
  with step show ?thesis by blast
next
  case stopped
  with rep show ?thesis by auto
qed

lemma recover_refines:
  assumes rep: "represents P live g (a, out) A"
  shows "\<exists>A'. anchor_step\<^sup>*\<^sup>* A A' \<and> represents P live g (snd (recover P a), out) A'"
proof (cases "\<exists>r. fst (recover P a) = ReemitCommitted r")
  case True
  then obtain r a' where "recover P a = (ReemitCommitted r, a')" by (metis prod.collapse)
  then obtain c ch where c: "act_record (active a) = RCommitted c"
    "a' = mark_committed (cr_next_anchor_counter c) (a\<lparr>tropic := ch\<rparr>)" "snd (recover P a) = a'"
    "unat (cr_next_anchor_counter c) = chip_index live a'"
    "live ch = live (tropic a) \<or> \<not> cr_committed c \<and> unat (live (tropic a)) = Suc (unat (live ch))"
    by (metis recover_reemit_index snd_conv)
  then have "live ch \<le> live (tropic a)" by (auto simp: word_le_nat_alt)
  then obtain A1 where A1: "anchor_step\<^sup>*\<^sup>* A A1" "represents P live g (a\<lparr>tropic := ch\<rparr>, out) A1"
    using represents_frame [OF rep, of "a\<lparr>tropic := ch\<rparr>"] by auto
  obtain A2 where "anchor_step\<^sup>*\<^sup>* A1 A2" "represents P live g (a', out) A2"
    using mark_refines [OF A1(2), of c] c by auto
  with A1(1) c(3) show ?thesis by (metis rtranclp_trans)
next
  case False
  then show ?thesis
  proof (cases rule: recover_cases [of P a])
    case stopped
    show ?thesis using represents_frame [OF rep stopped(2,3) recover_live] .
  qed simp
qed

lemma sys_step_refines:
  assumes "sys_step P live s s'" and rep: "represents P live g s A"
  shows "\<exists>A'. anchor_step\<^sup>*\<^sup>* A A' \<and> represents P live g s' A'"
  using assms
proof cases
  case (power_loss a a' out)
  obtain p hv ch sigma where r: "commit_ready P a p hv ch sigma"
    using power_loss(3) commit_phase1_Done_iff [of P a] by auto
  have le: "live ch \<le> live (tropic a)" using commit_ready_live(1) [OF r] by simp
  have "a' = store_candidate (candidate a p sigma hv) ch a"
    using power_loss(3) commit_phase1_of_ready [OF r] by simp
  then show ?thesis
    using commit_ready_refines [OF rep [unfolded power_loss(1)] r le] power_loss(2) by blast
next
  case (emit a r out)
  then obtain c where c: "act_record (active a) = RCommitted c" "cr_committed c" "r = cr_release c"
    by (auto simp: emit_Inr_iff)
  note rep' = rep [unfolded emit(1)]
  have step: "anchor_step A (A\<lparr>a_log := a_log A @ [r]\<rparr>)"
    using represents_stage(2) [OF rep' c(1)] c by (intro anchor_step.publish) simp
  have "represents P live g (a, out @ [r]) (A\<lparr>a_log := a_log A @ [r]\<rparr>)"
    using rep' by (intro represents_step [OF rep' step]) (auto simp: represents_def)
  with step emit(2) show ?thesis by blast
next
  case (chip c a out)
  with represents_frame [of P live g a out A "a\<lparr>tropic := c\<rparr>"] rep show ?thesis by simp
next
  case (flags a out m f)
  let ?a' = "a\<lparr>firmware_boundary_invalid := f, rmemory_map_invalid := m\<rparr>"
  have "chip_index live ?a' = chip_index live a" by (simp add: chip_index_def)
  with represents_tick [of P live g a out A ?a'] rep flags show ?thesis by auto
qed (use rep in \<open>auto intro: prepare_refines commit_refines finalize_refines cancel_refines recover_refines\<close>)

end

section \<open>Reachable systems\<close>

sublocale appliance_chip \<subseteq> sim: forward_simulation "sys_step P live" anchor_step "represents P live g"
  for g
  by unfold_locales (rule sys_step_refines)

lemma represents_new:
  "represents P live g (appliance_new c e g anc q, [])
     (fresh_anchor g (chip_index live (appliance_new c e g anc q)))"
  using fresh_anchor_inv [of g] by (simp add: represents_def fresh_anchor_def appliance_new_def holds_stage_def)

context appliance_chip
begin

lemma reachable_represents:
  assumes "(sys_step P live)\<^sup>*\<^sup>* (appliance_new c e g anc q, []) s"
  shows "\<exists>A. anchor_step\<^sup>*\<^sup>* (fresh_anchor g (chip_index live (appliance_new c e g anc q))) A \<and>
    represents P live g s A"
  by (rule sim.simulates_steps [OF assms represents_new])

lemmas later_represents = sim.simulates_steps

lemma index_bound:
  assumes "represents P live g (a, out) A"
  shows "unat (act_u (active a)) < 4294967296"
proof -
  have "unat (act_u (active a)) \<le> unat (h0 a)"
    using assms by (auto simp: represents_def anchor_inv_def chip_index_def)
  also have "\<dots> < 4294967296" by (rule unat_u32_less)
  finally show ?thesis .
qed

lemma represents_no_panic:
  assumes rep: "represents P live g (a, out) A" and scheme: "witness_scheme (pf_sig P)"
  shows "fst (commit P a) \<noteq> Panic" and "enc_fits t \<Longrightarrow> fst (prepare P t rc a) \<noteq> Panic"
proof -
  have sign: "ws_sign (pf_sig P) (p_sk_hw p) m \<noteq> None" if rec: "act_record (active a) = RPrepared p" for p m
  proof -
    obtain seed where "p_sk_hw p = fst (ws_keygen (pf_sig P) seed)"
      using represents_stage(1) [OF rep rec] prepared_for_keys by metis
    then show ?thesis using witness_scheme.sign_total [OF scheme, of seed m] by auto
  qed
  show "fst (commit P a) \<noteq> Panic"
  proof (cases "act_record (active a)")
    case (RPrepared p)
    then obtain sigma where "ws_sign (pf_sig P) (p_sk_hw p) (p_cert_message p) = Some sigma"
      using sign by blast
    with RPrepared show ?thesis
      by (auto simp: commit_def commit_phase1_def commit_phase2_def Let_def
          split: sum.split option.split prod.split)
  qed (simp_all add: commit_def commit_phase1_def)
  assume fits: "enc_fits t"
  have "unat (act_u (active a) + 1) = unat (act_u (active a)) + 1"
    using index_bound [OF rep] by (simp add: unat_word_ariths)
  then have "plus_u64 (pf_debug P) (act_u (active a)) 1 \<noteq> None"
    using plus_u64_succ by fastforce
  then show "fst (prepare P t rc a) \<noteq> Panic"
    using fits by (auto simp: prepare_def Let_def split: option.split sum.split prod.split)
qed

end

end
