(* ===== verification/System_Properties.thy ===== *)
theory System_Properties
  imports System
begin

text \<open>
  What holds of every reachable state of the appliance: the properties of the abstract anchor,
  carried over by the simulation, and what the concrete state adds to them.
\<close>

section \<open>A closed run\<close>

text \<open>Prepare, commit and emit on the platform of the host tests.\<close>

lemma test_reach:
  obtains a2 rel where "(sys_step test_platform mock_h)\<^sup>*\<^sup>* (test_appliance 100, []) (a2, [rel])"
    and "rel_transition rel = test_step0"
proof -
  obtain a1 a2 where r: "prepare test_platform test_step0 (fill32 0x55) (test_appliance 100) = (Done (), a1)"
    "commit test_platform a1 = (Done (), a2)"
    by (rule test_run)
  obtain w sigma hv where e: "emit a2 = Inr (commit_release (test_appliance 100)
      (prepared_for test_platform (test_appliance 100) test_step0 (fill32 0x55) w) sigma hv)"
    by (rule mock_app.prepare_commit_release [OF r])
  let ?rel = "commit_release (test_appliance 100)
      (prepared_for test_platform (test_appliance 100) test_step0 (fill32 0x55) w) sigma hv"
  have "(sys_step test_platform mock_h)\<^sup>*\<^sup>* (test_appliance 100, []) (a1, [])"
    using sys_step.prepare [of test_platform mock_h "test_appliance 100" "[]" test_step0 "fill32 0x55"] r(1)
    by auto
  also have "sys_step test_platform mock_h (a1, []) (a2, [])"
    using sys_step.commit [of test_platform mock_h a1 "[]"] r(2) by simp
  also have "sys_step test_platform mock_h (a2, []) (a2, [] @ [?rel])"
    using e by (rule sys_step.emit)
  finally show ?thesis by (intro that [of a2 ?rel]) (simp_all add: commit_release_def)
qed

section \<open>Refinement and its consequences\<close>

text \<open>
  C7: the program refines the abstract anchor. Starting from a newly enrolled appliance, whatever
  operations, power losses, reboots and outside counter steps happen, the abstract anchor has a
  run that ends in a state with the same root, index, counter steps, stage of the transfer and
  log of published releases.
\<close>

theorem appliance_refines_anchor:
  assumes chip: "appliance_chip P live"
    and run: "(sys_step P live)\<^sup>*\<^sup>* (appliance_new c e g anc q, []) (a, out)"
  shows "\<exists>A. anchor_step\<^sup>*\<^sup>* (fresh_anchor g (unat e - unat (live c))) A \<and>
    act_root (active a) = a_root A \<and> unat (act_u (active a)) = a_index A \<and>
    unat (h0 a) - unat (live (tropic a)) = a_steps A \<and> out = a_log A \<and>
    (act_status (active a) = Ready \<longleftrightarrow> a_stage A = Idle) \<and>
    (\<forall>p. act_record (active a) = RPrepared p \<longrightarrow> a_stage A = Drafted (p_txn p)) \<and>
    (\<forall>k. act_record (active a) = RCommitted k \<longrightarrow>
       a_stage A = (if cr_committed k then Released (cr_release k) else Sealed (cr_release k)))"
proof -
  obtain A where run': "anchor_step\<^sup>*\<^sup>* (fresh_anchor g (chip_index live (appliance_new c e g anc q))) A"
    and rep: "represents P live g (a, out) A"
    using appliance_chip.reachable_represents [OF chip run] by blast
  have "chip_index live (appliance_new c e g anc q) = unat e - unat (live c)"
    by (simp add: chip_index_def appliance_new_def)
  with run' rep represents_stage [OF rep] show ?thesis
    by (intro exI [of _ A]) (simp add: represents_def chip_index_def)
qed

theorem appliance_refines_anchor_witness:
  "\<exists>(a :: mock_tropic appliance) r A.
     (sys_step test_platform mock_h)\<^sup>*\<^sup>* (test_appliance 100, []) (a, [r]) \<and>
     anchor_step\<^sup>*\<^sup>* (fresh_anchor (fill32 0x11) 0) A \<and> a_log A = [r]"
proof -
  obtain a2 rel where r: "(sys_step test_platform mock_h)\<^sup>*\<^sup>* (test_appliance 100, []) (a2, [rel])"
    by (rule test_reach)
  from appliance_refines_anchor [OF mock_app.appliance_chip_axioms r [unfolded test_appliance_def]]
  obtain A where "anchor_step\<^sup>*\<^sup>* (fresh_anchor (fill32 0x11) 0) A" "a_log A = [rel]"
    by auto
  with r show ?thesis by blast
qed

text \<open>
  C21: the published releases lie on one chain. There is a single sequence of releases, starting at
  the enrolled root, each starting at the root where the one before ended, numbered 1, 2, ..., n,
  that contains every release ever published; and the counter has moved at least n times, so none
  was published before its counter step.
\<close>

theorem published_on_one_chain:
  assumes chip: "appliance_chip P live"
    and run: "(sys_step P live)\<^sup>*\<^sup>* (appliance_new c e g anc q, []) (a, out)"
  shows "\<exists>chain h. path g chain h \<and> map rel_index chain = [1 ..< Suc (length chain)] \<and>
    set out \<subseteq> set chain \<and> length chain \<le> unat (h0 a) - unat (live (tropic a)) \<and>
    (act_status (active a) = Ready \<longrightarrow> h = act_root (active a))"
proof -
  obtain A where rep: "represents P live g (a, out) A"
    using appliance_chip.reachable_represents [OF chip run] by blast
  then show ?thesis
    using represents_stage(3) [OF rep]
    by (intro exI [of _ "a_chain A"] exI [of _ "chain_end A"])
      (auto simp: represents_def anchor_inv_def numbered_def chip_index_def chain_end_def)
qed

theorem published_on_one_chain_witness:
  "\<exists>(a :: mock_tropic appliance) r chain h.
     (sys_step test_platform mock_h)\<^sup>*\<^sup>* (test_appliance 100, []) (a, [r]) \<and>
     path (fill32 0x11) chain h \<and> r \<in> set chain"
proof -
  obtain a2 rel where r: "(sys_step test_platform mock_h)\<^sup>*\<^sup>* (test_appliance 100, []) (a2, [rel])"
    by (rule test_reach)
  from published_on_one_chain [OF mock_app.appliance_chip_axioms r [unfolded test_appliance_def]] r
  show ?thesis by (metis list.set_intros(1) subset_iff)
qed

text \<open>
  C1: one successor per index. Two published releases with the same successor index are the same
  release, whatever crashes and recoveries lay between, and a release is only ever published when
  the counter has already moved past its parent index.
\<close>

theorem one_release_per_index:
  assumes chip: "appliance_chip P live"
    and run: "(sys_step P live)\<^sup>*\<^sup>* (appliance_new c e g anc q, []) (a, out)"
    and "r \<in> set out" and "r' \<in> set out"
  shows "(next_anchor_counter (rel_transition r) = next_anchor_counter (rel_transition r') \<longleftrightarrow> r = r') \<and>
    unat (next_anchor_counter (rel_transition r)) \<le> unat (h0 a) - unat (live (tropic a))"
proof -
  obtain A where rep: "represents P live g (a, out) A"
    using appliance_chip.reachable_represents [OF chip run] by blast
  then have inv: "numbered (a_chain A)" "r \<in> set (a_chain A)" "r' \<in> set (a_chain A)"
    "length (a_chain A) \<le> chip_index live a"
    using assms(3,4) by (auto simp: represents_def anchor_inv_def)
  from numbered_unique [OF inv(1-3)] numbered_bound(2) [OF inv(1,2)] inv(4) show ?thesis
    by (auto simp: rel_index_def chip_index_def)
qed

theorem one_release_per_index_witness:
  "\<exists>(a :: mock_tropic appliance) r. (sys_step test_platform mock_h)\<^sup>*\<^sup>* (test_appliance 100, []) (a, [r]) \<and>
     unat (next_anchor_counter (rel_transition r)) = 1 \<and>
     unat (next_anchor_counter (rel_transition r)) \<le> unat (h0 a) - unat (mock_h (tropic a))"
proof -
  obtain a2 rel where r: "(sys_step test_platform mock_h)\<^sup>*\<^sup>* (test_appliance 100, []) (a2, [rel])"
    "rel_transition rel = test_step0"
    by (rule test_reach)
  from one_release_per_index [OF mock_app.appliance_chip_axioms r(1) [unfolded test_appliance_def], of rel rel]
    r show ?thesis
    by (intro exI [of _ a2] exI [of _ rel]) (auto simp: test_transition_def)
qed

text \<open>
  C33: an outside counter step retires the anchor. From a reachable state with no committed record
  whose index lies behind the counter, nothing is ever published again.
\<close>

theorem outside_step_retires:
  assumes chip: "appliance_chip P live"
    and run: "(sys_step P live)\<^sup>*\<^sup>* (appliance_new c e g anc q, []) (a, out)"
    and behind: "act_status (active a) \<noteq> Committed"
      "unat (act_u (active a)) < unat (h0 a) - unat (live (tropic a))"
    and later: "(sys_step P live)\<^sup>*\<^sup>* (a, out) (a', out')"
  shows "out' = out \<and> act_status (active a') \<noteq> Committed"
proof -
  obtain A where rep: "represents P live g (a, out) A"
    using appliance_chip.reachable_represents [OF chip run] by blast
  obtain A' where run': "anchor_step\<^sup>*\<^sup>* A A'" and rep': "represents P live g (a', out') A'"
    using appliance_chip.later_represents [OF chip later rep] by blast
  have "retired A"
    using rep behind by (auto simp: represents_def retired_def holds_stage_def chip_index_def split: stage.splits)
  from retired_steps [OF run' this] rep rep' show ?thesis
    by (auto simp: represents_def retired_def holds_stage_def split: stage.splits)
qed

theorem outside_step_retires_witness:
  "let a = (test_appliance 100)\<lparr>tropic := \<lparr> mock_h = 99, mock_secret = fill32 0 \<rparr>\<rparr>
   in act_status (active (snd (commit test_platform
        (snd (prepare test_platform test_step0 (fill32 0x55) a))))) \<noteq> Committed"
proof -
  let ?a = "(test_appliance 100)\<lparr>tropic := \<lparr> mock_h = 99, mock_secret = fill32 0 \<rparr>\<rparr>"
  let ?a' = "snd (commit test_platform (snd (prepare test_platform test_step0 (fill32 0x55) ?a)))"
  have run: "(sys_step test_platform mock_h)\<^sup>*\<^sup>* (test_appliance 100, []) (?a, [])"
    by (intro r_into_rtranclp sys_step.chip) (simp add: test_appliance_def appliance_new_def)
  have later: "(sys_step test_platform mock_h)\<^sup>*\<^sup>* (?a, []) (?a', [])"
    by (meson sys_step.prepare sys_step.commit r_into_rtranclp rtranclp_snoc2)
  have "act_status (active ?a) \<noteq> Committed"
    and "unat (act_u (active ?a)) < unat (h0 ?a) - unat (mock_h (tropic ?a))"
    by (simp_all add: test_appliance_def appliance_new_def)
  from outside_step_retires [OF mock_app.appliance_chip_axioms run [unfolded test_appliance_def]
      this [unfolded test_appliance_def] later [unfolded test_appliance_def]]
  show ?thesis by (simp add: test_appliance_def)
qed

end
