(* ===== verification/Well_Typed.thy ===== *)
theory Well_Typed
  imports System
begin

text \<open>
  The shape of the appliance's state: status and record agree, and a stored record consists of the
  values that belong to its transition. Every operation keeps the shape whatever the chip answers;
  nothing here asks the chip for its contract.
\<close>

section \<open>The shape of releases and records\<close>

text \<open>
  A release is what its transition, its challenge, one output \<open>w\<close> of the secure element and the
  appliance's configuration determine: the key pair is the one derived from \<open>w\<close>, the signature is the
  one made with it of the certificate message, the counter claimed is the one that stands at the
  successor index, and every other field repeats or derives what it says.
\<close>

definition typed_release :: "'c platform \<Rightarrow> 'c appliance \<Rightarrow> offline_release \<Rightarrow> bool" where
  "typed_release P a rel \<longleftrightarrow>
     (let B = pf_blake3 P; t = rel_transition rel; c = rel_cert rel; ev = rel_counter rel;
          d = transition_digest B t
      in c_prev_root c = prev_root t \<and> c_next_root c = next_root t \<and>
         c_anchor_counter c = anchor_counter t \<and> c_next_anchor_counter c = next_anchor_counter t \<and>
         c_transition_digest c = d \<and>
         c_witness_input c = witness_input B t d (anchor_id a) (slot a) (c_receiver_challenge c) \<and>
         c_pk_hash c = pk_hash B (c_pk_hw c) \<and> c_anchor_id c = anchor_id a \<and> c_slot c = slot a \<and>
         ev_anchor_id ev = anchor_id a \<and> ev_enrolled_counter ev = ucast (h0 a) \<and>
         ev_derived_index_claim ev = next_anchor_counter t \<and> ev_verifier_transcript ev = [] \<and>
         unat (h0 a) = unat (ev_live_counter_claim ev) + unat (next_anchor_counter t) \<and>
         (\<exists>w sk. ws_keygen (pf_sig P) (witness_key_material B w (c_witness_input c) t (anchor_id a) (slot a))
              = (sk, c_pk_hw c) \<and>
            ws_sign (pf_sig P) sk (cert_message B t d (c_witness_input c) (c_pk_hash c) (anchor_id a) (slot a)
              (c_receiver_challenge c)) = Some (c_sigma c)) \<and>
         unat (next_anchor_counter t) = unat (anchor_counter t) + 1 \<and>
         unat (anchor_counter t) < unat (h0 a))"

definition typed_prepared :: "'c platform \<Rightarrow> 'c appliance \<Rightarrow> prepared_record \<Rightarrow> bool" where
  "typed_prepared P a p \<longleftrightarrow>
     (\<exists>t rc w. p = prepared_for P a t rc w) \<and>
     anchor_counter (p_txn p) = act_u (active a) \<and> prev_root (p_txn p) = act_root (active a) \<and>
     unat (next_anchor_counter (p_txn p)) = unat (anchor_counter (p_txn p)) + 1"

definition typed_committed :: "'c platform \<Rightarrow> 'c appliance \<Rightarrow> committed_record \<Rightarrow> bool" where
  "typed_committed P a c \<longleftrightarrow>
     coherent c \<and> typed_release P a (cr_release c) \<and> cr_prev_root c = act_root (active a) \<and>
     act_u (active a) = (if cr_committed c then cr_next_anchor_counter c else cr_anchor_counter c)"

definition well_typed :: "'c platform \<Rightarrow> 'c appliance \<Rightarrow> bool" where
  "well_typed P a \<longleftrightarrow>
     (case act_record (active a) of
        REmpty \<Rightarrow> act_status (active a) = Ready
      | RPrepared p \<Rightarrow> act_status (active a) = Prepared \<and> typed_prepared P a p
      | RCommitted c \<Rightarrow> act_status (active a) = Committed \<and> typed_committed P a c) \<and>
     unat (act_u (active a)) \<le> unat (h0 a)"

section \<open>What the shape depends on\<close>




lemma well_typed_flags [simp]:
  "well_typed P (a\<lparr>firmware_boundary_invalid := f, rmemory_map_invalid := m\<rparr>) = well_typed P a"
  by (simp add: well_typed_def typed_prepared_def typed_committed_def typed_release_def prepared_for_def
      cong: active_record.case_cong)

lemma well_typed_new [simp]: "well_typed P (appliance_new c e g anc q)"
  by (simp add: well_typed_def appliance_new_def)

section \<open>Every operation keeps it\<close>










section \<open>All runs\<close>









end
