(* ===== verification/Operation_Specs.thy ===== *)
theory Operation_Specs
  imports Lifecycle Accept
begin

text \<open>
  The results of \<open>prepare\<close>, \<open>commit\<close> and \<open>finalize\<close> on every branch, as ordered lists of guards
  over natural numbers, on a chip that answers every call.
\<close>

section \<open>The guards\<close>

text \<open>The index of the active record is the one the counter shows: \<open>H0 = H + u\<close>.\<close>

definition at_index :: "('c \<Rightarrow> u32) \<Rightarrow> 'c appliance \<Rightarrow> u64 \<Rightarrow> bool" where
  "at_index live a u \<longleftrightarrow> unat (h0 a) = unat (live (tropic a)) + unat u"

definition prepare_guards ::
    "('c \<Rightarrow> u32) \<Rightarrow> 'c appliance \<Rightarrow> transition \<Rightarrow> (bool \<times> appliance_error) list" where
  "prepare_guards live a t =
     [(act_status (active a) = Ready, WrongState),
      (prev_root t = act_root (active a), PrevRootMismatch),
      (anchor_counter t = act_u (active a), IndexMismatch),
      (unat (next_anchor_counter t) = unat (anchor_counter t) + 1, IndexMismatch),
      (at_index live a (act_u (active a)), CounterMismatch)]"

definition commit_guards ::
    "('c \<Rightarrow> u32) \<Rightarrow> 'c appliance \<Rightarrow> (bool \<times> appliance_error) list" where
  "commit_guards live a =
     (case act_record (active a) of
        RPrepared p \<Rightarrow>
          [(p_sk_hw p \<noteq> [], WitnessKeyLost),
           (prev_root (p_txn p) = act_root (active a), PrevRootMismatch),
           (live (tropic a) \<noteq> 0, CounterExhausted),
           (at_index live a (anchor_counter (p_txn p)), CounterMismatch)]
      | _ \<Rightarrow> [(False, WrongState)])"

definition finalize_guards ::
    "('c \<Rightarrow> u32) \<Rightarrow> 'c appliance \<Rightarrow> (bool \<times> appliance_error) list" where
  "finalize_guards live a =
     [(\<exists>c. act_record (active a) = RCommitted c \<and> cr_committed c, NotCommitted),
      (at_index live a (act_u (active a)), CounterMismatch)]"

section \<open>What is stored\<close>

text \<open>
  The record of a committed transfer, field by field: the transition of the prepared record, its
  digests, key and challenge, the signature, the configuration, and the counter as it stands after
  the step.
\<close>

definition records_commit ::
    "('c \<Rightarrow> u32) \<Rightarrow> 'c appliance \<Rightarrow> prepared_record \<Rightarrow> byte list \<Rightarrow> committed_record \<Rightarrow> bool" where
  "records_commit live a p sigma c \<longleftrightarrow>
     (let t = p_txn p; cert = rel_cert (cr_release c); ev = rel_counter (cr_release c) in
      cr_committed c \<and> cr_prev_root c = prev_root t \<and> cr_next_root c = next_root t \<and>
      cr_anchor_counter c = anchor_counter t \<and> cr_next_anchor_counter c = next_anchor_counter t \<and>
      rel_transition (cr_release c) = t \<and>
      c_prev_root cert = prev_root t \<and> c_next_root cert = next_root t \<and>
      c_anchor_counter cert = anchor_counter t \<and> c_next_anchor_counter cert = next_anchor_counter t \<and>
      c_transition_digest cert = p_digest p \<and> c_witness_input cert = p_witness_input p \<and>
      c_pk_hash cert = p_p_hw p \<and> c_pk_hw cert = p_pk_hw p \<and> c_sigma cert = sigma \<and>
      c_anchor_id cert = anchor_id a \<and> c_slot cert = slot a \<and>
      c_receiver_challenge cert = p_receiver_challenge p \<and>
      ev_anchor_id ev = anchor_id a \<and> unat (ev_enrolled_counter ev) = unat (h0 a) \<and>
      unat (ev_live_counter_claim ev) + 1 = unat (live (tropic a)) \<and>
      ev_derived_index_claim ev = next_anchor_counter t \<and> ev_verifier_transcript ev = [])"

section \<open>The operations against their guards\<close>

context reliable_appliance
begin

lemma live_index_result:
  shows "at_index live a u \<longleftrightarrow> fst (live_index P a) = Inr u"
    and "fst (live_index P a) = Inl e \<Longrightarrow> e = CounterMismatch"
proof -
  obtain ch where cg: "counter_get (pf_tropic P) (tropic a) = (Inr (live (tropic a)), ch)"
    using get_answers [of "tropic a"] by (metis prod.collapse)
  show "at_index live a u \<longleftrightarrow> fst (live_index P a) = Inr u"
    using u32_index_iff [of "h0 a" "live (tropic a)" u] cg
    by (auto simp: at_index_def live_index_def split: option.splits)
  show "fst (live_index P a) = Inl e \<Longrightarrow> e = CounterMismatch"
    using cg by (auto simp: live_index_def split: option.splits)
qed

lemma prepare_result:
  assumes index: "unat (act_u (active a)) \<le> unat (h0 a)" and fits: "pf_debug P \<longrightarrow> enc_fits t"
  shows "fst (prepare P t rc a) = first_failure (prepare_guards live a t)"
proof -
  obtain r a1 where li: "live_index P a = (r, a1)" by (metis prod.collapse)
  then obtain ch where a1: "a1 = a\<lparr>tropic := ch\<rparr>" by (rule live_indexE)
  have idx: "at_index live a (act_u (active a)) \<longleftrightarrow> r = Inr (act_u (active a))"
    and err: "\<And>e. r = Inl e \<Longrightarrow> e = CounterMismatch"
    using live_index_result [of a] li by simp_all
  have "unat (act_u (active a) + 1) = unat (act_u (active a)) + 1"
    using index unat_u32_less [of "h0 a"] by (simp add: unat_word_ariths)
  then have plus: "plus_u64 (pf_debug P) (act_u (active a)) 1 = Some (act_u (active a) + 1)"
    and succ: "next_anchor_counter t = act_u (active a) + 1 \<longleftrightarrow>
      unat (next_anchor_counter t) = unat (act_u (active a)) + 1"
    by (auto intro: plus_u64_succ simp: word_unat_eq_iff)
  have no_panic: "\<not> (pf_debug P \<and> \<not> enc_fits t)" using fits by blast
  let ?x = "witness_input (pf_blake3 P) t (transition_digest (pf_blake3 P) t) (anchor_id a) (slot a) rc"
  obtain w c where m: "mac_and_destroy (pf_tropic P) (slot a) ?x ch = (Inr w, c)"
    using macd_answers [of "slot a" ?x ch] by (metis prod.collapse)
  show ?thesis
    using li a1 idx err plus succ no_panic m
    by (cases r) (auto simp: prepare_def prepare_guards_def Let_def split: prod.split)
qed

lemma prepare_effect:
  shows "fst (prepare P t rc a) = Done () \<Longrightarrow> \<exists>w c. active (snd (prepare P t rc a)) = (active a)
      \<lparr>act_status := Prepared, act_record := RPrepared (prepared_for P a t rc w)\<rparr> \<and>
      fst (mac_and_destroy (pf_tropic P) (slot a) (p_witness_input (prepared_for P a t rc w)) c) = Inr w"
    and "fst (prepare P t rc a) \<noteq> Done () \<Longrightarrow> active (snd (prepare P t rc a)) = active a"
proof -
  assume "fst (prepare P t rc a) = Done ()"
  then show "\<exists>w c. active (snd (prepare P t rc a)) = (active a)
      \<lparr>act_status := Prepared, act_record := RPrepared (prepared_for P a t rc w)\<rparr> \<and>
      fst (mac_and_destroy (pf_tropic P) (slot a) (p_witness_input (prepared_for P a t rc w)) c) = Inr w"
  proof (cases rule: prepare_cases [where P = P and t = t and rc = rc and a = a])
    case (success ch w ch')
    then show ?thesis by (intro exI [of _ w] exI [of _ ch]) simp
  qed simp
next
  assume "fst (prepare P t rc a) \<noteq> Done ()"
  then show "active (snd (prepare P t rc a)) = active a"
    by (cases rule: prepare_cases [where P = P and t = t and rc = rc and a = a]) auto
qed

lemma commit_result:
  assumes sign: "\<And>p. act_record (active a) = RPrepared p \<Longrightarrow>
      ws_sign (pf_sig P) (p_sk_hw p) (p_cert_message p) \<noteq> None"
  shows "fst (commit P a) = first_failure (commit_guards live a)"
proof (cases "act_record (active a)")
  case (RPrepared p)
  obtain ch where cg: "counter_get (pf_tropic P) (tropic a) = (Inr (live (tropic a)), ch)"
    using get_answers [of "tropic a"] by (metis prod.collapse)
  have live: "live ch = live (tropic a)" using get_frame [of "tropic a"] cg by simp
  obtain sigma where sigma: "ws_sign (pf_sig P) (p_sk_hw p) (p_cert_message p) = Some sigma"
    using sign [OF RPrepared] by blast
  let ?n = "anchor_counter (p_txn p)"
  have idx: "at_index live a ?n \<longleftrightarrow> (\<exists>u. checked_sub (h0 a) (live (tropic a)) = Some u \<and> ucast u = ?n)"
    by (simp add: at_index_def u32_index_iff)
  show ?thesis
  proof (cases "live (tropic a) = 0")
    case True
    with RPrepared cg show ?thesis
      by (simp add: commit_def commit_phase1_def commit_guards_def)
  next
    case False
    then obtain c where upd: "counter_update (pf_tropic P) ch = (Inr (), c)"
      using update_answers [of ch] live by (metis prod.collapse)
    with False RPrepared cg sigma idx show ?thesis
      by (auto simp: commit_def commit_phase1_def commit_phase2_def commit_guards_def Let_def
          split: option.split)
  qed
qed (simp_all add: commit_def commit_phase1_def commit_guards_def)

lemma records_commit_candidate:
  assumes "commit_ready P a p hv ch sigma"
  shows "records_commit live a p sigma ((candidate a p sigma hv)\<lparr>cr_committed := True\<rparr>)"
proof -
  have "hv \<noteq> 0" using assms by (simp add: commit_ready_def)
  from unat_pred [OF this] have "unat (ucast (hv - 1) :: u64) + 1 = unat hv"
    by (simp only: unat_u32_as_u64)
  with commit_ready_live(2) [OF assms] show ?thesis
    by (simp add: records_commit_def commit_release_def Let_def unat_u32_as_u64)
qed

lemma commit_effect:
  shows "fst (commit P a) = Done () \<Longrightarrow> \<exists>p sigma c. act_record (active a) = RPrepared p \<and>
      ws_sign (pf_sig P) (p_sk_hw p) (p_cert_message p) = Some sigma \<and> records_commit live a p sigma c \<and>
      active (snd (commit P a)) = \<lparr> act_root = act_root (active a), act_u = next_anchor_counter (p_txn p),
        act_status = Committed, act_record = RCommitted c \<rparr> \<and>
      unat (live (tropic a)) = unat (live (tropic (snd (commit P a)))) + 1"
    and "fst (commit P a) \<noteq> Done () \<Longrightarrow> active (snd (commit P a)) = active a \<and>
      live (tropic (snd (commit P a))) = live (tropic a)"
proof -
  assume fin: "fst (commit P a) = Done ()"
  show "\<exists>p sigma c. act_record (active a) = RPrepared p \<and>
      ws_sign (pf_sig P) (p_sk_hw p) (p_cert_message p) = Some sigma \<and> records_commit live a p sigma c \<and>
      active (snd (commit P a)) = \<lparr> act_root = act_root (active a), act_u = next_anchor_counter (p_txn p),
        act_status = Committed, act_record = RCommitted c \<rparr> \<and>
      unat (live (tropic a)) = unat (live (tropic (snd (commit P a)))) + 1"
    using fin
  proof (cases P a rule: commit_cases)
    case (success p hv ch sigma ch' u)
    from success(1) have p: "act_record (active a) = RPrepared p"
      "ws_sign (pf_sig P) (p_sk_hw p) (p_cert_message p) = Some sigma"
      by (simp_all add: commit_ready_def)
    have "unat (live (tropic a)) = unat (live ch') + 1"
      using update_step [OF success(2)] commit_ready_live(1) [OF success(1)] by simp
    with p records_commit_candidate [OF success(1)] show ?thesis
      by (intro exI [of _ p] exI [of _ sigma] exI [of _ "(candidate a p sigma hv)\<lparr>cr_committed := True\<rparr>"])
        (simp add: success(3) mark_committed_def store_candidate_def)
  qed simp_all
next
  assume err: "fst (commit P a) \<noteq> Done ()"
  show "active (snd (commit P a)) = active a \<and> live (tropic (snd (commit P a))) = live (tropic a)"
    using err
  proof (cases P a rule: commit_cases)
    case (unmoved p hv ch sigma ch' e)
    then have "live ch \<noteq> 0" using commit_ready_live(1,2) [OF unmoved(1)] by (simp add: commit_ready_def)
    with update_answers [of ch] unmoved(2) show ?thesis by simp
  next
    case stopped
    then show ?thesis using commit_phase1_live [of a] by simp
  qed simp
qed

lemma finalize_result:
  "fst (finalize P a) =
     (case first_failure (finalize_guards live a) of
        Done _ \<Rightarrow> (case act_record (active a) of RCommitted c \<Rightarrow> Inr (cr_next_root c) | _ \<Rightarrow> Inl NotCommitted)
      | Fail e \<Rightarrow> Inl e
      | Panic \<Rightarrow> Inl NotCommitted)"
proof -
  obtain r a1 where li: "live_index P a = (r, a1)" by (metis prod.collapse)
  then obtain ch where a1: "a1 = a\<lparr>tropic := ch\<rparr>" by (rule live_indexE)
  have "at_index live a (act_u (active a)) \<longleftrightarrow> r = Inr (act_u (active a))"
    and "\<And>e. r = Inl e \<Longrightarrow> e = CounterMismatch"
    using live_index_result [of a] li by simp_all
  with li a1 show ?thesis
    by (cases r) (auto simp: finalize_def finalize_guards_def split: active_record.split)
qed

end

section \<open>Properties\<close>

text \<open>
  \<open>finalize\<close> on every branch. On an answering chip it refuses without a confirmed commit, then
  when the active index differs from the counter's; otherwise it returns the successor root. In
  every case it stores exactly what it returns: the new root with status Ready, or no change.
\<close>

lemma finalize_meets_spec:
  assumes ra: "reliable_appliance P live"
  shows "case first_failure (finalize_guards live a) of
      Done _ \<Rightarrow> (\<exists>c. act_record (active a) = RCommitted c \<and> fst (finalize P a) = Inr (cr_next_root c) \<and>
        active (snd (finalize P a)) =
          \<lparr> act_root = cr_next_root c, act_u = act_u (active a), act_status = Ready, act_record = REmpty \<rparr>)
    | Fail e \<Rightarrow> fst (finalize P a) = Inl e \<and> active (snd (finalize P a)) = active a
    | Panic \<Rightarrow> False"
proof -
  note res = reliable_appliance.finalize_result [OF ra, of a]
  show ?thesis
  proof (cases rule: finalize_cases [of P a])
    case (success c ch)
    have "at_index live a (act_u (active a))"
      using reliable_appliance.live_index_result(1) [OF ra, of a] success(4) by simp
    then have "first_failure (finalize_guards live a) = Done ()"
      using success(2,3) by (simp add: finalize_guards_def)
    with success(1,2) show ?thesis by simp
  next
    case (stopped e)
    show ?thesis
    proof (cases "first_failure (finalize_guards live a)")
      case (Done u)
      then have "\<exists>c. act_record (active a) = RCommitted c"
        by (auto simp: finalize_guards_def split: if_splits)
      with res Done stopped(1) show ?thesis by auto
    next
      case (Fail e')
      with res stopped(2) show ?thesis by simp
    next
      case Panic
      then show ?thesis by (simp add: finalize_guards_def split: if_splits)
    qed
  qed
qed

text \<open>
  C37: the operations on every branch. On an answering chip, in a state whose index is within the
  enrolled range (as it is in every reachable state), with a package that fits its length fields in
  a debug build and a scheme that signs with the stored key, \<open>prepare\<close>, \<open>commit\<close> and \<open>finalize\<close> return
  what ordered lists of guards over natural numbers say: the first guard that fails gives the error,
  and the operation succeeds when all hold. An operation that is refused leaves the active state
  alone, and \<open>commit\<close> then the counter too. What success stores is given field by field: the prepared
  record for one output of the secure element; the marked release of the prepared transfer with its
  signature, at the successor index, one counter step on; the successor root with status Ready.
\<close>

theorem operations_meet_spec:
  assumes ra: "reliable_appliance P live"
    and index: "unat (act_u (active a)) \<le> unat (h0 a)"
    and fits: "pf_debug P \<longrightarrow> enc_fits t"
    and sign: "\<And>p. act_record (active a) = RPrepared p \<Longrightarrow>
      ws_sign (pf_sig P) (p_sk_hw p) (p_cert_message p) \<noteq> None"
  shows "fst (prepare P t rc a) = first_failure (prepare_guards live a t) \<and>
    (case first_failure (prepare_guards live a t) of
      Done _ \<Rightarrow> (\<exists>w c. active (snd (prepare P t rc a)) = (active a)
          \<lparr>act_status := Prepared, act_record := RPrepared (prepared_for P a t rc w)\<rparr> \<and>
        fst (mac_and_destroy (pf_tropic P) (slot a) (p_witness_input (prepared_for P a t rc w)) c) = Inr w)
    | _ \<Rightarrow> active (snd (prepare P t rc a)) = active a) \<and>
    fst (commit P a) = first_failure (commit_guards live a) \<and>
    (case first_failure (commit_guards live a) of
      Done _ \<Rightarrow> (\<exists>p sigma c. act_record (active a) = RPrepared p \<and>
        ws_sign (pf_sig P) (p_sk_hw p) (p_cert_message p) = Some sigma \<and> records_commit live a p sigma c \<and>
        active (snd (commit P a)) = \<lparr> act_root = act_root (active a), act_u = next_anchor_counter (p_txn p),
          act_status = Committed, act_record = RCommitted c \<rparr> \<and>
        unat (live (tropic a)) = unat (live (tropic (snd (commit P a)))) + 1)
    | _ \<Rightarrow> active (snd (commit P a)) = active a \<and> live (tropic (snd (commit P a))) = live (tropic a)) \<and>
    (case first_failure (finalize_guards live a) of
      Done _ \<Rightarrow> (\<exists>c. act_record (active a) = RCommitted c \<and> fst (finalize P a) = Inr (cr_next_root c) \<and>
        active (snd (finalize P a)) =
          \<lparr> act_root = cr_next_root c, act_u = act_u (active a), act_status = Ready, act_record = REmpty \<rparr>)
    | Fail e \<Rightarrow> fst (finalize P a) = Inl e \<and> active (snd (finalize P a)) = active a
    | Panic \<Rightarrow> False)"
proof -
  note p = reliable_appliance.prepare_result [OF ra index fits, of rc]
  note c = reliable_appliance.commit_result [OF ra sign]
  have "case first_failure (prepare_guards live a t) of
      Done _ \<Rightarrow> (\<exists>w c. active (snd (prepare P t rc a)) = (active a)
          \<lparr>act_status := Prepared, act_record := RPrepared (prepared_for P a t rc w)\<rparr> \<and>
        fst (mac_and_destroy (pf_tropic P) (slot a) (p_witness_input (prepared_for P a t rc w)) c) = Inr w)
    | _ \<Rightarrow> active (snd (prepare P t rc a)) = active a"
    using reliable_appliance.prepare_effect [OF ra, of t rc a] p by (simp split: outcome.split)
  moreover have "case first_failure (commit_guards live a) of
      Done _ \<Rightarrow> (\<exists>p sigma c. act_record (active a) = RPrepared p \<and>
        ws_sign (pf_sig P) (p_sk_hw p) (p_cert_message p) = Some sigma \<and> records_commit live a p sigma c \<and>
        active (snd (commit P a)) = \<lparr> act_root = act_root (active a), act_u = next_anchor_counter (p_txn p),
          act_status = Committed, act_record = RCommitted c \<rparr> \<and>
        unat (live (tropic a)) = unat (live (tropic (snd (commit P a)))) + 1)
    | _ \<Rightarrow> active (snd (commit P a)) = active a \<and> live (tropic (snd (commit P a))) = live (tropic a)"
    using reliable_appliance.commit_effect [OF ra, of a] c by (simp split: outcome.split)
  ultimately show ?thesis using p c finalize_meets_spec [OF ra, of a] by blast
qed

text \<open>A wrong index, a counter that has moved, and operations without their predecessors.\<close>

theorem operations_meet_spec_witness:
  "fst (prepare test_platform (test_transition (fill32 0x11) (fill32 0x22) 5) (fill32 0x55) (test_appliance 100))
     = Fail IndexMismatch \<and>
   fst (prepare test_platform test_step0 (fill32 0x55) (test_appliance 99)) = Fail CounterMismatch \<and>
   fst (prepare test_platform test_step0 (fill32 0x55) (test_appliance 100)) = Done () \<and>
   fst (commit test_platform (test_appliance 100)) = Fail WrongState \<and>
   fst (finalize test_platform (test_appliance 100)) = Inl NotCommitted"
proof -
  have sign: "ws_sign (pf_sig test_platform) (p_sk_hw p) (p_cert_message p) \<noteq> None"
    if "act_record (active (test_appliance h)) = RPrepared p" for h p
    using that by (simp add: test_appliance_def appliance_new_def)
  have index: "unat (act_u (active (test_appliance h))) \<le> unat (h0 (test_appliance h))" for h
    by (simp add: test_appliance_def appliance_new_def)
  have fits: "pf_debug test_platform \<longrightarrow> enc_fits (test_transition (fill32 0x11) (fill32 0x22) u)" for u
    by (simp add: test_transition_fits)
  have spec: "fst (prepare test_platform (test_transition (fill32 0x11) (fill32 0x22) u) (fill32 0x55) (test_appliance h)) =
        first_failure (prepare_guards mock_h (test_appliance h) (test_transition (fill32 0x11) (fill32 0x22) u))"
      "fst (commit test_platform (test_appliance h)) = first_failure (commit_guards mock_h (test_appliance h))"
      "case first_failure (finalize_guards mock_h (test_appliance h)) of Done _ \<Rightarrow> True
        | Fail e \<Rightarrow> fst (finalize test_platform (test_appliance h)) = Inl e | Panic \<Rightarrow> True" for u h
    using operations_meet_spec [OF mock_rel.reliable_appliance_axioms index [of h] fits [of u] sign [of h],
        of "fill32 0x55"]
    by (auto split: outcome.splits)
  from spec(1) [of 5 100] spec(2,3) [of 100] spec(1) [of 0 99] spec(1) [of 0 100] show ?thesis
    by (simp add: prepare_guards_def commit_guards_def finalize_guards_def at_index_def test_appliance_def
        appliance_new_def) (simp add: test_transition_def)
qed

end
