(* ===== verification/Crash_Recovery.thy ===== *)
theory Crash_Recovery
  imports System
begin

text \<open>
  Power loss and failed counter moves: \<open>recover\<close> brings an interrupted commit to the state the
  uninterrupted one reaches, once, and never makes a second release.
\<close>

section \<open>Recovering a candidate\<close>

context reliable_appliance
begin

text \<open>\<open>recover\<close> on a stored candidate, with the counter before or after its step.\<close>

lemma recover_candidate:
  assumes rec: "act_record (active a) = RCommitted c" and st: "act_status (active a) = Committed"
    and flags: "\<not> firmware_boundary_invalid a" "\<not> rmemory_map_invalid a"
    and prev: "cr_prev_root c = act_root (active a)"
    and succ: "unat (cr_next_anchor_counter c) = unat (cr_anchor_counter c) + 1"
    and at: "unat (h0 a) = unat (live (tropic a)) + unat (cr_next_anchor_counter c) \<or>
      (\<not> cr_committed c \<and> live (tropic a) \<noteq> 0 \<and>
       unat (h0 a) = unat (live (tropic a)) + unat (cr_anchor_counter c))"
  shows "\<exists>ch. recover P a = (ReemitCommitted (cr_next_root c),
      mark_committed (cr_next_anchor_counter c) (a\<lparr>tropic := ch\<rparr>)) \<and>
      unat (h0 a) = unat (live ch) + unat (cr_next_anchor_counter c)"
  using at
proof
  assume moved: "unat (h0 a) = unat (live (tropic a)) + unat (cr_next_anchor_counter c)"
  obtain ch where li: "live_index P a = (Inr (cr_next_anchor_counter c), a\<lparr>tropic := ch\<rparr>)"
      "live ch = live (tropic a)"
    using live_index_answers [OF moved] by blast
  have "recover P a = (ReemitCommitted (cr_next_root c),
      mark_committed (cr_next_anchor_counter c) (a\<lparr>tropic := ch\<rparr>))"
    using rec st flags li by (simp add: recover_def recover_committed_def mark_committed_again Let_def)
  with moved li(2) show ?thesis by auto
next
  assume unmoved: "\<not> cr_committed c \<and> live (tropic a) \<noteq> 0 \<and>
      unat (h0 a) = unat (live (tropic a)) + unat (cr_anchor_counter c)"
  then obtain ch where li: "live_index P a = (Inr (cr_anchor_counter c), a\<lparr>tropic := ch\<rparr>)"
      "live ch = live (tropic a)"
    using live_index_answers by blast
  obtain ch' where upd: "counter_update (pf_tropic P) ch = (Inr (), ch')"
    using update_answers [of ch] unmoved li(2) by (metis prod.collapse)
  have next_c: "cr_next_anchor_counter c = cr_anchor_counter c + 1"
    using succ live_index_succ(2) [OF li(1)] by (simp add: word_unat_eq_iff [where 'a = 64])
  have "recover P a = (ReemitCommitted (cr_next_root c),
      mark_committed (cr_next_anchor_counter c) (a\<lparr>tropic := ch'\<rparr>))"
    using rec st flags li upd unmoved next_c prev by (simp add: recover_def recover_committed_def Let_def)
  moreover have "unat (h0 a) = unat (live ch') + unat (cr_next_anchor_counter c)"
    using unmoved succ update_step [OF upd] li(2) by simp
  ultimately show ?thesis by blast
qed

text \<open>
  A commit cut off after its candidate was stored, with the counter moved or not, then a reboot.
\<close>

lemma interrupted_commit:
  assumes p1: "commit_phase1 P a = (Done (), a1)" and rec: "act_record (active a) = RPrepared p"
    and succ: "unat (next_anchor_counter (p_txn p)) = unat (anchor_counter (p_txn p)) + 1"
    and flags: "\<not> firmware_boundary_invalid a" "\<not> rmemory_map_invalid a"
    and cut: "live c = live (tropic a) \<or> unat (live (tropic a)) = Suc (unat (live c))"
  shows "\<exists>a2 a3. commit P a = (Done (), a2) \<and>
    recover P (a1\<lparr>tropic := c\<rparr>) = (ReemitCommitted (next_root (p_txn p)), a3) \<and>
    active a3 = active a2 \<and> live (tropic a3) = live (tropic a2)"
proof -
  obtain p' hv ch sigma where ready': "commit_ready P a p' hv ch sigma"
    using p1 commit_phase1_Done_iff [of P a] by auto
  with rec have ready: "commit_ready P a p hv ch sigma" by (simp add: commit_ready_def)
  note lv = commit_ready_live [OF ready]
  let ?c = "candidate a p sigma hv"
  have a1: "a1 = store_candidate ?c ch a" using p1 commit_phase1_of_ready [OF ready] by simp
  have nz: "hv \<noteq> 0" and prev: "prev_root (p_txn p) = act_root (active a)"
    and index: "unat (h0 a) = unat hv + unat (anchor_counter (p_txn p))"
    using ready by (simp_all add: commit_ready_def)
  obtain ch' where upd: "counter_update (pf_tropic P) ch = (Inr (), ch')"
    using update_answers [of ch] nz lv(1,2) by (metis prod.collapse)
  have com: "commit P a = (Done (), mark_committed (next_anchor_counter (p_txn p)) (store_candidate ?c ch' a))"
    using commit_of_ready [OF ready upd] by simp
  let ?b = "store_candidate ?c c a"
  have at: "unat (h0 ?b) = unat (live (tropic ?b)) + unat (cr_next_anchor_counter ?c) \<or>
      (\<not> cr_committed ?c \<and> live (tropic ?b) \<noteq> 0 \<and>
       unat (h0 ?b) = unat (live (tropic ?b)) + unat (cr_anchor_counter ?c))"
    using cut index succ nz lv(2) by auto
  have fl: "\<not> firmware_boundary_invalid ?b" "\<not> rmemory_map_invalid ?b"
    using flags by (simp_all add: store_candidate_def)
  obtain ch3 where r: "recover P ?b = (ReemitCommitted (cr_next_root ?c),
      mark_committed (cr_next_anchor_counter ?c) (?b\<lparr>tropic := ch3\<rparr>))"
      "unat (h0 ?b) = unat (live ch3) + unat (cr_next_anchor_counter ?c)"
    using recover_candidate [OF _ _ fl _ _ at] succ prev by auto
  have "unat (live ch3) = unat (live ch')"
    using r(2) index succ update_step [OF upd] lv(1,2) by simp
  then have "live ch3 = live ch'" by (simp add: word_unat_eq_iff)
  moreover have "a1\<lparr>tropic := c\<rparr> = ?b" by (simp add: a1)
  moreover have "active (mark_committed u (store_candidate ?c ch3 a))
      = active (mark_committed u (store_candidate ?c ch' a))" for u
    by (simp add: mark_committed_def store_candidate_def)
  ultimately show ?thesis using com r(1) by auto
qed

end

section \<open>A closed example\<close>

text \<open>A prepared appliance of the host tests, and its stored candidate.\<close>

lemma test_prepared:
  obtains a a1 where
    "prepare test_platform test_step0 (fill32 0x55) (test_appliance 100) = (Done (), a)"
    and "commit_phase1 test_platform a = (Done (), a1)"
    and "(sys_step test_platform mock_h)\<^sup>*\<^sup>* (test_appliance 100, []) (a, [])"
    and "mock_h (tropic a) = 100" and "\<forall>p. act_record (active a) = RPrepared p \<longrightarrow> p_txn p = test_step0"
    and "\<not> firmware_boundary_invalid a" and "\<not> rmemory_map_invalid a"
proof -
  obtain a a2 where r: "prepare test_platform test_step0 (fill32 0x55) (test_appliance 100) = (Done (), a)"
    "commit test_platform a = (Done (), a2)"
    by (rule test_run)
  have run: "(sys_step test_platform mock_h)\<^sup>*\<^sup>* (test_appliance 100, []) (a, [])"
    using sys_step.prepare [of test_platform mock_h "test_appliance 100" "[]" test_step0 "fill32 0x55"] r(1)
    by auto
  obtain a1 where p1: "commit_phase1 test_platform a = (Done (), a1)"
    using commit_DoneE [OF r(2)] commit_phase1_of_ready by metis
  have "mock_h (tropic a) = 100"
    using mock_app.prepare_live [of True sample_blake3 test_step0 "fill32 0x55" "test_appliance 100"] r(1)
    by (simp add: test_appliance_def appliance_new_def)
  moreover obtain w ch where a: "a = (test_appliance 100)\<lparr>tropic := ch, active := (active (test_appliance 100))
      \<lparr>act_status := Prepared,
       act_record := RPrepared (prepared_for test_platform (test_appliance 100) test_step0 (fill32 0x55) w)\<rparr>\<rparr>"
    by (rule prepare_DoneE [OF r(1)])
  then have "\<not> firmware_boundary_invalid a" "\<not> rmemory_map_invalid a"
    by (simp_all add: test_appliance_def appliance_new_def)
  moreover have "\<forall>p. act_record (active a) = RPrepared p \<longrightarrow> p_txn p = test_step0"
    using a by auto
  ultimately show ?thesis using r(1) p1 run by (intro that)
qed

section \<open>Properties\<close>

text \<open>
  C9: an interrupted commit is completed by recovery. In a reachable state over an answering chip,
  when phase 1 of \<open>commit\<close> has stored its candidate and power is lost, before or after the counter
  step, then \<open>recover\<close> at the next boot reports the committed successor and leaves the active
  record, flag, index and root, and the counter value, exactly as an uninterrupted \<open>commit\<close>
  would have.
\<close>

theorem interrupted_commit_completes:
  assumes ra: "reliable_appliance P live"
    and run: "(sys_step P live)\<^sup>*\<^sup>* (appliance_new c0 e g anc q, []) (a, out)"
    and p1: "commit_phase1 P a = (Done (), a1)"
    and flags: "\<not> firmware_boundary_invalid a" "\<not> rmemory_map_invalid a"
    and cut: "live c = live (tropic a) \<or> unat (live (tropic a)) = Suc (unat (live c))"
  shows "\<exists>a2 a3 h. commit P a = (Done (), a2) \<and>
    recover P (a1\<lparr>tropic := c\<rparr>) = (ReemitCommitted h, a3) \<and>
    active a3 = active a2 \<and> live (tropic a3) = live (tropic a2)"
proof -
  have chip: "appliance_chip P live" using ra by (simp add: reliable_appliance_def)
  obtain p where rec: "act_record (active a) = RPrepared p"
    using p1 by (auto simp: commit_phase1_def split: active_record.splits)
  obtain A where "represents P live g (a, out) A"
    using appliance_chip.reachable_represents [OF chip run] by blast
  from represents_stage(1) [OF this rec]
  have "unat (next_anchor_counter (p_txn p)) = unat (anchor_counter (p_txn p)) + 1"
    by (simp add: next_step_def)
  from reliable_appliance.interrupted_commit [OF ra p1 rec this flags cut] show ?thesis by blast
qed

theorem interrupted_commit_completes_witness:
  "\<exists>a a1 a3 h. prepare test_platform test_step0 (fill32 0x55) (test_appliance 100) = (Done (), a) \<and>
     commit_phase1 test_platform a = (Done (), a1) \<and>
     recover test_platform (a1\<lparr>tropic := \<lparr> mock_h = 99, mock_secret = fill32 0xC0 \<rparr>\<rparr>)
       = (ReemitCommitted h, a3)"
proof -
  obtain a a1 where r: "prepare test_platform test_step0 (fill32 0x55) (test_appliance 100) = (Done (), a)"
    "commit_phase1 test_platform a = (Done (), a1)"
    "(sys_step test_platform mock_h)\<^sup>*\<^sup>* (test_appliance 100, []) (a, [])"
    "mock_h (tropic a) = 100" "\<not> firmware_boundary_invalid a" "\<not> rmemory_map_invalid a"
    by (rule test_prepared)
  have "\<exists>a2 a3 h. commit test_platform a = (Done (), a2) \<and>
      recover test_platform (a1\<lparr>tropic := \<lparr> mock_h = 99, mock_secret = fill32 0xC0 \<rparr>\<rparr>)
        = (ReemitCommitted h, a3) \<and> active a3 = active a2 \<and> mock_h (tropic a3) = mock_h (tropic a2)"
    by (rule interrupted_commit_completes [OF mock_rel.reliable_appliance_axioms
          r(3) [unfolded test_appliance_def] r(2,5,6)]) (simp add: r(4))
  with r(1,2) show ?thesis by blast
qed

text \<open>
  Recovery is idempotent. After a recovery that re-emits a committed successor, running
  \<open>recover\<close> again moves no counter and changes nothing in the active record; it reports the same
  successor, or, when the chip does not answer, a downgrade.
\<close>

lemma recover_idempotent:
  assumes chip: "appliance_chip P live"
    and first: "recover P a = (ReemitCommitted r, a1)" and again: "recover P a1 = (out, a2)"
  shows "live (tropic a2) = live (tropic a1) \<and> active a2 = active a1 \<and>
    (out = ReemitCommitted r \<or> out = DowngradeOnline)"
proof -
  obtain c ch where c: "act_record (active a) = RCommitted c" "act_status (active a) = Committed"
    "r = cr_next_root c" "a1 = mark_committed (cr_next_anchor_counter c) (a\<lparr>tropic := ch\<rparr>)"
    by (rule appliance_chip.recover_reemit_index [OF chip first])
  then have rec: "act_record (active a1) = RCommitted (c\<lparr>cr_committed := True\<rparr>)"
    and st: "act_status (active a1) = Committed" and u: "act_u (active a1) = cr_next_anchor_counter c"
    by simp_all
  obtain l ax where li: "live_index P a1 = (l, ax)" by (metis prod.collapse)
  then obtain ch' where ax: "ax = a1\<lparr>tropic := ch'\<rparr>" by (rule live_indexE)
  have "live ch' = live (tropic a1)"
    using appliance_chip.live_index_live [OF chip, of a1] li ax by simp
  moreover have "active a1\<lparr>act_u := act_u (active a1)\<rparr> = active a1" by simp
  ultimately show ?thesis
    using again rec st li ax u c(3)
    by (auto simp: recover_def recover_committed_def Let_def split: if_splits sum.splits)
qed

text \<open>
  What the error of a failed commit means. \<open>commit\<close> reports an exhausted counter in two
  different cases: the counter is 0 and nothing has changed, or it was not 0, the candidate is
  stored unmarked, and the chip failed to confirm the step.
\<close>

lemma commit_exhausted_cases:
  assumes chip: "appliance_chip P live" and com: "commit P a = (Fail CounterExhausted, a')"
  shows "(live (tropic a) = 0 \<and> active a' = active a) \<or>
    (live (tropic a) \<noteq> 0 \<and> act_status (active a') = Committed \<and>
     (\<exists>c. act_record (active a') = RCommitted c \<and> \<not> cr_committed c) \<and>
     emit a' = Inl NotCommitted)"
proof (cases P a rule: commit_cases)
  case (unmoved p hv ch sigma ch' e)
  then have "live (tropic a) \<noteq> 0"
    using appliance_chip.commit_ready_live(2) [OF chip unmoved(1)] by (simp add: commit_ready_def)
  with unmoved(3) com show ?thesis by (auto simp: emit_def)
next
  case stopped
  obtain g ch where get: "counter_get (pf_tropic P) (tropic a) = (g, ch)" by (metis prod.collapse)
  have "commit_phase1 P a = (Fail CounterExhausted, a')" using stopped(2) com by simp
  then have "g = Inr 0"
    using get by (auto simp: commit_phase1_def Let_def
        split: active_record.splits if_splits sum.splits option.splits)
  then have "live (tropic a) = 0"
    using tropic_chip.get_value [OF chip [unfolded appliance_chip_def], of "tropic a" 0] get by simp
  with stopped(3) com show ?thesis by simp
qed (use com in simp)

end
