(* ===== verification/Recovery_Spec.thy ===== *)
theory Recovery_Spec
  imports Operation_Specs Crash_Recovery
begin

text \<open>
  \<open>recover\<close> on every branch: its outcome as a table over the index the counter shows, in natural
  numbers, and what it does to the record and the counter, on a chip that answers every call.
\<close>

section \<open>The table\<close>

definition recover_table :: "('c \<Rightarrow> u32) \<Rightarrow> 'c appliance \<Rightarrow> recover_outcome" where
  "recover_table live a =
     (let L = unat (h0 a) - unat (live (tropic a)); u = unat (act_u (active a)) in
      if firmware_boundary_invalid a \<or> rmemory_map_invalid a \<or> unat (h0 a) < unat (live (tropic a))
      then DowngradeOnline
      else case act_status (active a) of
        Committed \<Rightarrow>
          (case act_record (active a) of
             RCommitted c \<Rightarrow>
               if unat (cr_next_anchor_counter c) = L \<or>
                  (\<not> cr_committed c \<and> unat (cr_next_anchor_counter c) = L + 1 \<and>
                   cr_prev_root c = act_root (active a) \<and> live (tropic a) \<noteq> 0)
               then ReemitCommitted (cr_next_root c)
               else DowngradeOnline
           | _ \<Rightarrow> DowngradeOnline)
      | Prepared \<Rightarrow>
          (case act_record (active a) of
             RPrepared p \<Rightarrow>
               if u \<noteq> L \<or> prev_root (p_txn p) \<noteq> act_root (active a) then DowngradeOnline
               else if p_sk_hw p \<noteq> [] then AcceptPreparedCanComplete
               else OnlineCancelOrResolve
           | _ \<Rightarrow> DowngradeOnline)
      | Ready \<Rightarrow>
          if u < L then DowngradeOnline
          else if L < u then FailClosed
          else if live (tropic a) = 0 then ExhaustedOnlineOnly
          else Accept (act_root (active a)))"

text \<open>What becomes of the active record: marked and brought to its index, or left alone.\<close>

definition recover_record :: "recover_outcome \<Rightarrow> active \<Rightarrow> active" where
  "recover_record out s =
     (case (out, act_record s) of
        (ReemitCommitted _, RCommitted c) \<Rightarrow>
          s\<lparr>act_record := RCommitted (c\<lparr>cr_committed := True\<rparr>), act_u := cr_next_anchor_counter c\<rparr>
      | _ \<Rightarrow> s)"

text \<open>
  When the counter moves: for a candidate whose counter step is outstanding, that is, not marked and
  one index ahead of the counter, under the same parent root and with a step left. A candidate that
  is marked, or whose step has been taken, must not move it again.
\<close>

definition recover_moves :: "('c \<Rightarrow> u32) \<Rightarrow> 'c appliance \<Rightarrow> bool" where
  "recover_moves live a \<longleftrightarrow>
     \<not> firmware_boundary_invalid a \<and> \<not> rmemory_map_invalid a \<and>
     unat (live (tropic a)) \<le> unat (h0 a) \<and> act_status (active a) = Committed \<and>
     (case act_record (active a) of
        RCommitted c \<Rightarrow>
          \<not> cr_committed c \<and>
          unat (cr_next_anchor_counter c) = unat (h0 a) - unat (live (tropic a)) + 1 \<and>
          cr_prev_root c = act_root (active a) \<and> live (tropic a) \<noteq> 0
      | _ \<Rightarrow> False)"

section \<open>Recovery against the table\<close>

context reliable_appliance
begin

lemma live_index_cases:
  obtains (none) ch where "unat (h0 a) < unat (live (tropic a))"
      and "live_index P a = (Inl CounterMismatch, a\<lparr>tropic := ch\<rparr>)" and "live ch = live (tropic a)"
  | (some) u ch where "unat (live (tropic a)) \<le> unat (h0 a)"
      and "unat u = unat (h0 a) - unat (live (tropic a))"
      and "live_index P a = (Inr u, a\<lparr>tropic := ch\<rparr>)" and "live ch = live (tropic a)"
proof -
  obtain ch where cg: "counter_get (pf_tropic P) (tropic a) = (Inr (live (tropic a)), ch)"
    using get_answers [of "tropic a"] by (metis prod.collapse)
  have live: "live ch = live (tropic a)" using get_frame [of "tropic a"] cg by simp
  show ?thesis
  proof (cases "checked_sub (h0 a) (live (tropic a))")
    case None
    then have "unat (h0 a) < unat (live (tropic a))" by (simp add: checked_sub_None_iff)
    with None cg live show ?thesis by (intro none [of ch]) (simp_all add: live_index_def)
  next
    case (Some v)
    then have "unat (h0 a) = unat (live (tropic a)) + unat v" by (simp add: checked_sub_Some_iff)
    with Some cg live show ?thesis by (intro some [of "ucast v" ch]) (simp_all add: live_index_def)
  qed
qed

lemma update_cases:
  obtains (moved) ch' where "live ch \<noteq> 0" and "counter_update (pf_tropic P) ch = (Inr (), ch')"
      and "unat (live ch) = Suc (unat (live ch'))"
  | (stuck) e ch' where "live ch = 0" and "counter_update (pf_tropic P) ch = (Inl e, ch')"
      and "live ch' = 0"
proof -
  obtain r ch' where r: "counter_update (pf_tropic P) ch = (r, ch')" by (metis prod.collapse)
  show ?thesis
  proof (cases "live ch = 0")
    case False
    with r update_answers [of ch] update_step [of ch "()" ch'] show ?thesis by (intro moved) auto
  next
    case True
    show ?thesis
    proof (cases r)
      case (Inl e)
      moreover have "live ch' = 0" using r Inl True update_err [of ch e] by auto
      ultimately show ?thesis using r True by (intro stuck [of e ch']) simp_all
    next
      case (Inr u)
      with r True update_step [of ch u ch'] show ?thesis by simp
    qed
  qed
qed

lemma recover_committed_result:
  assumes rec: "act_record (active a) = RCommitted c" "act_status (active a) = Committed"
    and L: "unat live_u = unat (h0 a) - unat (live (tropic a))" "unat (live (tropic a)) \<le> unat (h0 a)"
    and succ: "unat (live_u + 1) = unat live_u + 1"
    and flags: "\<not> firmware_boundary_invalid a" "\<not> rmemory_map_invalid a"
  shows "\<exists>a'. recover_committed P live_u c a = (recover_table live a, a') \<and>
    active a' = recover_record (recover_table live a) (active a) \<and>
    unat (live (tropic a)) = unat (live (tropic a')) + (if recover_moves live a then 1 else 0)"
proof -
  let ?n = "cr_next_anchor_counter c"
  have eq: "?n = live_u \<longleftrightarrow> unat ?n = unat live_u" "?n = live_u + 1 \<longleftrightarrow> unat ?n = unat live_u + 1"
    using succ by (simp_all add: word_unat_eq_iff)
  have table: "recover_table live a =
      (if unat ?n = unat live_u \<or> (\<not> cr_committed c \<and> unat ?n = unat live_u + 1 \<and>
          cr_prev_root c = act_root (active a) \<and> live (tropic a) \<noteq> 0)
       then ReemitCommitted (cr_next_root c) else DowngradeOnline)"
    using rec L flags by (simp add: recover_table_def Let_def)
  have moves: "recover_moves live a \<longleftrightarrow> \<not> cr_committed c \<and> unat ?n = unat live_u + 1 \<and>
      cr_prev_root c = act_root (active a) \<and> live (tropic a) \<noteq> 0"
    using rec L flags by (simp add: recover_moves_def)
  have again: "act_record (active a) = RCommitted (c\<lparr>cr_committed := True\<rparr>)" if "cr_committed c"
    using rec that by simp
  show ?thesis
  proof (cases "unat ?n = unat live_u + 1 \<and> \<not> cr_committed c \<and> cr_prev_root c = act_root (active a)")
    case False
    then show ?thesis
      using rec table moves eq again
      by (auto simp: recover_committed_def recover_record_def Let_def mark_committed_def split: if_splits)
  next
    case True
    show ?thesis
    proof (cases rule: update_cases [of "tropic a"])
      case (moved ch')
      with True table moves eq rec show ?thesis
        by (auto simp: recover_committed_def recover_record_def Let_def mark_committed_def)
    next
      case (stuck e ch')
      with True table moves eq rec show ?thesis
        by (auto simp: recover_committed_def recover_record_def Let_def)
    qed
  qed
qed

lemma recover_result:
  "\<exists>a'. recover P a = (recover_table live a, a') \<and>
    active a' = recover_record (recover_table live a) (active a) \<and>
    unat (live (tropic a)) = unat (live (tropic a')) + (if recover_moves live a then 1 else 0)"
proof (cases "firmware_boundary_invalid a \<or> rmemory_map_invalid a")
  case True
  then show ?thesis by (auto simp: recover_def recover_table_def recover_record_def recover_moves_def)
next
  case False
  then have flags: "\<not> firmware_boundary_invalid a" "\<not> rmemory_map_invalid a" by simp_all
  show ?thesis
  proof (cases rule: live_index_cases [of a])
    case (none ch)
    with flags show ?thesis by (simp add: recover_def recover_table_def recover_record_def recover_moves_def)
  next
    case (some u ch)
    let ?b = "a\<lparr>tropic := ch\<rparr>"
    have same: "recover_table live ?b = recover_table live a"
      using some(4) by (simp add: recover_table_def Let_def cong: status.case_cong active_record.case_cong)
    have same_moves: "recover_moves live ?b = recover_moves live a"
      using some(4) by (simp add: recover_moves_def cong: active_record.case_cong)
    have L: "\<not> unat (h0 a) < unat (live (tropic a))" using some(1) by simp
    have cmp: "act_u (active a) < u \<longleftrightarrow> unat (act_u (active a)) < unat u"
      "u < act_u (active a) \<longleftrightarrow> unat u < unat (act_u (active a))"
      "act_u (active a) = u \<longleftrightarrow> unat (act_u (active a)) = unat u"
      by (simp_all add: word_less_nat_alt word_unat_eq_iff)
    show ?thesis
    proof (cases "act_status (active a)")
      case Committed
      show ?thesis
      proof (cases "act_record (active a)")
        case (RCommitted c)
        have "\<exists>a'. recover_committed P u c ?b = (recover_table live ?b, a') \<and>
            active a' = recover_record (recover_table live ?b) (active ?b) \<and>
            unat (live (tropic ?b)) = unat (live (tropic a')) + (if recover_moves live ?b then 1 else 0)"
          by (rule recover_committed_result)
            (use RCommitted Committed some flags live_index_succ(2) [OF some(3)] in simp_all)
        with same same_moves flags some Committed RCommitted show ?thesis by (simp add: recover_def)
      qed (use flags some L Committed in \<open>simp_all add: recover_def recover_table_def recover_record_def recover_moves_def\<close>)
    next
      case Prepared
      with flags some L cmp show ?thesis
        by (cases "act_record (active a)")
          (auto simp: recover_def recover_table_def recover_prepared_def recover_record_def recover_moves_def Let_def)
    next
      case Ready
      obtain ch' where "counter_get (pf_tropic P) ch = (Inr (live ch), ch')" "live ch' = live ch"
        using get_answers [of ch] get_frame [of ch] by (metis prod.collapse snd_conv)
      with Ready flags some L cmp show ?thesis
        by (auto simp: recover_def recover_table_def recover_ready_def recover_record_def recover_moves_def Let_def)
    qed
  qed
qed

end

section \<open>Properties\<close>

text \<open>
  C19: recovery on every branch. On an answering chip the outcome of \<open>recover\<close> is the entry of the
  table for the flags, the status, the record and the index that the counter shows, in natural
  numbers. Only a re-emission changes the active record: the candidate is marked and the index set
  to its successor index. The counter moves by exactly one step when the step of the candidate is
  outstanding, and not at all otherwise.
\<close>

theorem recover_meets_table:
  assumes "reliable_appliance P live"
  shows "case recover P a of (out, a') \<Rightarrow>
    out = recover_table live a \<and> active a' = recover_record out (active a) \<and>
    unat (live (tropic a)) = unat (live (tropic a')) + (if recover_moves live a then 1 else 0)"
  using reliable_appliance.recover_result [OF assms, of a] by auto

theorem recover_meets_table_witness:
  "fst (recover test_platform (test_appliance 100)) = Accept (fill32 0x11) \<and>
   fst (recover test_platform (test_appliance 0)) = DowngradeOnline"
proof -
  note rec = recover_meets_table [OF mock_rel.reliable_appliance_axioms [of True sample_blake3]]
  have "recover_table mock_h (test_appliance 100) = Accept (fill32 0x11)"
    "recover_table mock_h (test_appliance 0) = DowngradeOnline"
    by (simp_all add: recover_table_def test_appliance_def appliance_new_def Let_def)
  with rec [of "test_appliance 100"] rec [of "test_appliance 0"] show ?thesis
    by (simp add: case_prod_beta)
qed

end
