(* ===== verification/One_Time_Keys.thy ===== *)
theory One_Time_Keys
  imports Lifecycle
begin

text \<open>
  The witness signature is a one-time scheme: a key must not sign two messages. The key of a
  prepared record is derived from the output of the secure element and from everything the message
  depends on, so one key belongs to one message.
\<close>

definition keyed_collides :: "blake3 \<Rightarrow> bytes32 \<Rightarrow> byte list \<Rightarrow> byte list \<Rightarrow> bool" where
  "keyed_collides B k x y \<longleftrightarrow> x \<noteq> y \<and> b3_keyed B k x = b3_keyed B k y"

text \<open>The seed of the prepared record's key, and the input of the keyed hash that yields it.\<close>

definition prepared_input :: "'c platform \<Rightarrow> 'c appliance \<Rightarrow> transition \<Rightarrow> bytes32 \<Rightarrow> bytes32" where
  "prepared_input P a t rc =
     witness_input (pf_blake3 P) t (transition_digest (pf_blake3 P) t) (anchor_id a) (slot a) rc"

definition key_fields :: "'c platform \<Rightarrow> 'c appliance \<Rightarrow> transition \<Rightarrow> bytes32 \<Rightarrow> byte list list" where
  "key_fields P a t rc =
     [bytes_of (prepared_input P a t rc), bytes_of (prev_root t), bytes_of (next_root t),
      u64_le (anchor_counter t), u64_le (next_anchor_counter t),
      bytes_of (anchor_id a), u16_le (slot a), bytes_of (authority_policy_hash t)]"

definition prepared_seed :: "'c platform \<Rightarrow> 'c appliance \<Rightarrow> transition \<Rightarrow> bytes32 \<Rightarrow> bytes32 \<Rightarrow> bytes32" where
  "prepared_seed P a t rc w =
     witness_key_material (pf_blake3 P) w (prepared_input P a t rc) t (anchor_id a) (slot a)"

lemma prepared_for_seed:
  "p_sk_hw (prepared_for P a t rc w) = fst (ws_keygen (pf_sig P) (prepared_seed P a t rc w))"
  "p_pk_hw (prepared_for P a t rc w) = snd (ws_keygen (pf_sig P) (prepared_seed P a t rc w))"
  "p_witness_input (prepared_for P a t rc w) = prepared_input P a t rc"
  "p_cert_message (prepared_for P a t rc w) =
     cert_message (pf_blake3 P) t (transition_digest (pf_blake3 P) t) (prepared_input P a t rc)
       (pk_hash (pf_blake3 P) (p_pk_hw (prepared_for P a t rc w))) (anchor_id a) (slot a) rc"
  by (simp_all add: prepared_for_def prepared_seed_def prepared_input_def Let_def)

lemma prepared_seed_eqD:
  assumes "prepared_seed P a t rc w = prepared_seed P a t' rc' w"
  shows "prepared_input P a t rc = prepared_input P a t' rc' \<or>
    keyed_collides (pf_blake3 P) w (hasher_input ROOT_ADVANCE_WITNESS_KEY_V1 (key_fields P a t rc))
      (hasher_input ROOT_ADVANCE_WITNESS_KEY_V1 (key_fields P a t' rc'))"
proof -
  have "concat (key_fields P a t rc) = concat (key_fields P a t' rc') \<longrightarrow>
      prepared_input P a t rc = prepared_input P a t' rc'"
    by (simp add: key_fields_def split_simps)
  moreover have "prepared_seed P a u r w = b3_keyed (pf_blake3 P) w
      (hasher_input ROOT_ADVANCE_WITNESS_KEY_V1 (key_fields P a u r))" for u r
    by (simp add: prepared_seed_def witness_key_material_def kdf_def key_fields_def)
  ultimately show ?thesis
    using assms by (auto simp: keyed_collides_def hasher_input_eq)
qed

lemma prepared_input_message:
  assumes "prepared_input P a t rc = prepared_input P a t' rc'"
    and "prepared_seed P a t rc w = prepared_seed P a t' rc' w"
  defines "f \<equiv> \<lambda>t rc. hasher_input ROOT_ADVANCE_INPUT_V1
      (witness_input_fields t (transition_digest (pf_blake3 P) t) (anchor_id a) (slot a) rc)"
  shows "p_cert_message (prepared_for P a t rc w) = p_cert_message (prepared_for P a t' rc' w) \<or>
    collides (pf_blake3 P) (f t rc) (f t' rc')"
proof (cases "f t rc = f t' rc'")
  case True
  then have "prev_root t = prev_root t' \<and> next_root t = next_root t' \<and>
      anchor_counter t = anchor_counter t' \<and> next_anchor_counter t = next_anchor_counter t' \<and>
      transition_digest (pf_blake3 P) t = transition_digest (pf_blake3 P) t' \<and>
      recipient_device_id t = recipient_device_id t' \<and> object_id t = object_id t' \<and>
      authority_policy_hash t = authority_policy_hash t' \<and> rc = rc'"
    by (simp add: f_def hasher_input_eq witness_input_fields_inject)
  then have "p_cert_message (prepared_for P a t rc w) = p_cert_message (prepared_for P a t' rc' w)"
    using assms(1,2) by (simp add: prepared_for_seed cert_message_def cert_message_fields_def)
  then show ?thesis ..
next
  case False
  then show ?thesis
    using assms(1) by (simp add: prepared_input_def witness_input_def hash_h_def collides_def f_def)
qed

text \<open>
  C35: one key, one message. If two prepares of an appliance derive the same signing seed from the
  same output of the secure element, whatever the transitions and challenges, then the messages
  that their keys would sign are the same, or one of two named pairs of inputs collides: of the
  keyed hash that derives the seed, or of the hash that gives the witness input.
\<close>

theorem one_key_one_message:
  assumes "prepared_seed P a t rc w = prepared_seed P a t' rc' w"
  shows "p_cert_message (prepared_for P a t rc w) = p_cert_message (prepared_for P a t' rc' w) \<or>
    keyed_collides (pf_blake3 P) w (hasher_input ROOT_ADVANCE_WITNESS_KEY_V1 (key_fields P a t rc))
      (hasher_input ROOT_ADVANCE_WITNESS_KEY_V1 (key_fields P a t' rc')) \<or>
    collides (pf_blake3 P)
      (hasher_input ROOT_ADVANCE_INPUT_V1
        (witness_input_fields t (transition_digest (pf_blake3 P) t) (anchor_id a) (slot a) rc))
      (hasher_input ROOT_ADVANCE_INPUT_V1
        (witness_input_fields t' (transition_digest (pf_blake3 P) t') (anchor_id a) (slot a) rc'))"
  using prepared_seed_eqD [OF assms] prepared_input_message [OF _ assms] by blast

text \<open>
  The sample hash looks at the last 32 bytes only, here the policy: the two seeds agree, and so the
  theorem names what collides.
\<close>

theorem one_key_one_message_witness:
  "prepared_seed test_platform (test_appliance 100) test_step0 (fill32 1) (fill32 9) =
     prepared_seed test_platform (test_appliance 100) test_step0 (fill32 2) (fill32 9) \<and>
   (p_cert_message (prepared_for test_platform (test_appliance 100) test_step0 (fill32 1) (fill32 9)) =
      p_cert_message (prepared_for test_platform (test_appliance 100) test_step0 (fill32 2) (fill32 9)) \<or>
    (\<exists>x y. keyed_collides sample_blake3 (fill32 9) x y \<or> collides sample_blake3 x y))"
proof -
  have "prepared_seed test_platform (test_appliance 100) test_step0 (fill32 1) (fill32 9) =
     prepared_seed test_platform (test_appliance 100) test_step0 (fill32 2) (fill32 9)"
    by (simp add: prepared_seed_def witness_key_material_def kdf_def sample_blake3_def hasher_input_eq)
  from one_key_one_message [OF this] this show ?thesis by auto
qed

end
