(* ===== verification/Host_Script.thy ===== *)
theory Host_Script
  imports Prelude
begin

text \<open>
  \<open>tools/anchor_host_test.py\<close>: the reference host driver. Its protobuf encoder and parser, its
  framing over the terminal, and the root advance it drives. Python's integers are natural numbers
  here (none is negative), a dict is a map, and an exception is a value.
\<close>

unbundle bit_operations_syntax

section \<open>The wire codec\<close>

datatype py_error = IndexError | ValueError | TypeError | OverflowError | TimeoutError

lemma drop_bit_7_less: "drop_bit 7 n \<noteq> 0 \<Longrightarrow> drop_bit 7 n < (n :: nat)"
  by (cases "n = 0") (simp_all add: drop_bit_eq_div)

function varint :: "nat \<Rightarrow> byte list" where
  "varint n =
     (let b = n AND 0x7F; n = drop_bit 7 n
      in if n \<noteq> 0 then of_nat (b OR 0x80) # varint n else [of_nat b])"
  by pat_completeness auto

termination
  by (relation "measure (\<lambda>n. n)") (simp_all add: drop_bit_7_less)

declare varint.simps [simp del]

definition wire_tag :: "nat \<Rightarrow> nat \<Rightarrow> byte list" where
  "wire_tag field wire = varint (push_bit 3 field OR wire)"

definition uint_f :: "nat \<Rightarrow> nat \<Rightarrow> byte list" where
  "uint_f field n = wire_tag field 0 @ varint n"

definition bytes_f :: "nat \<Rightarrow> byte list \<Rightarrow> byte list" where
  "bytes_f field bs = wire_tag field 2 @ varint (length bs) @ bs"

text \<open>\<open>read_varint\<close>, with its accumulator \<open>n\<close> and shift \<open>s\<close>; \<open>b[i]\<close> raises past the end.\<close>

function read_varint_loop :: "byte list \<Rightarrow> nat \<Rightarrow> nat \<Rightarrow> nat \<Rightarrow> py_error + nat \<times> nat" where
  "read_varint_loop b i n s =
     (if i < length b then
        let x = unat (b ! i); n = n OR push_bit s (x AND 0x7F)
        in if x AND 0x80 = 0 then Inr (n, i + 1) else read_varint_loop b (i + 1) n (s + 7)
      else Inl IndexError)"
  by pat_completeness auto

termination
  by (relation "measure (\<lambda>(b, i, n, s). length b - i)") auto

declare read_varint_loop.simps [simp del]

definition read_varint :: "byte list \<Rightarrow> nat \<Rightarrow> py_error + nat \<times> nat" where
  "read_varint b i = read_varint_loop b i 0 0"

lemma read_varint_loop_advances:
  "read_varint_loop b i n s = Inr (v, j) \<Longrightarrow> i < j \<and> j \<le> length b"
proof (induction b i n s rule: read_varint_loop.induct)
  case (1 b i n s)
  show ?case
  proof (cases "i < length b \<and> unat (b ! i) AND 0x80 \<noteq> 0")
    case True
    with "1.prems" have "read_varint_loop b (i + 1) (n OR push_bit s (unat (b ! i) AND 0x7F)) (s + 7) = Inr (v, j)"
      by (subst (asm) read_varint_loop.simps) (simp add: Let_def)
    from "1.IH" [OF _ refl refl _ this] True show ?thesis by simp
  next
    case False
    with "1.prems" show ?thesis
      by (subst (asm) read_varint_loop.simps) (auto simp: Let_def split: if_splits)
  qed
qed

lemma read_varint_advances: "read_varint b i = Inr (v, j) \<Longrightarrow> i < j \<and> j \<le> length b"
  unfolding read_varint_def by (rule read_varint_loop_advances)

text \<open>The value of a field; a slice past the end is cut, not an error.\<close>

datatype field_value = VInt nat | VBytes "byte list"

function parse_loop ::
    "byte list \<Rightarrow> nat \<Rightarrow> (nat \<rightharpoonup> field_value) \<Rightarrow> py_error + (nat \<rightharpoonup> field_value)" where
  "parse_loop body i out =
     (if i < length body then
        (case read_varint body i of
           Inl e \<Rightarrow> Inl e
         | Inr (t, j) \<Rightarrow>
             let field = drop_bit 3 t; wire = t AND 7
             in if wire = 0 then
                  (case read_varint body j of
                     Inl e \<Rightarrow> Inl e
                   | Inr (v, k) \<Rightarrow> parse_loop body k (out(field \<mapsto> VInt v)))
                else if wire = 2 then
                  (case read_varint body j of
                     Inl e \<Rightarrow> Inl e
                   | Inr (ln, k) \<Rightarrow>
                       parse_loop body (k + ln) (out(field \<mapsto> VBytes (take ln (drop k body)))))
                else Inl ValueError)
      else Inr out)"
  by pat_completeness auto

termination
proof (relation "measure (\<lambda>(body, i, out). length body - i)", goal_cases)
  case 1
  show ?case by simp
next
  case (2 body i out p t j field wire q v k)
  then have "i < j" "j < k" "k \<le> length body"
    using read_varint_advances [of body i t j] read_varint_advances [of body j v k] by simp_all
  then show ?case by simp
next
  case (3 body i out p t j field wire q v k)
  then have "i < j" "j < k" "k \<le> length body"
    using read_varint_advances [of body i t j] read_varint_advances [of body j v k] by simp_all
  then show ?case by simp
qed

declare parse_loop.simps [simp del]

definition parse :: "byte list \<Rightarrow> py_error + (nat \<rightharpoonup> field_value)" where
  "parse body = parse_loop body 0 Map.empty"

section \<open>Requests\<close>

definition op_req :: "nat \<Rightarrow> byte list" where
  "op_req n = uint_f 1 n"

definition prepare_req :: "byte list" where
  "prepare_req =
     (let tr = concat
        [bytes_f 1 (replicate 32 0x01),
         bytes_f 2 (replicate 32 0x02),
         bytes_f 3 (replicate 32 0x03),
         bytes_f 4 (replicate 32 0x04),
         bytes_f 5 (replicate 32 0x00),
         bytes_f 6 (replicate 32 0x11),
         uint_f 8 1,
         bytes_f 10 [0xAA, 0xBB],
         bytes_f 11 (replicate 32 0x09),
         bytes_f 12 (replicate 40 0xAB),
         bytes_f 13 (replicate 40 0xCD),
         bytes_f 14 (replicate 32 0xB0)]
      in uint_f 1 1 @ bytes_f 2 tr @ bytes_f 3 (replicate 32 0x55))"

section \<open>The terminal\<close>

text \<open>
  The calls on the terminal: \<open>os.write\<close>, whose result the script does not look at, \<open>select\<close> with its
  half second, \<open>os.read\<close> with \<open>None\<close> for an \<open>OSError\<close>, and \<open>time.time()\<close>, in milliseconds.
\<close>

record 'd tty =
  tty_write :: "byte list \<Rightarrow> 'd \<Rightarrow> 'd"
  tty_ready :: "'d \<Rightarrow> bool \<times> 'd"
  tty_read :: "nat \<Rightarrow> 'd \<Rightarrow> byte list option \<times> 'd"
  tty_now :: "'d \<Rightarrow> int \<times> 'd"

text \<open>Two loops that end by the clock: \<open>None\<close> is a clock that never gets there.\<close>

partial_function (option) read_n_loop ::
    "'d tty \<Rightarrow> nat \<Rightarrow> int \<Rightarrow> byte list \<Rightarrow> 'd \<Rightarrow> (byte list \<times> 'd) option" where
  "read_n_loop T n dl buf d =
     (if length buf < n then
        (case tty_now T d of (now, d) \<Rightarrow>
           if now < dl then
             (case tty_ready T d of (r, d) \<Rightarrow>
                if r then
                  (case tty_read T (n - length buf) d of
                     (None, d) \<Rightarrow> read_n_loop T n dl buf d
                   | (Some got, d) \<Rightarrow> read_n_loop T n dl (buf @ got) d)
                else read_n_loop T n dl buf d)
           else Some (buf, d))
      else Some (buf, d))"

definition read_n :: "'d tty \<Rightarrow> nat \<Rightarrow> int \<Rightarrow> 'd \<Rightarrow> (byte list \<times> 'd) option" where
  "read_n T n timeout d = (case tty_now T d of (now, d) \<Rightarrow> read_n_loop T n (now + timeout) [] d)"

definition read_some :: "'d tty \<Rightarrow> byte list \<Rightarrow> int \<Rightarrow> 'd \<Rightarrow> (byte list \<times> int) \<times> 'd" where
  "read_some T buf lst d =
     (case tty_read T 1024 d of
        (got, d) \<Rightarrow>
          (case got of
             None \<Rightarrow> ((buf, lst), d)
           | Some bs \<Rightarrow>
               if bs = [] then ((buf, lst), d)
               else (case tty_now T d of (now, d) \<Rightarrow> ((buf @ bs, now), d))))"

partial_function (option) quiet_loop ::
    "'d tty \<Rightarrow> int \<Rightarrow> int \<Rightarrow> byte list \<Rightarrow> int \<Rightarrow> 'd \<Rightarrow> (byte list \<times> 'd) option" where
  "quiet_loop T dl quiet buf lst d =
     (case tty_now T d of (now, d) \<Rightarrow>
        if now < dl then
          (case tty_ready T d of (r, d) \<Rightarrow>
             (case (if r then read_some T buf lst d else ((buf, lst), d)) of ((buf, lst), d) \<Rightarrow>
                (case tty_now T d of (now, d) \<Rightarrow>
                   if quiet \<le> now - lst then Some (buf, d) else quiet_loop T dl quiet buf lst d)))
        else Some (buf, d))"

definition read_until_quiet :: "'d tty \<Rightarrow> int \<Rightarrow> int \<Rightarrow> 'd \<Rightarrow> (byte list \<times> 'd) option" where
  "read_until_quiet T max_wait quiet d =
     (case tty_now T d of (now, d) \<Rightarrow>
        (case tty_now T d of (lst, d) \<Rightarrow> quiet_loop T (now + max_wait) quiet [] lst d))"

section \<open>One exchange\<close>

text \<open>\<open>n.to_bytes(4, "little")\<close> and \<open>int.from_bytes(bs, "little")\<close>.\<close>

definition le_bytes4 :: "nat \<Rightarrow> py_error + byte list" where
  "le_bytes4 n =
     (if n < 2 ^ 32 then Inr (map (\<lambda>k. of_nat (drop_bit (8 * k) n)) [0..<4]) else Inl OverflowError)"

definition from_le_bytes :: "byte list \<Rightarrow> nat" where
  "from_le_bytes bs = foldr (\<lambda>b n. unat b + 256 * n) bs 0"

definition py_call ::
    "'d tty \<Rightarrow> byte list \<Rightarrow> 'd \<Rightarrow> ((py_error + (nat \<rightharpoonup> field_value)) \<times> 'd) option" where
  "py_call T body d =
     (case le_bytes4 (length body) of
        Inl e \<Rightarrow> Some (Inl e, d)
      | Inr pre \<Rightarrow>
          (case read_n T 4 5000 (tty_write T (pre @ body) d) of
             None \<Rightarrow> None
           | Some (hdr, d) \<Rightarrow>
               if length hdr < 4 then Some (Inl TimeoutError, d)
               else
                 let rlen = from_le_bytes hdr in
                 (case read_n T rlen 5000 d of
                    None \<Rightarrow> None
                  | Some (resp, d) \<Rightarrow>
                      if length resp < rlen then Some (Inl TimeoutError, d)
                      else Some (parse resp, d))))"

section \<open>The script\<close>

text \<open>\<open>s.get(k, 0)\<close> and \<open>s.get(k, b"")\<close>.\<close>

definition get_int :: "(nat \<rightharpoonup> field_value) \<Rightarrow> nat \<Rightarrow> field_value" where
  "get_int m k = (case m k of None \<Rightarrow> VInt 0 | Some v \<Rightarrow> v)"

definition get_bytes :: "(nat \<rightharpoonup> field_value) \<Rightarrow> nat \<Rightarrow> field_value" where
  "get_bytes m k = (case m k of None \<Rightarrow> VBytes [] | Some v \<Rightarrow> v)"

fun py_calls ::
    "'d tty \<Rightarrow> byte list list \<Rightarrow> 'd \<Rightarrow> ((py_error + (nat \<rightharpoonup> field_value) list) \<times> 'd) option" where
  "py_calls T [] d = Some (Inr [], d)"
| "py_calls T (b # bs) d =
     (case py_call T b d of
        None \<Rightarrow> None
      | Some (Inl e, d) \<Rightarrow> Some (Inl e, d)
      | Some (Inr m, d) \<Rightarrow>
          (case py_calls T bs d of
             None \<Rightarrow> None
           | Some (Inl e, d) \<Rightarrow> Some (Inl e, d)
           | Some (Inr ms, d) \<Rightarrow> Some (Inr (m # ms), d)))"

text \<open>
  \<open>main\<close>, from the open port to the verdict: the calls in order, where the first exception ends the
  script, the length of the release, and the condition for PASS on the seven parsed responses.
\<close>

definition script_ok :: "(nat \<rightharpoonup> field_value) list \<Rightarrow> byte list \<Rightarrow> bool" where
  "script_ok ms release \<longleftrightarrow>
     (case ms of
        [st0, prep, st1, com, emit, fin, st2] \<Rightarrow>
          get_int st0 2 = VInt 1 \<and> get_int st0 6 = VInt 0 \<and> get_int st0 7 = VInt 0 \<and>
          get_int prep 2 = VInt 1 \<and>
          get_int st1 2 = VInt 1 \<and> get_int st1 7 = VInt 1 \<and>
          get_int com 2 = VInt 1 \<and>
          get_int emit 2 = VInt 1 \<and> length release > 0 \<and>
          get_int fin 2 = VInt 1 \<and> get_bytes fin 5 = VBytes (replicate 32 0x11) \<and>
          get_int st2 2 = VInt 1 \<and> get_int st2 7 = VInt 0 \<and> get_int st2 6 = VInt 1
      | _ \<Rightarrow> False)"

definition drive_advance :: "'d tty \<Rightarrow> 'd \<Rightarrow> ((py_error + bool) \<times> 'd) option" where
  "drive_advance T d =
     (case py_calls T [op_req 5, prepare_req, op_req 5, op_req 2, op_req 3] d of
        None \<Rightarrow> None
      | Some (Inl e, d) \<Rightarrow> Some (Inl e, d)
      | Some (Inr ms, d) \<Rightarrow>
          (case get_bytes (last ms) 4 of
             VInt _ \<Rightarrow> Some (Inl TypeError, d)
           | VBytes release \<Rightarrow>
               (case py_calls T [op_req 4, op_req 5] d of
                  None \<Rightarrow> None
                | Some (Inl e, d) \<Rightarrow> Some (Inl e, d)
                | Some (Inr ms', d) \<Rightarrow> Some (Inr (script_ok (ms @ ms') release), d))))"

definition script_main :: "'d tty \<Rightarrow> 'd \<Rightarrow> ((py_error + bool) \<times> 'd) option" where
  "script_main T d =
     (case read_until_quiet T 30000 2500 d of
        None \<Rightarrow> None
      | Some (_, d) \<Rightarrow> drive_advance T d)"

end
