(* ===== verification/Proto.thy ===== *)
theory Proto
  imports Root_Advance
begin

text \<open>
  \<open>anchor-core/src/proto.rs\<close> over the messages of \<open>proto/dsm_anchor.proto\<close>: the wire messages as
  the structs that prost generates from the schema, the conversions to and from the domain types,
  and their errors. The byte codec of the messages is the prost library's and a parameter
  (\<open>prost\<close>).
\<close>

section \<open>Wire messages\<close>

text \<open>A \<open>bytes\<close> field is a byte list, a sub-message an option, an enum field an \<open>i32\<close>.\<close>

type_synonym i32 = "32 word"

record pb_transition =
  tp_relationship_id :: "byte list"
  tp_object_id :: "byte list"
  tp_sender_device_id :: "byte list"
  tp_recipient_device_id :: "byte list"
  tp_prev_root :: "byte list"
  tp_next_root :: "byte list"
  tp_anchor_counter :: u64
  tp_next_anchor_counter :: u64
  tp_action_type :: u32
  tp_action_fields :: "byte list"
  tp_payload_hash :: "byte list"
  tp_old_leaf_proof :: "byte list"
  tp_new_leaf_proof :: "byte list"
  tp_authority_policy_hash :: "byte list"

record pb_certificate =
  rc_prev_root :: "byte list"
  rc_next_root :: "byte list"
  rc_anchor_counter :: u64
  rc_next_anchor_counter :: u64
  rc_transition_digest :: "byte list"
  rc_witness_input :: "byte list"
  rc_pk_hash :: "byte list"
  rc_pk_hw :: "byte list"
  rc_sigma :: "byte list"
  rc_anchor_id :: "byte list"
  rc_slot :: u32
  rc_receiver_challenge :: "byte list"

record pb_evidence =
  ce_anchor_id :: "byte list"
  ce_enrolled_counter :: u64
  ce_live_counter_claim :: u64
  ce_derived_index_claim :: u64
  ce_verifier_transcript :: "byte list"

record pb_release =
  or_transition :: "pb_transition option"
  or_cert :: "pb_certificate option"
  or_counter :: "pb_evidence option"

record pb_request =
  rq_op :: i32
  rq_transition :: "pb_transition option"
  rq_receiver_challenge :: "byte list"

record pb_response =
  rs_op :: i32
  rs_ok :: bool
  rs_error :: u32
  rs_release :: "pb_release option"
  rs_active_root :: "byte list"
  rs_active_index :: u64
  rs_status :: u32

text \<open>The operation selector, and prost's \<open>Op::try_from(i32)\<close> over the numbers of the schema.\<close>

datatype pb_op = OpUnspecified | OpPrepare | OpCommit | OpEmit | OpFinalize | OpStatus | OpCancel

definition op_number :: "pb_op \<Rightarrow> i32" where
  "op_number x =
     (case x of OpUnspecified \<Rightarrow> 0 | OpPrepare \<Rightarrow> 1 | OpCommit \<Rightarrow> 2 | OpEmit \<Rightarrow> 3
      | OpFinalize \<Rightarrow> 4 | OpStatus \<Rightarrow> 5 | OpCancel \<Rightarrow> 6)"

definition op_try_from :: "i32 \<Rightarrow> pb_op option" where
  "op_try_from n =
     (if n = 0 then Some OpUnspecified else if n = 1 then Some OpPrepare
      else if n = 2 then Some OpCommit else if n = 3 then Some OpEmit
      else if n = 4 then Some OpFinalize else if n = 5 then Some OpStatus
      else if n = 6 then Some OpCancel else None)"

lemma op_try_from_number [simp]: "op_try_from (op_number x) = Some x"
  by (cases x) (simp_all add: op_try_from_def op_number_def)

lemma op_try_from_Some_iff: "op_try_from n = Some x \<longleftrightarrow> n = op_number x"
  by (cases x) (auto simp: op_try_from_def op_number_def)

section \<open>Errors and bounds\<close>

datatype proto_error = BadLength | MissingField | BadOp | BadSlot | Decode

definition MAX_ACTION_FIELDS :: nat where "MAX_ACTION_FIELDS = 256"
definition MAX_LEAF_PROOF :: nat where "MAX_LEAF_PROOF = 16 * 1024"
definition MAX_PK_HW :: nat where "MAX_PK_HW = 4 * 1024"
definition MAX_SIGMA :: nat where "MAX_SIGMA = 16 * 1024"
definition MAX_TRANSCRIPT :: nat where "MAX_TRANSCRIPT = 8 * 1024"

lemmas wire_bounds =
  MAX_ACTION_FIELDS_def MAX_LEAF_PROOF_def MAX_PK_HW_def MAX_SIGMA_def MAX_TRANSCRIPT_def

definition arr32 :: "byte list \<Rightarrow> proto_error + bytes32" where
  "arr32 v = (if length v \<noteq> 32 then Inl BadLength else Inr (to_bytes32 v))"

definition bounded :: "byte list \<Rightarrow> nat \<Rightarrow> proto_error + unit" where
  "bounded v cap = (if length v > cap then Inl BadLength else Inr ())"

text \<open>\<open>u16::try_from(slot).map_err(|_| BadSlot)\<close>.\<close>

definition slot_u16 :: "u32 \<Rightarrow> proto_error + u16" where
  "slot_u16 s = (if unat s \<le> 65535 then Inr (ucast s) else Inl BadSlot)"

lemma arr32_bytes_of [simp]: "arr32 (bytes_of a) = Inr a"
  by (simp add: arr32_def)

lemma arr32_Inr_iff: "arr32 v = Inr a \<longleftrightarrow> v = bytes_of a"
  by (auto simp: arr32_def)

lemma arr32_Inl: "arr32 v = Inl e \<Longrightarrow> e = BadLength"
  by (simp add: arr32_def split: if_splits)

lemma bounded_Inr_iff: "bounded v cap = Inr u \<longleftrightarrow> length v \<le> cap"
  by (simp add: bounded_def)

lemma bounded_Inl: "bounded v cap = Inl e \<Longrightarrow> e = BadLength"
  by (simp add: bounded_def split: if_splits)

lemma slot_u16_Inr_iff: "slot_u16 s = Inr q \<longleftrightarrow> s = ucast q"
proof
  assume "slot_u16 s = Inr q"
  then have "unat s \<le> 65535" "q = ucast s" by (auto simp: slot_u16_def split: if_splits)
  then show "s = ucast q"
    by (simp add: word_unat_eq_iff unsigned_ucast_eq take_bit_nat_eq_self)
next
  assume s: "s = ucast q"
  have less: "unat q < 65536" using unsigned_less [of q] by simp
  have "take_bit 32 (unat q) = unat q" by (rule take_bit_nat_eq_self) (use less in simp)
  then have "unat s = unat q"
    by (simp add: s unsigned_ucast_eq take_bit_word_eq_self)
  moreover have "take_bit 16 (unat q) = unat q" by (rule take_bit_nat_eq_self) (use less in simp)
  ultimately show "slot_u16 s = Inr q"
    using less by (simp add: slot_u16_def word_unat_eq_iff unsigned_ucast_eq)
qed

lemma bind_res_Inl_iff:
  "bind_res r f = Inl e \<longleftrightarrow> r = Inl e \<or> (\<exists>a. r = Inr a \<and> f a = Inl e)"
  by (cases r) auto

lemmas wire_iffs = bind_res_Inr_iff arr32_Inr_iff bounded_Inr_iff slot_u16_Inr_iff

section \<open>The contract of a conversion\<close>

text \<open>
  A message type with its decoder \<open>of_pb\<close>, its encoder \<open>to_pb\<close> and the values within the bounds:
  decoding succeeds exactly on the encodings of such values.
\<close>

locale wire_message =
  fixes of_pb :: "'m \<Rightarrow> proto_error + 'a"
    and to_pb :: "'a \<Rightarrow> 'm"
    and fits :: "'a \<Rightarrow> bool"
  assumes decode_iff: "of_pb m = Inr x \<longleftrightarrow> m = to_pb x \<and> fits x"
begin

lemma roundtrip: "fits x \<Longrightarrow> of_pb (to_pb x) = Inr x"
  by (simp add: decode_iff)

lemma canonical: "of_pb m = Inr x \<Longrightarrow> to_pb x = m"
  by (simp add: decode_iff)

lemma decode_fits: "of_pb m = Inr x \<Longrightarrow> fits x"
  by (simp add: decode_iff)

lemma decode_inject: "of_pb m = Inr x \<Longrightarrow> of_pb m' = Inr x \<Longrightarrow> m = m'"
  by (simp add: decode_iff)

lemma encode_fails_iff: "(\<exists>e. of_pb (to_pb x) = Inl e) \<Longrightarrow> \<not> fits x"
  using roundtrip [of x] by auto

end

section \<open>The transition package\<close>

definition to_owned_transition :: "pb_transition \<Rightarrow> proto_error + owned_transition" where
  "to_owned_transition m =
     bind_res (bounded (tp_action_fields m) MAX_ACTION_FIELDS) (\<lambda>_.
     bind_res (bounded (tp_old_leaf_proof m) MAX_LEAF_PROOF) (\<lambda>_.
     bind_res (bounded (tp_new_leaf_proof m) MAX_LEAF_PROOF) (\<lambda>_.
     bind_res (arr32 (tp_relationship_id m)) (\<lambda>rid.
     bind_res (arr32 (tp_object_id m)) (\<lambda>oid.
     bind_res (arr32 (tp_sender_device_id m)) (\<lambda>sid.
     bind_res (arr32 (tp_recipient_device_id m)) (\<lambda>did.
     bind_res (arr32 (tp_prev_root m)) (\<lambda>prev.
     bind_res (arr32 (tp_next_root m)) (\<lambda>nxt.
     bind_res (arr32 (tp_payload_hash m)) (\<lambda>ph.
     bind_res (arr32 (tp_authority_policy_hash m)) (\<lambda>pol.
     Inr \<lparr> relationship_id = rid, object_id = oid, sender_device_id = sid,
           recipient_device_id = did, prev_root = prev, next_root = nxt,
           anchor_counter = tp_anchor_counter m,
           next_anchor_counter = tp_next_anchor_counter m,
           action_type = tp_action_type m, action_fields = tp_action_fields m,
           payload_hash = ph, old_leaf_proof = tp_old_leaf_proof m,
           new_leaf_proof = tp_new_leaf_proof m, authority_policy_hash = pol \<rparr>)))))))))))"

definition transition_to_pb :: "owned_transition \<Rightarrow> pb_transition" where
  "transition_to_pb t =
     \<lparr> tp_relationship_id = bytes_of (relationship_id t),
       tp_object_id = bytes_of (object_id t),
       tp_sender_device_id = bytes_of (sender_device_id t),
       tp_recipient_device_id = bytes_of (recipient_device_id t),
       tp_prev_root = bytes_of (prev_root t),
       tp_next_root = bytes_of (next_root t),
       tp_anchor_counter = anchor_counter t,
       tp_next_anchor_counter = next_anchor_counter t,
       tp_action_type = action_type t,
       tp_action_fields = action_fields t,
       tp_payload_hash = bytes_of (payload_hash t),
       tp_old_leaf_proof = old_leaf_proof t,
       tp_new_leaf_proof = new_leaf_proof t,
       tp_authority_policy_hash = bytes_of (authority_policy_hash t) \<rparr>"

definition transition_fits :: "owned_transition \<Rightarrow> bool" where
  "transition_fits t \<longleftrightarrow>
     length (action_fields t) \<le> MAX_ACTION_FIELDS \<and>
     length (old_leaf_proof t) \<le> MAX_LEAF_PROOF \<and> length (new_leaf_proof t) \<le> MAX_LEAF_PROOF"

lemma to_owned_transition_iff:
  "to_owned_transition m = Inr t \<longleftrightarrow> m = transition_to_pb t \<and> transition_fits t"
  by (cases m; cases t)
    (auto simp: to_owned_transition_def wire_iffs transition_to_pb_def transition_fits_def)

interpretation transition_wire: wire_message to_owned_transition transition_to_pb transition_fits
  by unfold_locales (rule to_owned_transition_iff)

lemma to_owned_transition_Inl: "to_owned_transition m = Inl e \<Longrightarrow> e = BadLength"
  by (auto simp: to_owned_transition_def bind_res_Inl_iff dest: arr32_Inl bounded_Inl)

text \<open>What comes off the wire always passes the length assertions of the canonical encoding.\<close>

lemma transition_fits_enc: "transition_fits t \<Longrightarrow> enc_fits t"
  by (simp add: transition_fits_def enc_fits_def field_fits_def wire_bounds)

section \<open>The certificate\<close>

definition to_cert :: "pb_certificate \<Rightarrow> proto_error + certificate" where
  "to_cert m =
     bind_res (bounded (rc_pk_hw m) MAX_PK_HW) (\<lambda>_.
     bind_res (bounded (rc_sigma m) MAX_SIGMA) (\<lambda>_.
     bind_res (slot_u16 (rc_slot m)) (\<lambda>q.
     bind_res (arr32 (rc_prev_root m)) (\<lambda>prev.
     bind_res (arr32 (rc_next_root m)) (\<lambda>nxt.
     bind_res (arr32 (rc_transition_digest m)) (\<lambda>d.
     bind_res (arr32 (rc_witness_input m)) (\<lambda>x.
     bind_res (arr32 (rc_pk_hash m)) (\<lambda>ph.
     bind_res (arr32 (rc_anchor_id m)) (\<lambda>anc.
     bind_res (arr32 (rc_receiver_challenge m)) (\<lambda>rc.
     Inr \<lparr> c_prev_root = prev, c_next_root = nxt, c_anchor_counter = rc_anchor_counter m,
           c_next_anchor_counter = rc_next_anchor_counter m, c_transition_digest = d,
           c_witness_input = x, c_pk_hash = ph, c_pk_hw = rc_pk_hw m, c_sigma = rc_sigma m,
           c_anchor_id = anc, c_slot = q, c_receiver_challenge = rc \<rparr>))))))))))"

definition cert_to_pb :: "certificate \<Rightarrow> pb_certificate" where
  "cert_to_pb c =
     \<lparr> rc_prev_root = bytes_of (c_prev_root c),
       rc_next_root = bytes_of (c_next_root c),
       rc_anchor_counter = c_anchor_counter c,
       rc_next_anchor_counter = c_next_anchor_counter c,
       rc_transition_digest = bytes_of (c_transition_digest c),
       rc_witness_input = bytes_of (c_witness_input c),
       rc_pk_hash = bytes_of (c_pk_hash c),
       rc_pk_hw = c_pk_hw c,
       rc_sigma = c_sigma c,
       rc_anchor_id = bytes_of (c_anchor_id c),
       rc_slot = ucast (c_slot c),
       rc_receiver_challenge = bytes_of (c_receiver_challenge c) \<rparr>"

definition cert_fits :: "certificate \<Rightarrow> bool" where
  "cert_fits c \<longleftrightarrow> length (c_pk_hw c) \<le> MAX_PK_HW \<and> length (c_sigma c) \<le> MAX_SIGMA"

lemma to_cert_iff: "to_cert m = Inr c \<longleftrightarrow> m = cert_to_pb c \<and> cert_fits c"
  by (cases m; cases c) (auto simp: to_cert_def wire_iffs cert_to_pb_def cert_fits_def)

interpretation cert_wire: wire_message to_cert cert_to_pb cert_fits
  by unfold_locales (rule to_cert_iff)

section \<open>The counter evidence\<close>

definition to_evidence :: "pb_evidence \<Rightarrow> proto_error + counter_evidence" where
  "to_evidence m =
     bind_res (bounded (ce_verifier_transcript m) MAX_TRANSCRIPT) (\<lambda>_.
     bind_res (arr32 (ce_anchor_id m)) (\<lambda>anc.
     Inr \<lparr> ev_anchor_id = anc, ev_enrolled_counter = ce_enrolled_counter m,
           ev_live_counter_claim = ce_live_counter_claim m,
           ev_derived_index_claim = ce_derived_index_claim m,
           ev_verifier_transcript = ce_verifier_transcript m \<rparr>))"

definition evidence_to_pb :: "counter_evidence \<Rightarrow> pb_evidence" where
  "evidence_to_pb ev =
     \<lparr> ce_anchor_id = bytes_of (ev_anchor_id ev),
       ce_enrolled_counter = ev_enrolled_counter ev,
       ce_live_counter_claim = ev_live_counter_claim ev,
       ce_derived_index_claim = ev_derived_index_claim ev,
       ce_verifier_transcript = ev_verifier_transcript ev \<rparr>"

definition evidence_fits :: "counter_evidence \<Rightarrow> bool" where
  "evidence_fits ev \<longleftrightarrow> length (ev_verifier_transcript ev) \<le> MAX_TRANSCRIPT"

lemma to_evidence_iff: "to_evidence m = Inr ev \<longleftrightarrow> m = evidence_to_pb ev \<and> evidence_fits ev"
  by (cases m; cases ev) (auto simp: to_evidence_def wire_iffs evidence_to_pb_def evidence_fits_def)

interpretation evidence_wire: wire_message to_evidence evidence_to_pb evidence_fits
  by unfold_locales (rule to_evidence_iff)

section \<open>The release\<close>

text \<open>\<open>.as_ref().ok_or(MissingField)?\<close>.\<close>

definition required :: "'m option \<Rightarrow> proto_error + 'm" where
  "required sub = (case sub of None \<Rightarrow> Inl MissingField | Some m \<Rightarrow> Inr m)"

lemma required_Inr_iff: "required sub = Inr m \<longleftrightarrow> sub = Some m"
  by (simp add: required_def split: option.split)

definition to_release :: "pb_release \<Rightarrow> proto_error + offline_release" where
  "to_release m =
     bind_res (required (or_transition m)) (\<lambda>tm.
     bind_res (to_owned_transition tm) (\<lambda>t.
     bind_res (required (or_cert m)) (\<lambda>cm.
     bind_res (to_cert cm) (\<lambda>c.
     bind_res (required (or_counter m)) (\<lambda>em.
     bind_res (to_evidence em) (\<lambda>ev.
     Inr \<lparr> rel_transition = t, rel_cert = c, rel_counter = ev \<rparr>))))))"

definition release_to_pb :: "offline_release \<Rightarrow> pb_release" where
  "release_to_pb r =
     \<lparr> or_transition = Some (transition_to_pb (rel_transition r)),
       or_cert = Some (cert_to_pb (rel_cert r)),
       or_counter = Some (evidence_to_pb (rel_counter r)) \<rparr>"

definition release_fits :: "offline_release \<Rightarrow> bool" where
  "release_fits r \<longleftrightarrow>
     transition_fits (rel_transition r) \<and> cert_fits (rel_cert r) \<and> evidence_fits (rel_counter r)"

lemma to_release_iff: "to_release m = Inr r \<longleftrightarrow> m = release_to_pb r \<and> release_fits r"
  by (cases m; cases r)
    (auto simp: to_release_def bind_res_Inr_iff required_Inr_iff to_owned_transition_iff
      to_cert_iff to_evidence_iff release_to_pb_def release_fits_def)

interpretation release_wire: wire_message to_release release_to_pb release_fits
  by unfold_locales (rule to_release_iff)

section \<open>Frames\<close>

text \<open>
  prost's \<open>Message::decode\<close> and \<open>encode_to_vec\<close> for the two frame messages.
\<close>

record prost =
  px_decode_request :: "byte list \<Rightarrow> pb_request option"
  px_encode_request :: "pb_request \<Rightarrow> byte list"
  px_decode_response :: "byte list \<Rightarrow> pb_response option"
  px_encode_response :: "pb_response \<Rightarrow> byte list"

definition decode_request :: "prost \<Rightarrow> byte list \<Rightarrow> proto_error + pb_request" where
  "decode_request X bytes =
     (case px_decode_request X bytes of None \<Rightarrow> Inl Decode | Some req \<Rightarrow> Inr req)"

definition encode_response :: "prost \<Rightarrow> pb_response \<Rightarrow> byte list" where
  "encode_response X resp = px_encode_response X resp"

definition encode_request :: "prost \<Rightarrow> pb_request \<Rightarrow> byte list" where
  "encode_request X req = px_encode_request X req"

definition decode_response :: "prost \<Rightarrow> byte list \<Rightarrow> proto_error + pb_response" where
  "decode_response X bytes =
     (case px_decode_response X bytes of None \<Rightarrow> Inl Decode | Some resp \<Rightarrow> Inr resp)"

section \<open>Which error is reported\<close>

lemma bounded_Inl_iff: "bounded v cap = Inl e \<longleftrightarrow> e = BadLength \<and> cap < length v"
  by (auto simp: bounded_def)

lemma arr32_Inl_iff: "arr32 v = Inl e \<longleftrightarrow> e = BadLength \<and> length v \<noteq> 32"
  by (auto simp: arr32_def)

lemma slot_u16_Inl_iff: "slot_u16 s = Inl e \<longleftrightarrow> e = BadSlot \<and> 65535 < unat s"
  by (auto simp: slot_u16_def)

lemma to_cert_BadSlot_iff:
  "to_cert m = Inl BadSlot \<longleftrightarrow>
     length (rc_pk_hw m) \<le> MAX_PK_HW \<and> length (rc_sigma m) \<le> MAX_SIGMA \<and> 65535 < unat (rc_slot m)"
  by (auto simp: to_cert_def bind_res_Inl_iff bounded_Inl_iff arr32_Inl_iff slot_u16_Inl_iff
      bounded_Inr_iff)

lemma to_cert_Inl: "to_cert m = Inl e \<Longrightarrow> e = BadLength \<or> e = BadSlot"
  by (auto simp: to_cert_def bind_res_Inl_iff bounded_Inl_iff arr32_Inl_iff slot_u16_Inl_iff)

lemma to_evidence_Inl: "to_evidence m = Inl e \<Longrightarrow> e = BadLength"
  by (auto simp: to_evidence_def bind_res_Inl_iff bounded_Inl_iff arr32_Inl_iff)

lemma required_Inl_iff: "required sub = Inl e \<longleftrightarrow> e = MissingField \<and> sub = None"
  by (auto simp: required_def split: option.split)

text \<open>
  C28: the wire form of a release is faithful and canonical. A message decodes to a release exactly
  when it is that release's encoding and the release respects the length bounds. So encoding then
  decoding returns the release, two different messages never decode to the same release, and every
  fixed-width field, optional part and slot value of an accepted message is well formed.
\<close>

theorem release_wire_canonical:
  "to_release m = Inr r \<longleftrightarrow> m = release_to_pb r \<and> release_fits r"
  by (rule release_wire.decode_iff)

text \<open>
  The error of a rejected release. \<open>MissingField\<close> is reported exactly when a part is absent and
  everything before it decodes; \<open>BadSlot\<close> exactly when the package decodes and the certificate has
  bounded opaque fields but a slot above 65535; every other rejection is \<open>BadLength\<close>.
\<close>

lemma release_wire_errors:
  "(to_release m = Inl MissingField \<longleftrightarrow>
      or_transition m = None \<or>
      (\<exists>t tm. or_transition m = Some tm \<and> to_owned_transition tm = Inr t \<and>
         (or_cert m = None \<or>
          (\<exists>c cm. or_cert m = Some cm \<and> to_cert cm = Inr c \<and> or_counter m = None)))) \<and>
   (to_release m = Inl BadSlot \<longleftrightarrow>
      (\<exists>t tm cm. or_transition m = Some tm \<and> to_owned_transition tm = Inr t \<and> or_cert m = Some cm \<and>
         length (rc_pk_hw cm) \<le> MAX_PK_HW \<and> length (rc_sigma cm) \<le> MAX_SIGMA \<and>
         65535 < unat (rc_slot cm))) \<and>
   to_release m \<noteq> Inl BadOp \<and> to_release m \<noteq> Inl Decode"
  unfolding to_cert_BadSlot_iff [symmetric]
  by (auto simp: to_release_def bind_res_Inl_iff required_Inl_iff required_Inr_iff
      dest: to_owned_transition_Inl to_cert_Inl to_evidence_Inl)

end
