(* ===== verification/Wire_Format.thy ===== *)
theory Wire_Format
  imports Host_Script Proto
begin

text \<open>
  The protobuf wire format, with the encoder and the parser of the host script: parsing inverts
  encoding; the messages of \<open>proto/dsm_anchor.proto\<close> as lists of fields, and the codec that
  they give, which is an instance of what the model takes from prost.
\<close>

section \<open>Parsing inverts encoding\<close>

lemma and_127: "n AND 127 = n mod (128 :: nat)"
proof -
  have "n AND 127 = take_bit 7 n" by (simp add: take_bit_eq_mask mask_eq_exp_minus_1)
  then show ?thesis by (simp add: take_bit_eq_mod)
qed

lemma and_128_iff: "n AND 128 = 0 \<longleftrightarrow> even (n div (128 :: nat))"
  using and_exp_eq_0_iff_not_bit [of n 7] by (simp add: bit_iff_odd)

lemma or_128:
  assumes "b < (128 :: nat)"
  shows "b OR 128 = b + 128"
proof -
  have "b AND 128 = 0" using assms by (simp add: and_128_iff)
  then show ?thesis by (rule disjunctive_add_eq_or [symmetric])
qed

lemma unat_of_nat_byte: "n < 256 \<Longrightarrow> unat (of_nat n :: byte) = n"
  by (simp add: unsigned_of_nat take_bit_nat_eq_self)

lemma varint_low: "n OR push_bit s (x mod 128) OR push_bit (s + 7) (x div 128) = n OR push_bit s (x :: nat)"
proof -
  have "push_bit s (x mod 128) OR push_bit (s + 7) (x div 128) = push_bit s (take_bit 7 x OR push_bit 7 (drop_bit 7 x))"
    by (simp add: take_bit_eq_mod drop_bit_eq_div push_bit_or ac_simps)
  also have "take_bit 7 x OR push_bit 7 (drop_bit 7 x) = x"
  proof (rule bit_eqI)
    fix i
    show "bit (take_bit 7 x OR push_bit 7 (drop_bit 7 x)) i = bit x i"
      by (cases "i < 7") (simp_all add: bit_take_bit_iff bit_push_bit_iff bit_drop_bit_eq bit_or_iff)
  qed
  finally show ?thesis by (simp add: or.assoc)
qed

lemma varint_eq:
  "varint n = (if n < 128 then [of_nat n] else of_nat (n mod 128 + 128) # varint (n div 128))"
proof -
  have "n div 128 = 0 \<longleftrightarrow> n < 128" by auto
  then show ?thesis by (subst varint.simps) (simp add: Let_def and_127 or_128 drop_bit_eq_div)
qed

lemma varint_induct [case_names less step]:
  assumes "\<And>n. n < 128 \<Longrightarrow> P n" and "\<And>n. 128 \<le> n \<Longrightarrow> P (n div 128) \<Longrightarrow> P n"
  shows "P (n :: nat)"
proof (induction n rule: less_induct)
  case (less n)
  with assms show ?case by (cases "n < 128") auto
qed

lemma read_varint_loop_varint:
  "read_varint_loop (p @ varint n @ r) (length p) acc s
     = Inr (acc OR push_bit s n, length p + length (varint n))"
proof (induction n arbitrary: p acc s rule: varint_induct)
  case (less n)
  then show ?case
    by (subst read_varint_loop.simps)
      (simp add: varint_eq unat_of_nat_byte nth_append and_127 and_128_iff)
next
  case (step n)
  let ?b = "of_nat (n mod 128 + 128) :: byte"
  have b: "unat ?b = n mod 128 + 128" by (rule unat_of_nat_byte) simp
  have "(n mod 128 + 128) div 128 = 1" by (rule div_nat_eqI) simp_all
  then have odd: "odd ((n mod 128 + 128) div 128)" by simp
  have "read_varint_loop (p @ varint n @ r) (length p) acc s =
      read_varint_loop ((p @ [?b]) @ varint (n div 128) @ r) (length (p @ [?b])) (acc OR push_bit s (n mod 128)) (s + 7)"
    using step.hyps b odd
    by (subst read_varint_loop.simps)
      (simp add: varint_eq [of n] Let_def nth_append and_127 and_128_iff del: of_nat_add)
  also have "\<dots> = Inr (acc OR push_bit s n, length p + length (varint n))"
    using step.hyps varint_low [of acc s n]
    by (simp only: step.IH) (simp add: varint_eq [of n] or.assoc)
  finally show ?case .
qed

lemma read_varint_append [simp]:
  "read_varint (p @ varint n @ r) (length p) = Inr (n, length p + length (varint n))"
  by (simp add: read_varint_def read_varint_loop_varint)

text \<open>A message as the list of its fields, in the order of their encoding.\<close>

type_synonym wire_fields = "(nat \<times> field_value) list"

fun encode_field :: "nat \<times> field_value \<Rightarrow> byte list" where
  "encode_field (f, VInt n) = uint_f f n"
| "encode_field (f, VBytes bs) = bytes_f f bs"

definition encode_fields :: "wire_fields \<Rightarrow> byte list" where
  "encode_fields fs = concat (map encode_field fs)"

lemma encode_fields_simps [simp]:
  "encode_fields [] = []" "encode_fields (f # fs) = encode_field f @ encode_fields fs"
  "encode_fields (fs @ gs) = encode_fields fs @ encode_fields gs"
  by (simp_all add: encode_fields_def)

text \<open>Later fields win.\<close>

definition add_fields :: "wire_fields \<Rightarrow> (nat \<rightharpoonup> field_value) \<Rightarrow> (nat \<rightharpoonup> field_value)" where
  "add_fields fs m = fold (\<lambda>(f, v) m. m(f \<mapsto> v)) fs m"

lemma add_fields_simps [simp]:
  "add_fields [] m = m" "add_fields ((f, v) # fs) m = add_fields fs (m(f \<mapsto> v))"
  "add_fields (fs @ gs) m = add_fields gs (add_fields fs m)"
  by (simp_all add: add_fields_def)

lemma tag_wire:
  assumes "w < 8"
  shows "drop_bit 3 (push_bit 3 f OR w) = (f :: nat)" and "(push_bit 3 f OR w) AND 7 = w"
proof -
  have w: "take_bit 3 w = w" using assms by (simp add: take_bit_nat_eq_self)
  have "bit w i \<Longrightarrow> i < 3" for i by (metis w bit_take_bit_iff)
  then show "drop_bit 3 (push_bit 3 f OR w) = f"
    by (intro bit_eqI) (auto simp: bit_or_iff bit_push_bit_iff bit_drop_bit_eq)
  have "x AND 7 = take_bit 3 x" for x :: nat by (simp add: take_bit_eq_mask mask_eq_exp_minus_1)
  moreover have "take_bit 3 (push_bit 3 f) = 0" by (rule bit_eqI) (simp add: bit_take_bit_iff bit_push_bit_iff)
  ultimately show "(push_bit 3 f OR w) AND 7 = w" using w by simp
qed

lemma varint_not_Nil [simp]: "varint n \<noteq> []"
  by (simp add: varint_eq)

lemma parse_loop_uint:
  "parse_loop (p @ uint_f f n @ r) (length p) out =
     parse_loop ((p @ uint_f f n) @ r) (length (p @ uint_f f n)) (out(f \<mapsto> VInt n))"
proof -
  let ?t = "varint (push_bit 3 f OR 0)"
  have "read_varint (p @ uint_f f n @ r) (length p) = Inr (push_bit 3 f OR 0, length (p @ ?t))"
    by (simp add: uint_f_def wire_tag_def)
  moreover have "read_varint (p @ uint_f f n @ r) (length (p @ ?t)) = Inr (n, length (p @ ?t) + length (varint n))"
    using read_varint_append [of "p @ ?t" n r] by (simp add: uint_f_def wire_tag_def)
  moreover have "p @ uint_f f n @ r \<noteq> p" by (simp add: uint_f_def wire_tag_def)
  ultimately show ?thesis
    using tag_wire [of 0 f]
    by (subst parse_loop.simps) (simp add: Let_def, simp add: uint_f_def wire_tag_def add.assoc)
qed

lemma parse_loop_bytes:
  "parse_loop (p @ bytes_f f bs @ r) (length p) out =
     parse_loop ((p @ bytes_f f bs) @ r) (length (p @ bytes_f f bs)) (out(f \<mapsto> VBytes bs))"
proof -
  let ?t = "varint (push_bit 3 f OR 2)" and ?n = "varint (length bs)"
  have "read_varint (p @ bytes_f f bs @ r) (length p) = Inr (push_bit 3 f OR 2, length (p @ ?t))"
    by (simp add: bytes_f_def wire_tag_def)
  moreover have "read_varint (p @ bytes_f f bs @ r) (length (p @ ?t)) = Inr (length bs, length (p @ ?t) + length ?n)"
    using read_varint_append [of "p @ ?t" "length bs" "bs @ r"] by (simp add: bytes_f_def wire_tag_def)
  moreover have "take (length bs) (drop (length (p @ ?t) + length ?n) (p @ bytes_f f bs @ r)) = bs"
    by (simp add: bytes_f_def wire_tag_def)
  ultimately show ?thesis
    using tag_wire [of 2 f]
    by (subst parse_loop.simps) (simp add: Let_def, simp add: bytes_f_def wire_tag_def add.assoc)
qed

lemma parse_loop_fields:
  "parse_loop (p @ encode_fields fs @ r) (length p) out =
     parse_loop ((p @ encode_fields fs) @ r) (length (p @ encode_fields fs)) (add_fields fs out)"
proof (induction fs arbitrary: p out)
  case Nil
  then show ?case by simp
next
  case (Cons x fs)
  obtain f v where x: "x = (f, v)" by (cases x)
  have "parse_loop (p @ encode_field x @ encode_fields fs @ r) (length p) out =
      parse_loop ((p @ encode_field x) @ encode_fields fs @ r) (length (p @ encode_field x)) (out(f \<mapsto> v))"
    using parse_loop_uint [of p f _ "encode_fields fs @ r"] parse_loop_bytes [of p f _ "encode_fields fs @ r"]
    by (cases v) (simp_all add: x)
  with Cons.IH [of "p @ encode_field x" "out(f \<mapsto> v)"] show ?case by (simp add: x del: fun_upd_apply)
qed

lemma parse_fields: "parse (encode_fields fs) = Inr (add_fields fs Map.empty)"
  using parse_loop_fields [of "[]" fs "[]"]
  by (simp add: parse_def) (subst parse_loop.simps, simp)

section \<open>The messages of the schema\<close>

text \<open>In proto3 a scalar field with its default value is left out, and an absent message field too.\<close>

definition opt_num :: "nat \<Rightarrow> 'a::len word \<Rightarrow> wire_fields" where
  "opt_num f w = (if w = 0 then [] else [(f, VInt (unat w))])"

definition opt_bytes :: "nat \<Rightarrow> byte list \<Rightarrow> wire_fields" where
  "opt_bytes f bs = (if bs = [] then [] else [(f, VBytes bs)])"

definition opt_msg :: "nat \<Rightarrow> ('m \<Rightarrow> wire_fields) \<Rightarrow> 'm option \<Rightarrow> wire_fields" where
  "opt_msg f enc m = (case m of None \<Rightarrow> [] | Some x \<Rightarrow> [(f, VBytes (encode_fields (enc x)))])"

definition num_at :: "nat \<Rightarrow> (nat \<rightharpoonup> field_value) \<Rightarrow> 'a::len word" where
  "num_at f m = (case m f of Some (VInt n) \<Rightarrow> of_nat n | _ \<Rightarrow> 0)"

definition bytes_at :: "nat \<Rightarrow> (nat \<rightharpoonup> field_value) \<Rightarrow> byte list" where
  "bytes_at f m = (case m f of Some (VBytes bs) \<Rightarrow> bs | _ \<Rightarrow> [])"

definition msg_at :: "nat \<Rightarrow> ((nat \<rightharpoonup> field_value) \<Rightarrow> 'm) \<Rightarrow> (nat \<rightharpoonup> field_value) \<Rightarrow> 'm option" where
  "msg_at f dec m =
     (case m f of
        Some (VBytes bs) \<Rightarrow> (case parse bs of Inr m' \<Rightarrow> Some (dec m') | Inl _ \<Rightarrow> None)
      | _ \<Rightarrow> None)"

lemma add_opt_lookup:
  "add_fields (opt_num f w) m g = (if g = f \<and> w \<noteq> 0 then Some (VInt (unat w)) else m g)"
  "add_fields (opt_bytes f bs) m g = (if g = f \<and> bs \<noteq> [] then Some (VBytes bs) else m g)"
  "add_fields (opt_msg f enc x) m g =
     (if g = f \<and> x \<noteq> None then Some (VBytes (encode_fields (enc (the x)))) else m g)"
  by (auto simp: opt_num_def opt_bytes_def opt_msg_def split: option.split)

named_theorems field_reads \<open>reading one field of an encoded message\<close>

lemma at_other [field_reads]:
  assumes "g \<noteq> f"
  shows "num_at g (add_fields (opt_num f w) m) = num_at g m"
    and "num_at g (add_fields (opt_bytes f bs) m) = num_at g m"
    and "num_at g (add_fields (opt_msg f enc x) m) = num_at g m"
    and "bytes_at g (add_fields (opt_num f w) m) = bytes_at g m"
    and "bytes_at g (add_fields (opt_bytes f bs) m) = bytes_at g m"
    and "bytes_at g (add_fields (opt_msg f enc x) m) = bytes_at g m"
    and "msg_at g dec (add_fields (opt_num f w) m) = msg_at g dec m"
    and "msg_at g dec (add_fields (opt_bytes f bs) m) = msg_at g dec m"
    and "msg_at g dec (add_fields (opt_msg f enc x) m) = msg_at g dec m"
  using assms by (simp_all add: num_at_def bytes_at_def msg_at_def add_opt_lookup)

lemma at_this [field_reads]:
  "num_at f (add_fields (opt_num f w) m) = (if w = 0 then num_at f m else of_nat (unat w))"
  "bytes_at f (add_fields (opt_bytes f bs) m) = (if bs = [] then bytes_at f m else bs)"
  by (simp_all add: num_at_def bytes_at_def add_opt_lookup)

lemma at_msg [field_reads]:
  assumes "\<And>y. dec (add_fields (enc y) Map.empty) = y"
  shows "msg_at f dec (add_fields (opt_msg f enc x) m) = (if x = None then msg_at f dec m else x)"
  using assms by (auto simp: msg_at_def add_opt_lookup parse_fields)

lemma at_empty [field_reads]:
  "num_at f Map.empty = 0" "bytes_at f Map.empty = []" "msg_at f dec Map.empty = None"
  by (simp_all add: num_at_def bytes_at_def msg_at_def)

lemma default_if [field_reads]:
  "(if w = 0 then 0 else w) = (w :: 'a::len word)" "(if bs = [] then [] else bs) = bs"
  "(if x = None then None else x) = x"
  by simp_all

definition wire_transition :: "pb_transition \<Rightarrow> wire_fields" where
  "wire_transition t =
     opt_bytes 1 (tp_relationship_id t) @ opt_bytes 2 (tp_object_id t) @
     opt_bytes 3 (tp_sender_device_id t) @ opt_bytes 4 (tp_recipient_device_id t) @
     opt_bytes 5 (tp_prev_root t) @ opt_bytes 6 (tp_next_root t) @
     opt_num 7 (tp_anchor_counter t) @ opt_num 8 (tp_next_anchor_counter t) @
     opt_num 9 (tp_action_type t) @ opt_bytes 10 (tp_action_fields t) @
     opt_bytes 11 (tp_payload_hash t) @ opt_bytes 12 (tp_old_leaf_proof t) @
     opt_bytes 13 (tp_new_leaf_proof t) @ opt_bytes 14 (tp_authority_policy_hash t)"

definition wire_cert :: "pb_certificate \<Rightarrow> wire_fields" where
  "wire_cert c =
     opt_bytes 1 (rc_prev_root c) @ opt_bytes 2 (rc_next_root c) @
     opt_num 3 (rc_anchor_counter c) @ opt_num 4 (rc_next_anchor_counter c) @
     opt_bytes 5 (rc_transition_digest c) @ opt_bytes 6 (rc_witness_input c) @
     opt_bytes 7 (rc_pk_hash c) @ opt_bytes 8 (rc_pk_hw c) @ opt_bytes 9 (rc_sigma c) @
     opt_bytes 10 (rc_anchor_id c) @ opt_num 11 (rc_slot c) @ opt_bytes 12 (rc_receiver_challenge c)"

definition wire_evidence :: "pb_evidence \<Rightarrow> wire_fields" where
  "wire_evidence e =
     opt_bytes 1 (ce_anchor_id e) @ opt_num 2 (ce_enrolled_counter e) @
     opt_num 3 (ce_live_counter_claim e) @ opt_num 4 (ce_derived_index_claim e) @
     opt_bytes 5 (ce_verifier_transcript e)"

definition wire_release :: "pb_release \<Rightarrow> wire_fields" where
  "wire_release r =
     opt_msg 1 wire_transition (or_transition r) @ opt_msg 2 wire_cert (or_cert r) @
     opt_msg 3 wire_evidence (or_counter r)"

text \<open>An enum is an \<open>int32\<close>, extended with its sign to 64 bits.\<close>

definition enum_u64 :: "i32 \<Rightarrow> u64" where
  "enum_u64 x = scast x"

definition wire_request :: "pb_request \<Rightarrow> wire_fields" where
  "wire_request r =
     opt_num 1 (enum_u64 (rq_op r)) @ opt_msg 2 wire_transition (rq_transition r) @
     opt_bytes 3 (rq_receiver_challenge r)"

definition wire_response :: "pb_response \<Rightarrow> wire_fields" where
  "wire_response r =
     opt_num 1 (enum_u64 (rs_op r)) @ opt_num 2 (if rs_ok r then 1 else 0 :: u32) @
     opt_num 3 (rs_error r) @ opt_msg 4 wire_release (rs_release r) @
     opt_bytes 5 (rs_active_root r) @ opt_num 6 (rs_active_index r) @ opt_num 7 (rs_status r)"

section \<open>Reading the messages\<close>

definition read_transition :: "(nat \<rightharpoonup> field_value) \<Rightarrow> pb_transition" where
  "read_transition m =
     \<lparr> tp_relationship_id = bytes_at 1 m, tp_object_id = bytes_at 2 m,
       tp_sender_device_id = bytes_at 3 m, tp_recipient_device_id = bytes_at 4 m,
       tp_prev_root = bytes_at 5 m, tp_next_root = bytes_at 6 m,
       tp_anchor_counter = num_at 7 m, tp_next_anchor_counter = num_at 8 m,
       tp_action_type = num_at 9 m, tp_action_fields = bytes_at 10 m,
       tp_payload_hash = bytes_at 11 m, tp_old_leaf_proof = bytes_at 12 m,
       tp_new_leaf_proof = bytes_at 13 m, tp_authority_policy_hash = bytes_at 14 m \<rparr>"

definition read_cert :: "(nat \<rightharpoonup> field_value) \<Rightarrow> pb_certificate" where
  "read_cert m =
     \<lparr> rc_prev_root = bytes_at 1 m, rc_next_root = bytes_at 2 m, rc_anchor_counter = num_at 3 m,
       rc_next_anchor_counter = num_at 4 m, rc_transition_digest = bytes_at 5 m,
       rc_witness_input = bytes_at 6 m, rc_pk_hash = bytes_at 7 m, rc_pk_hw = bytes_at 8 m,
       rc_sigma = bytes_at 9 m, rc_anchor_id = bytes_at 10 m, rc_slot = num_at 11 m,
       rc_receiver_challenge = bytes_at 12 m \<rparr>"

definition read_evidence :: "(nat \<rightharpoonup> field_value) \<Rightarrow> pb_evidence" where
  "read_evidence m =
     \<lparr> ce_anchor_id = bytes_at 1 m, ce_enrolled_counter = num_at 2 m,
       ce_live_counter_claim = num_at 3 m, ce_derived_index_claim = num_at 4 m,
       ce_verifier_transcript = bytes_at 5 m \<rparr>"

definition read_release :: "(nat \<rightharpoonup> field_value) \<Rightarrow> pb_release" where
  "read_release m =
     \<lparr> or_transition = msg_at 1 read_transition m, or_cert = msg_at 2 read_cert m,
       or_counter = msg_at 3 read_evidence m \<rparr>"

definition read_request :: "(nat \<rightharpoonup> field_value) \<Rightarrow> pb_request" where
  "read_request m =
     \<lparr> rq_op = num_at 1 m, rq_transition = msg_at 2 read_transition m,
       rq_receiver_challenge = bytes_at 3 m \<rparr>"

definition read_response :: "(nat \<rightharpoonup> field_value) \<Rightarrow> pb_response" where
  "read_response m =
     \<lparr> rs_op = num_at 1 m, rs_ok = (num_at 2 m \<noteq> (0 :: u32)), rs_error = num_at 3 m,
       rs_release = msg_at 4 read_release m, rs_active_root = bytes_at 5 m,
       rs_active_index = num_at 6 m, rs_status = num_at 7 m \<rparr>"

lemma ucast_enum [simp]: "(ucast (enum_u64 x) :: i32) = x"
  by (rule bit_word_eqI) (simp add: enum_u64_def bit_simps)

lemma enum_u64_0_iff [simp]: "enum_u64 x = 0 \<longleftrightarrow> x = 0"
proof
  assume "enum_u64 x = 0"
  then have "(ucast (enum_u64 x) :: i32) = 0" by simp
  then show "x = 0" by (simp only: ucast_enum)
qed (simp add: enum_u64_def)

lemma read_transition_fields [field_reads]: "read_transition (add_fields (wire_transition t) Map.empty) = t"
  by (simp add: wire_transition_def read_transition_def field_reads)

lemma read_cert_fields [field_reads]: "read_cert (add_fields (wire_cert c) Map.empty) = c"
  by (simp add: wire_cert_def read_cert_def field_reads)

lemma read_evidence_fields [field_reads]: "read_evidence (add_fields (wire_evidence e) Map.empty) = e"
  by (simp add: wire_evidence_def read_evidence_def field_reads)

lemma read_release_fields [field_reads]: "read_release (add_fields (wire_release r) Map.empty) = r"
  by (simp add: wire_release_def read_release_def field_reads)

lemma read_request_fields: "read_request (add_fields (wire_request r) Map.empty) = r"
  by (simp add: wire_request_def read_request_def field_reads)

lemma read_response_fields: "read_response (add_fields (wire_response r) Map.empty) = r"
  by (simp add: wire_response_def read_response_def field_reads)

section \<open>The codec\<close>

definition proto3 :: prost where
  "proto3 =
     \<lparr> px_decode_request = (\<lambda>bs. case parse bs of Inl _ \<Rightarrow> None | Inr m \<Rightarrow> Some (read_request m)),
       px_encode_request = (\<lambda>r. encode_fields (wire_request r)),
       px_decode_response = (\<lambda>bs. case parse bs of Inl _ \<Rightarrow> None | Inr m \<Rightarrow> Some (read_response m)),
       px_encode_response = (\<lambda>r. encode_fields (wire_response r)) \<rparr>"

text \<open>What prost promises: requests survive, and the bytes of both messages are those of proto3.\<close>

definition writes_proto3 :: "prost \<Rightarrow> bool" where
  "writes_proto3 X \<longleftrightarrow>
     (\<forall>r. px_encode_request X r = encode_fields (wire_request r)) \<and>
     (\<forall>r. px_encode_response X r = encode_fields (wire_response r)) \<and>
     (\<forall>r. px_decode_request X (px_encode_request X r) = Some r) \<and>
     (\<forall>r. px_decode_response X (px_encode_response X r) = Some r)"

lemma writes_proto3D:
  assumes "writes_proto3 X"
  shows "px_encode_request X q = encode_fields (wire_request q)"
    and "px_encode_response X r = encode_fields (wire_response r)"
    and "px_decode_request X (encode_fields (wire_request q)) = Some q"
    and "px_decode_response X (encode_fields (wire_response r)) = Some r"
  using assms by (metis writes_proto3_def)+

lemma proto3_writes: "writes_proto3 proto3"
  by (simp add: writes_proto3_def proto3_def parse_fields read_request_fields read_response_fields)

text \<open>
  A message that ends inside its first varint, each byte announcing another one, is no message: a
  decoder of protobuf refuses it.
\<close>

definition refuses_open_varints :: "prost \<Rightarrow> bool" where
  "refuses_open_varints X \<longleftrightarrow>
     (\<forall>bs. bs \<noteq> [] \<longrightarrow> list_all (\<lambda>b. b AND 0x80 \<noteq> 0) bs \<longrightarrow> px_decode_request X bs = None)"

lemma read_open_varint:
  "list_all (\<lambda>b. b AND 0x80 \<noteq> 0) bs \<Longrightarrow> read_varint_loop bs i n s = Inl IndexError"
proof (induction bs i n s rule: read_varint_loop.induct)
  case (1 bs i n s)
  show ?case
  proof (cases "i < length bs")
    case True
    have "unat (bs ! i) AND 0x80 = unat (bs ! i AND 0x80)" by (simp add: unsigned_and_eq)
    moreover have "bs ! i AND 0x80 \<noteq> 0" using "1.prems" True by (simp add: list_all_length)
    ultimately have "unat (bs ! i) AND 0x80 \<noteq> 0" by (metis unat_eq_zero)
    with "1.IH" [OF True refl refl _ "1.prems"] True show ?thesis
      by (subst read_varint_loop.simps) (simp add: Let_def)
  qed (simp add: read_varint_loop.simps)
qed

lemma proto3_refuses: "refuses_open_varints proto3"
proof -
  have "parse bs = Inl IndexError" if "bs \<noteq> []" "list_all (\<lambda>b. b AND 0x80 \<noteq> 0) bs" for bs
    using that read_open_varint [of bs 0 0 0] by (simp add: parse_def parse_loop.simps read_varint_def)
  then show ?thesis by (simp add: refuses_open_varints_def proto3_def)
qed

end
