(* ===== verification/Hardware.thy ===== *)
theory Hardware
  imports Prelude
begin

text \<open>
  The set-up of the hardware at the beginning of \<open>main\<close> (\<open>firmware/src/main.rs\<close>): the calls of the
  hardware abstraction layer in the order and with the arguments of the code, and the \<open>unwrap\<close> after
  those that can fail. What a call does to the chip is a parameter.
\<close>

section \<open>The calls\<close>

text \<open>
  Handles that only pass from one call to the next are left out; pins are named by their GPIO number.
  \<open>InitSpi\<close> has MOSI, MISO, SCK, the baud rate in Hz and the SPI mode, \<open>NewSpiDevice\<close> the chip select.
\<close>

datatype hal_call =
    HeapInit nat
  | TakePeripherals
  | NewWatchdog
  | InitClocks u32
  | InitRingOscillator
  | NewTimer
  | NewSio
  | NewPins
  | PinSpi nat
  | PinPushPull nat
  | InitSpi nat nat nat u32 nat
  | NewSpiDevice nat
  | NewUsbBus
  | NewSerialPort
  | NewUsbBuilder u16 u16
  | UsbStrings string string string
  | UsbMaxPacketSize0 nat
  | UsbClassCdc
  | UsbBuild

text \<open>The calls whose result is unwrapped.\<close>

definition unwrapped :: "hal_call \<Rightarrow> bool" where
  "unwrapped call =
     (case call of
        TakePeripherals \<Rightarrow> True
      | InitClocks _ \<Rightarrow> True
      | NewSpiDevice _ \<Rightarrow> True
      | UsbStrings _ _ _ \<Rightarrow> True
      | UsbMaxPacketSize0 _ \<Rightarrow> True
      | _ \<Rightarrow> False)"

definition HEAP_SIZE :: nat where "HEAP_SIZE = 64 * 1024"
definition XTAL_HZ :: u32 where "XTAL_HZ = 12000000"

text \<open>Before the ephemeral key is drawn, and after.\<close>

definition early_setup :: "hal_call list" where
  "early_setup =
     [HeapInit HEAP_SIZE,
      TakePeripherals,
      NewWatchdog,
      InitClocks XTAL_HZ,
      InitRingOscillator]"

definition late_setup :: "hal_call list" where
  "late_setup =
     [NewTimer,
      NewSio,
      NewPins,
      PinSpi 18, PinSpi 19, PinSpi 16, PinPushPull 17,
      InitSpi 19 16 18 1000000 0,
      NewSpiDevice 17,
      NewUsbBus,
      NewSerialPort,
      NewUsbBuilder 0x1209 0xd5a1,
      UsbStrings ''DSM'' ''DSM Anchor'' ''dsm-anchor'',
      UsbMaxPacketSize0 64,
      UsbClassCdc,
      UsbBuild]"

section \<open>Running them\<close>

text \<open>\<open>None\<close> is the panic of an \<open>unwrap\<close>, which halts the device.\<close>

fun run_setup :: "(hal_call \<Rightarrow> 'u \<Rightarrow> bool \<times> 'u) \<Rightarrow> hal_call list \<Rightarrow> 'u \<Rightarrow> 'u option" where
  "run_setup H [] u = Some u"
| "run_setup H (call # calls) u =
     (case H call u of
        (ok, u) \<Rightarrow> if unwrapped call \<and> \<not> ok then None else run_setup H calls u)"

text \<open>The state before each call, as long as nothing panics.\<close>

fun setup_states :: "(hal_call \<Rightarrow> 'u \<Rightarrow> bool \<times> 'u) \<Rightarrow> hal_call list \<Rightarrow> 'u \<Rightarrow> (hal_call \<times> 'u) list" where
  "setup_states H [] u = []"
| "setup_states H (call # calls) u = (call, u) # setup_states H calls (snd (H call u))"

lemma run_setup_returns_iff:
  "run_setup H calls u \<noteq> None \<longleftrightarrow>
     (\<forall>(call, v)\<in>set (setup_states H calls u). unwrapped call \<longrightarrow> fst (H call v))"
  by (induction calls arbitrary: u) (auto split: prod.splits)

lemma run_setup_append:
  "run_setup H (xs @ ys) u = (case run_setup H xs u of None \<Rightarrow> None | Some v \<Rightarrow> run_setup H ys v)"
  by (induction xs arbitrary: u) (auto split: prod.splits)

lemma run_setup_keeps:
  assumes keeps: "\<And>call u. Q u \<Longrightarrow> Q (snd (H call u))"
  shows "run_setup H calls u = Some v \<Longrightarrow> Q u \<Longrightarrow> Q v"
proof (induction calls arbitrary: u)
  case (Cons call calls)
  have "run_setup H calls (snd (H call u)) = Some v"
    using Cons.prems(1) by (cases "H call u") (auto split: if_splits)
  from Cons.IH [OF this keeps [OF Cons.prems(2)]] show ?case .
qed simp

section \<open>The wiring\<close>

text \<open>
  The SPI bus is set up on pins that were given the SPI function before, and the chip select on the
  pin that was made an output: SCK, MOSI, MISO and CS on GPIO 18, 19, 16 and 17, as the wiring
  table at the head of \<open>main.rs\<close> says.
\<close>

lemma wiring:
  "InitSpi mosi miso sck baud mode \<in> set late_setup \<Longrightarrow>
     sck = 18 \<and> mosi = 19 \<and> miso = 16 \<and> mode = 0 \<and> {PinSpi sck, PinSpi mosi, PinSpi miso} \<subseteq> set late_setup"
  "NewSpiDevice cs \<in> set late_setup \<Longrightarrow> cs = 17 \<and> PinPushPull cs \<in> set late_setup"
  by (simp_all add: late_setup_def)

end
