(* ===== verification/Usb.thy ===== *)
theory Usb
  imports Hardware
begin

text \<open>
  The USB side of \<open>firmware/src/main.rs\<close>: the serial port as a parameter, \<open>put\<close> and \<open>write_all\<close>,
  and the report buffer \<open>BufW\<close>. What \<open>write_all\<close> delivers, and when it returns.
\<close>

section \<open>The serial port\<close>

text \<open>
  The calls of \<open>usb_device\<close> and \<open>usbd_serial\<close> that the firmware makes, over a state that stands for
  the peripheral and the host behind it. \<open>pt_write\<close> may accept part of the data. A read returns
  \<open>None\<close> for an error. The results of \<open>poll\<close> and \<open>flush\<close> are never used.
\<close>

datatype usb_reply = Wrote nat | WouldBlock | UsbFailed

record 'u port =
  pt_poll :: "'u \<Rightarrow> 'u"
  pt_write :: "byte list \<Rightarrow> 'u \<Rightarrow> usb_reply \<times> 'u"
  pt_read :: "nat \<Rightarrow> 'u \<Rightarrow> byte list option \<times> 'u"
  pt_flush :: "'u \<Rightarrow> 'u"

text \<open>\<open>put\<close> makes one attempt and ignores how much of the message was accepted.\<close>

definition put :: "('u, 'x) port_scheme \<Rightarrow> byte list \<Rightarrow> 'u \<Rightarrow> 'u" where
  "put D msg u = snd (pt_write D msg u)"

text \<open>
  \<open>write_all\<close>, from \<open>sent\<close> bytes on. It polls until everything is accepted or the driver fails;
  \<open>None\<close> is a call that never returns.
\<close>

partial_function (option) write_all ::
    "('u, 'x) port_scheme \<Rightarrow> byte list \<Rightarrow> nat \<Rightarrow> 'u \<Rightarrow> 'u option" where
  "write_all D data sent u =
     (if sent < length data then
        (case pt_write D (drop sent data) (pt_poll D u) of
           (r, u') \<Rightarrow>
             (case r of
                Wrote n \<Rightarrow> write_all D data (sent + n) u'
              | WouldBlock \<Rightarrow> write_all D data sent u'
              | UsbFailed \<Rightarrow> Some u'))
      else Some u)"

section \<open>The rest of the board\<close>

text \<open>
  What \<open>main\<close> uses of the hardware beside the port: the calls that set it up, with whether they
  succeed, the microsecond counter and the milliseconds
  between two of its readings, the ring oscillator, a transfer on the raw SPI bus, the chip id,
  and the handshake, which gives the chip session. A clock that runs backwards, on which the
  subtraction of instants panics, is not represented.
\<close>

record ('u, 's) board = "'u port" +
  bd_hal :: "hal_call \<Rightarrow> 'u \<Rightarrow> bool \<times> 'u"
  bd_ticks :: "'u \<Rightarrow> u64 \<times> 'u"
  bd_millis :: "u64 \<Rightarrow> u64 \<Rightarrow> u64"
  bd_random_bit :: "'u \<Rightarrow> bool \<times> 'u"
  bd_spi_transfer :: "byte list \<Rightarrow> 'u \<Rightarrow> 'u"
  bd_chip_id :: "'u \<Rightarrow> bool \<times> 'u"
  bd_session_start :: "bytes32 \<Rightarrow> nat \<Rightarrow> 'u \<Rightarrow> 's option \<times> 'u"

section \<open>What is assumed of a port\<close>

text \<open>
  The documented behaviour of the driver, over two histories of the port: the bytes it has
  accepted for the host and the bytes it has handed over from the host.
\<close>

definition usb_port :: "('u, 'x) port_scheme \<Rightarrow> ('u \<Rightarrow> byte list) \<Rightarrow> ('u \<Rightarrow> byte list) \<Rightarrow> bool" where
  "usb_port D sent got \<longleftrightarrow>
     (\<forall>u. sent (pt_poll D u) = sent u \<and> got (pt_poll D u) = got u) \<and>
     (\<forall>data u. got (snd (pt_write D data u)) = got u \<and>
        (case fst (pt_write D data u) of
           Wrote n \<Rightarrow> n \<le> length data \<and> sent (snd (pt_write D data u)) = sent u @ take n data
         | _ \<Rightarrow> sent (snd (pt_write D data u)) = sent u)) \<and>
     (\<forall>n u. sent (snd (pt_read D n u)) = sent u \<and>
        (case fst (pt_read D n u) of
           None \<Rightarrow> got (snd (pt_read D n u)) = got u
         | Some chunk \<Rightarrow> length chunk \<le> n \<and> got (snd (pt_read D n u)) = got u @ chunk))"

definition never_fails :: "('u, 'x) port_scheme \<Rightarrow> bool" where
  "never_fails D \<longleftrightarrow> (\<forall>data u. fst (pt_write D data u) \<noteq> UsbFailed)"

text \<open>One turn of the loop of \<open>write_all\<close>, and the state after some of them.\<close>

definition attempt :: "('u, 'x) port_scheme \<Rightarrow> byte list \<Rightarrow> 'u \<Rightarrow> usb_reply \<times> 'u" where
  "attempt D data u = pt_write D data (pt_poll D u)"

fun after_attempts :: "('u, 'x) port_scheme \<Rightarrow> byte list \<Rightarrow> nat \<Rightarrow> 'u \<Rightarrow> 'u" where
  "after_attempts D data 0 u = u"
| "after_attempts D data (Suc k) u = after_attempts D data k (snd (attempt D data u))"

text \<open>
  A host that keeps reading: after finitely many attempts the driver does something other than
  block, and when it accepts it accepts at least a byte.
\<close>

definition host_drains :: "('u, 'x) port_scheme \<Rightarrow> bool" where
  "host_drains D \<longleftrightarrow>
     (\<forall>data u. data \<noteq> [] \<longrightarrow> (\<exists>k. fst (attempt D data (after_attempts D data k u)) \<noteq> WouldBlock)) \<and>
     (\<forall>data u. data \<noteq> [] \<longrightarrow> fst (attempt D data u) \<noteq> Wrote 0)"

section \<open>Facts about \<open>write_all\<close>\<close>

lemma write_all_step:
  "write_all D data sent u =
     (if sent < length data then
        (case attempt D (drop sent data) u of
           (Wrote n, u') \<Rightarrow> write_all D data (sent + n) u'
         | (WouldBlock, u') \<Rightarrow> write_all D data sent u'
         | (UsbFailed, u') \<Rightarrow> Some u')
      else Some u)"
  by (subst write_all.simps) (simp add: attempt_def split: prod.split)

lemma write_all_empty [simp]: "write_all D [] 0 u = Some u"
  by (subst write_all_step) simp

lemma usb_port_attempt:
  assumes "usb_port D sent got" and "attempt D data u = (r, u')"
  shows "got u' = got u"
    and "r = Wrote n \<Longrightarrow> n \<le> length data \<and> sent u' = sent u @ take n data"
    and "r = WouldBlock \<or> r = UsbFailed \<Longrightarrow> sent u' = sent u"
proof -
  let ?v = "pt_poll D u"
  have p: "sent ?v = sent u" "got ?v = got u" using assms(1) by (simp_all add: usb_port_def)
  have "got (snd (pt_write D data ?v)) = got ?v" and
    w: "case fst (pt_write D data ?v) of
           Wrote n \<Rightarrow> n \<le> length data \<and> sent (snd (pt_write D data ?v)) = sent ?v @ take n data
         | _ \<Rightarrow> sent (snd (pt_write D data ?v)) = sent ?v"
    using assms(1) unfolding usb_port_def by blast+
  then show "got u' = got u" using assms(2) p by (simp add: attempt_def)
  from w show "r = Wrote n \<Longrightarrow> n \<le> length data \<and> sent u' = sent u @ take n data"
    using assms(2) p by (simp add: attempt_def)
  from w show "r = WouldBlock \<or> r = UsbFailed \<Longrightarrow> sent u' = sent u"
    using assms(2) p by (auto simp: attempt_def)
qed

lemma usb_port_read:
  assumes "usb_port D sent got" and "pt_read D n (pt_poll D u) = (r, u')"
  shows "sent u' = sent u"
    and "r = None \<Longrightarrow> got u' = got u"
    and "r = Some chunk \<Longrightarrow> length chunk \<le> n \<and> got u' = got u @ chunk"
proof -
  let ?v = "pt_poll D u"
  have p: "sent ?v = sent u" "got ?v = got u" using assms(1) by (simp_all add: usb_port_def)
  have s: "sent (snd (pt_read D n ?v)) = sent ?v" and
    g: "case fst (pt_read D n ?v) of
          None \<Rightarrow> got (snd (pt_read D n ?v)) = got ?v
        | Some chunk \<Rightarrow> length chunk \<le> n \<and> got (snd (pt_read D n ?v)) = got ?v @ chunk"
    using assms(1) unfolding usb_port_def by blast+
  show "sent u' = sent u" using s p assms(2) by simp
  show "r = None \<Longrightarrow> got u' = got u" using g p assms(2) by simp
  show "r = Some chunk \<Longrightarrow> length chunk \<le> n \<and> got u' = got u @ chunk" using g p assms(2) by simp
qed

text \<open>If it returns, the port has taken a prefix of the data, and all of it unless the driver failed.\<close>

lemma write_all_sends:
  fixes D :: "('u, 'x) port_scheme" and sent got :: "'u \<Rightarrow> byte list"
  assumes port: "usb_port D sent got" and ret: "write_all D data k u = Some u'"
  shows "got u' = got u \<and>
    (\<exists>n. sent u' = sent u @ take n (drop k data) \<and> (never_fails D \<longrightarrow> length data \<le> k + n))"
proof (rule write_all.raw_induct [where P = "\<lambda>D data k u u'. usb_port D sent got \<longrightarrow> got u' = got u \<and>
    (\<exists>n. sent u' = sent u @ take n (drop k data) \<and> (never_fails D \<longrightarrow> length data \<le> k + n))",
    OF _ ret, rule_format, OF _ port])
  fix f :: "('u, 'x) port_scheme \<Rightarrow> byte list \<Rightarrow> nat \<Rightarrow> 'u \<Rightarrow> 'u option" and D data k u r
  let ?Q = "\<lambda>D data k u u'. got u' = got u \<and>
    (\<exists>n. sent u' = sent u @ take n (drop k data) \<and> (never_fails D \<longrightarrow> length data \<le> k + n))"
  assume IH: "\<And>D data k u r. f D data k u = Some r \<Longrightarrow> usb_port D sent got \<Longrightarrow> ?Q D data k u r"
    and eq: "(if k < length data then
        (case pt_write D (drop k data) (pt_poll D u) of
           (r, u') \<Rightarrow> (case r of Wrote n \<Rightarrow> f D data (k + n) u'
              | WouldBlock \<Rightarrow> f D data k u' | UsbFailed \<Rightarrow> Some u'))
      else Some u) = Some r"
    and port: "usb_port D sent got"
  show "?Q D data k u r"
  proof (cases "k < length data")
    case False
    with eq show ?thesis by (intro conjI exI [of _ 0]) auto
  next
    case True
    obtain rep v where a: "attempt D (drop k data) u = (rep, v)" by (metis prod.collapse)
    note step = usb_port_attempt [OF port a]
    from a have w: "pt_write D (drop k data) (pt_poll D u) = (rep, v)" by (simp add: attempt_def)
    show ?thesis
    proof (cases rep)
      case (Wrote n)
      with eq True w have "f D data (k + n) v = Some r" by simp
      from IH [OF this port] obtain m where
        m: "got r = got v" "sent r = sent v @ take m (drop (k + n) data)"
          "never_fails D \<longrightarrow> length data \<le> k + n + m" by blast
      moreover have "take n (drop k data) @ take m (drop (k + n) data) = take (n + m) (drop k data)"
        using take_add [of n m "drop k data"] by (simp add: add.commute)
      ultimately show ?thesis
        using step(1) step(2) [OF Wrote] by (intro conjI exI [of _ "n + m"]) auto
    next
      case WouldBlock
      with eq True w have "f D data k v = Some r" by simp
      from IH [OF this port] step(1) step(3) WouldBlock show ?thesis by simp
    next
      case UsbFailed
      with w have "\<not> never_fails D" by (metis fst_conv never_fails_def)
      with eq True w UsbFailed step(1) step(3) show ?thesis by (intro conjI exI [of _ 0]) auto
    qed
  qed
qed

lemma write_all_sends_all:
  assumes "usb_port D sent got" and "never_fails D" and "write_all D data 0 u = Some u'"
  shows "sent u' = sent u @ data" and "got u' = got u"
  using write_all_sends [OF assms(1,3)] assms(2) by auto

text \<open>It returns when the host keeps reading, and never when the driver blocks forever.\<close>

lemma write_all_after_attempts:
  assumes "k < length data"
    and "\<forall>i<m. fst (attempt D (drop k data) (after_attempts D (drop k data) i u)) = WouldBlock"
  shows "write_all D data k u = write_all D data k (after_attempts D (drop k data) m u)"
  using assms(2)
proof (induction m arbitrary: u)
  case 0
  then show ?case by simp
next
  case (Suc m)
  obtain v where a: "attempt D (drop k data) u = (WouldBlock, v)"
    using Suc.prems [rule_format, of 0] by (metis after_attempts.simps(1) prod.collapse zero_less_Suc)
  have "\<forall>i<m. fst (attempt D (drop k data) (after_attempts D (drop k data) i v)) = WouldBlock"
  proof (intro allI impI)
    fix i
    assume "i < m"
    with Suc.prems [rule_format, of "Suc i"] a
    show "fst (attempt D (drop k data) (after_attempts D (drop k data) i v)) = WouldBlock" by simp
  qed
  from Suc.IH [OF this] show ?case
    using assms(1) a by (subst write_all_step) simp
qed

text \<open>Either it returns, or from some point on the driver refuses every attempt.\<close>

definition blocked_for_good :: "('u, 'x) port_scheme \<Rightarrow> byte list \<Rightarrow> 'u \<Rightarrow> bool" where
  "blocked_for_good D data u \<longleftrightarrow> (\<forall>i. fst (attempt D data (after_attempts D data i u)) = WouldBlock)"

definition accepts_some :: "('u, 'x) port_scheme \<Rightarrow> bool" where
  "accepts_some D \<longleftrightarrow> (\<forall>data u. data \<noteq> [] \<longrightarrow> fst (attempt D data u) \<noteq> Wrote 0)"

lemma host_drains_iff:
  "host_drains D \<longleftrightarrow> (\<forall>data u. data \<noteq> [] \<longrightarrow> \<not> blocked_for_good D data u) \<and> accepts_some D"
  by (simp add: host_drains_def blocked_for_good_def accepts_some_def)

lemma after_attempts_sent:
  assumes port: "usb_port D sent got"
    and "\<forall>i<m. fst (attempt D d (after_attempts D d i u)) = WouldBlock"
  shows "sent (after_attempts D d m u) = sent u"
  using assms(2)
proof (induction m arbitrary: u)
  case 0
  then show ?case by simp
next
  case (Suc m)
  obtain v where a: "attempt D d u = (WouldBlock, v)"
    using Suc.prems [rule_format, of 0] by (metis after_attempts.simps(1) prod.collapse zero_less_Suc)
  have "\<forall>i<m. fst (attempt D d (after_attempts D d i v)) = WouldBlock"
    using Suc.prems a by (metis Suc_less_eq after_attempts.simps(2) snd_conv)
  from Suc.IH [OF this] usb_port_attempt(3) [OF port a] a show ?case by simp
qed

lemma write_all_stuck:
  assumes some: "accepts_some D" and "write_all D data k u = None"
  shows "\<exists>n v. n < length data \<and> blocked_for_good D (drop n data) v \<and>
    (\<forall>sent got. usb_port D sent got \<longrightarrow> k \<le> n \<and> sent v = sent u @ take (n - k) (drop k data))"
  using assms(2)
proof (induction "length data - k" arbitrary: k u rule: less_induct)
  case less
  have True: "k < length data"
    using less.prems by (subst (asm) write_all_step) (simp split: if_splits)
  let ?d = "drop k data"
  have ne: "?d \<noteq> []" using True by simp
  show ?case
  proof (cases "blocked_for_good D ?d u")
    case blocked: True
    show ?thesis
      by (rule exI [of _ k], rule exI [of _ u]) (simp add: True blocked)
  next
    case False
    let ?unblocked = "\<lambda>i. fst (attempt D ?d (after_attempts D ?d i u)) \<noteq> WouldBlock"
    have ex: "\<exists>i. ?unblocked i" using False by (simp add: blocked_for_good_def)
    define m where "m = (LEAST i. ?unblocked i)"
    have m: "?unblocked m" unfolding m_def by (rule LeastI_ex [OF ex])
    have before: "\<forall>i<m. fst (attempt D ?d (after_attempts D ?d i u)) = WouldBlock"
      unfolding m_def using not_less_Least by blast
    note skip = write_all_after_attempts [OF True before]
    obtain rep v where a: "attempt D ?d (after_attempts D ?d m u) = (rep, v)" by (metis prod.collapse)
    show ?thesis
    proof (cases rep)
      case (Wrote n)
      have "n \<noteq> 0" using some ne a Wrote by (metis accepts_some_def fst_conv)
      with True have shorter: "length data - (k + n) < length data - k" by arith
      have "write_all D data (k + n) v = None"
        using skip a Wrote True less.prems by (subst (asm) (2) write_all_step) simp
      from less.hyps [OF shorter this] obtain j w where jw: "j < length data"
        "blocked_for_good D (drop j data) w"
        "\<forall>sent got. usb_port D sent got \<longrightarrow> k + n \<le> j \<and> sent w = sent v @ take (j - (k + n)) (drop (k + n) data)"
        by blast
      have "k \<le> j \<and> sent w = sent u @ take (j - k) (drop k data)" if port: "usb_port D sent got" for sent got
      proof -
        have j: "k + n \<le> j" "sent w = sent v @ take (j - (k + n)) (drop (k + n) data)"
          using jw(3) port by blast+
        have "sent v = sent u @ take n ?d"
          using usb_port_attempt(2) [OF port a Wrote] after_attempts_sent [OF port before] by simp
        moreover have "take n ?d @ take (j - (k + n)) (drop (k + n) data) = take (j - k) ?d"
          using take_add [of n "j - (k + n)" ?d] j(1) by (simp add: add.commute)
        ultimately show ?thesis using j by simp
      qed
      with jw(1,2) show ?thesis by blast
    next
      case WouldBlock
      with m a show ?thesis by simp
    next
      case UsbFailed
      then show ?thesis
        using skip a True less.prems by (subst (asm) (2) write_all_step) simp
    qed
  qed
qed

lemma write_all_terminates:
  assumes "host_drains D"
  shows "\<exists>u'. write_all D data k u = Some u'"
proof (rule ccontr)
  assume "\<nexists>u'. write_all D data k u = Some u'"
  then have "write_all D data k u = None" by simp
  moreover have "accepts_some D" using assms by (simp add: host_drains_iff)
  ultimately obtain n v where "n < length data" "blocked_for_good D (drop n data) v"
    using write_all_stuck [of D data k u] by blast
  with assms show False by (auto simp: host_drains_iff)
qed

lemma write_all_blocked:
  fixes D :: "('u, 'x) port_scheme"
  assumes "k < length data"
    and "\<forall>i. fst (attempt D (drop k data) (after_attempts D (drop k data) i u)) = WouldBlock"
  shows "write_all D data k u = None"
proof (rule ccontr)
  assume "write_all D data k u \<noteq> None"
  then obtain u' where ret: "write_all D data k u = Some u'" by blast
  have "\<not> (k < length data \<and>
      (\<forall>i. fst (attempt D (drop k data) (after_attempts D (drop k data) i u)) = WouldBlock))"
  proof (rule write_all.raw_induct [where P = "\<lambda>D data k u u'. \<not> (k < length data \<and>
      (\<forall>i. fst (attempt D (drop k data) (after_attempts D (drop k data) i u)) = WouldBlock))", OF _ ret],
      rule notI)
    fix f :: "('u, 'x) port_scheme \<Rightarrow> byte list \<Rightarrow> nat \<Rightarrow> 'u \<Rightarrow> 'u option" and D data k u r
    assume IH: "\<And>D data k u r. f D data k u = Some r \<Longrightarrow> \<not> (k < length data \<and>
        (\<forall>i. fst (attempt D (drop k data) (after_attempts D (drop k data) i u)) = WouldBlock))"
      and eq: "(if k < length data then
          (case pt_write D (drop k data) (pt_poll D u) of
             (r, u') \<Rightarrow> (case r of Wrote n \<Rightarrow> f D data (k + n) u'
                | WouldBlock \<Rightarrow> f D data k u' | UsbFailed \<Rightarrow> Some u'))
        else Some u) = Some r"
      and all: "k < length data \<and>
        (\<forall>i. fst (attempt D (drop k data) (after_attempts D (drop k data) i u)) = WouldBlock)"
    obtain v where a: "attempt D (drop k data) u = (WouldBlock, v)"
      using all by (metis after_attempts.simps(1) prod.collapse)
    with eq all have "f D data k v = Some r" by (simp add: attempt_def)
    from IH [OF this] all obtain i where
      "fst (attempt D (drop k data) (after_attempts D (drop k data) i v)) \<noteq> WouldBlock" by blast
    with all a show False by (metis after_attempts.simps(2) snd_conv)
  qed
  with assms show False by blast
qed

section \<open>The report buffer\<close>

text \<open>\<open>BufW\<close>: a buffer of fixed size; text that does not fit is cut.\<close>

record bufw =
  bw_buf :: "byte list"
  bw_len :: nat

definition write_str :: "byte list \<Rightarrow> bufw \<Rightarrow> bufw" where
  "write_str b w =
     (let n = min (length b) (length (bw_buf w) - bw_len w)
      in w\<lparr>bw_buf := take (bw_len w) (bw_buf w) @ take n b @ drop (bw_len w + n) (bw_buf w),
           bw_len := bw_len w + n\<rparr>)"

text \<open>The bytes written so far, \<open>&w.buf[..w.len]\<close>.\<close>

definition bw_text :: "bufw \<Rightarrow> byte list" where
  "bw_text w = take (bw_len w) (bw_buf w)"

text \<open>The subtraction and the slices of \<open>write_str\<close> stay in range as long as this holds.\<close>

definition bufw_ok :: "bufw \<Rightarrow> bool" where
  "bufw_ok w \<longleftrightarrow> bw_len w \<le> length (bw_buf w)"

lemma write_str_ok:
  assumes "bufw_ok w"
  shows "bufw_ok (write_str b w)" and "length (bw_buf (write_str b w)) = length (bw_buf w)"
    and "bw_text (write_str b w) = take (length (bw_buf w)) (bw_text w @ b)"
  using assms by (auto simp: bufw_ok_def write_str_def bw_text_def Let_def min_def)

text \<open>A formatted write is a sequence of pieces; only their concatenation matters.\<close>

lemma write_pieces:
  assumes "bufw_ok w"
  shows "bufw_ok (fold write_str ps w) \<and>
    bw_text (fold write_str ps w) = take (length (bw_buf w)) (bw_text w @ concat ps)"
  using assms
proof (induction ps arbitrary: w)
  case Nil
  then show ?case by (simp add: bufw_ok_def bw_text_def)
next
  case (Cons p ps)
  note ok = write_str_ok [OF Cons.prems, of p]
  have "take n (take n (xs @ p) @ ys) = take n (xs @ p @ ys)" for n and xs ys :: "byte list"
    by (simp add: min_def)
  with Cons.IH [OF ok(1)] ok(2,3) show ?case by simp
qed

end
