(* ===== verification/Service.thy ===== *)
theory Service
  imports Appliance Proto
begin

text \<open>
  \<open>anchor-core/src/service.rs\<close>: the error codes, the dispatch of a decoded request to the
  appliance, and the handling of a frame. A result of \<open>None\<close> is a panic of the operation called.
\<close>

section \<open>Codes\<close>

definition err_NONE :: u32 where "err_NONE = 0"
definition err_WRONG_STATE :: u32 where "err_WRONG_STATE = 1"
definition err_PREV_ROOT_MISMATCH :: u32 where "err_PREV_ROOT_MISMATCH = 2"
definition err_INDEX_MISMATCH :: u32 where "err_INDEX_MISMATCH = 3"
definition err_COUNTER_MISMATCH :: u32 where "err_COUNTER_MISMATCH = 4"
definition err_WITNESS_KEY_LOST :: u32 where "err_WITNESS_KEY_LOST = 5"
definition err_COUNTER_EXHAUSTED :: u32 where "err_COUNTER_EXHAUSTED = 6"
definition err_NOT_COMMITTED :: u32 where "err_NOT_COMMITTED = 7"
definition err_TROPIC :: u32 where "err_TROPIC = 8"
definition err_BAD_PROTO :: u32 where "err_BAD_PROTO = 100"
definition err_MISSING_FIELD :: u32 where "err_MISSING_FIELD = 101"
definition err_BAD_OP :: u32 where "err_BAD_OP = 102"
definition err_FRAME_TOO_LARGE :: u32 where "err_FRAME_TOO_LARGE = 103"

lemmas err_defs =
  err_NONE_def err_WRONG_STATE_def err_PREV_ROOT_MISMATCH_def err_INDEX_MISMATCH_def
  err_COUNTER_MISMATCH_def err_WITNESS_KEY_LOST_def err_COUNTER_EXHAUSTED_def
  err_NOT_COMMITTED_def err_TROPIC_def err_BAD_PROTO_def err_MISSING_FIELD_def err_BAD_OP_def
  err_FRAME_TOO_LARGE_def

definition MAX_FRAME_LEN :: nat where "MAX_FRAME_LEN = 64 * 1024"

definition appliance_code :: "appliance_error \<Rightarrow> u32" where
  "appliance_code e =
     (case e of
        WrongState \<Rightarrow> err_WRONG_STATE
      | PrevRootMismatch \<Rightarrow> err_PREV_ROOT_MISMATCH
      | IndexMismatch \<Rightarrow> err_INDEX_MISMATCH
      | CounterMismatch \<Rightarrow> err_COUNTER_MISMATCH
      | WitnessKeyLost \<Rightarrow> err_WITNESS_KEY_LOST
      | CounterExhausted \<Rightarrow> err_COUNTER_EXHAUSTED
      | NotCommitted \<Rightarrow> err_NOT_COMMITTED
      | TropicErr _ \<Rightarrow> err_TROPIC)"

definition proto_code :: "proto_error \<Rightarrow> u32" where
  "proto_code e =
     (case e of
        MissingField \<Rightarrow> err_MISSING_FIELD
      | BadOp \<Rightarrow> err_BAD_OP
      | _ \<Rightarrow> err_BAD_PROTO)"

definition status_code :: "status \<Rightarrow> u32" where
  "status_code s = (case s of Ready \<Rightarrow> 0 | Prepared \<Rightarrow> 1 | Committed \<Rightarrow> 2)"

section \<open>Responses\<close>

definition base_response :: "i32 \<Rightarrow> pb_response" where
  "base_response x =
     \<lparr> rs_op = x, rs_ok = False, rs_error = err_NONE, rs_release = None, rs_active_root = [],
       rs_active_index = 0, rs_status = 0 \<rparr>"

definition ok_response :: "i32 \<Rightarrow> pb_response" where
  "ok_response x = (base_response x)\<lparr>rs_ok := True\<rparr>"

definition fail_response :: "i32 \<Rightarrow> u32 \<Rightarrow> pb_response" where
  "fail_response x code = (base_response x)\<lparr>rs_error := code\<rparr>"

lemmas response_defs = base_response_def ok_response_def fail_response_def

lemma response_simps [simp]:
  "rs_release (base_response x) = None" "rs_release (ok_response x) = None"
  "rs_release (fail_response x c) = None"
  "rs_ok (ok_response x)" "\<not> rs_ok (base_response x)" "\<not> rs_ok (fail_response x c)"
  "rs_error (fail_response x c) = c" "rs_op (fail_response x c) = x" "rs_op (ok_response x) = x"
  "rs_op (base_response x) = x"
  by (simp_all add: response_defs)

section \<open>Dispatch\<close>

text \<open>The response to an operation that returns no data.\<close>

definition reply :: "i32 \<Rightarrow> (appliance_error, unit) outcome \<Rightarrow> pb_response option" where
  "reply x r =
     (case r of
        Done _ \<Rightarrow> Some (ok_response x)
      | Fail e \<Rightarrow> Some (fail_response x (appliance_code e))
      | Panic \<Rightarrow> None)"

definition dispatch_prepare ::
    "'c platform \<Rightarrow> pb_request \<Rightarrow> 'c appliance \<Rightarrow> pb_response option \<times> 'c appliance" where
  "dispatch_prepare P req a =
     (case rq_transition req of
        None \<Rightarrow> (Some (fail_response (rq_op req) err_MISSING_FIELD), a)
      | Some m \<Rightarrow>
          (case to_owned_transition m of
             Inl e \<Rightarrow> (Some (fail_response (rq_op req) (proto_code e)), a)
           | Inr owned \<Rightarrow>
               (case arr32 (rq_receiver_challenge req) of
                  Inl e \<Rightarrow> (Some (fail_response (rq_op req) (proto_code e)), a)
                | Inr rc \<Rightarrow>
                    (case prepare P (as_transition owned) rc a of
                       (r, a') \<Rightarrow> (reply (rq_op req) r, a')))))"

definition dispatch ::
    "'c platform \<Rightarrow> pb_request \<Rightarrow> 'c appliance \<Rightarrow> pb_response option \<times> 'c appliance" where
  "dispatch P req a =
     (let x = rq_op req in
      case op_try_from x of
        Some OpPrepare \<Rightarrow> dispatch_prepare P req a
      | Some OpCommit \<Rightarrow> (case commit P a of (r, a') \<Rightarrow> (reply x r, a'))
      | Some OpEmit \<Rightarrow>
          (case emit a of
             Inr rel \<Rightarrow>
               (Some ((base_response x)\<lparr>rs_ok := True, rs_release := Some (release_to_pb rel)\<rparr>), a)
           | Inl e \<Rightarrow> (Some (fail_response x (appliance_code e)), a))
      | Some OpFinalize \<Rightarrow>
          (case finalize P a of
             (Inr hr, a') \<Rightarrow>
               (Some ((base_response x)\<lparr>rs_ok := True, rs_active_root := bytes_of hr\<rparr>), a')
           | (Inl e, a') \<Rightarrow> (Some (fail_response x (appliance_code e)), a'))
      | Some OpStatus \<Rightarrow>
          (Some ((base_response x)
             \<lparr>rs_ok := True, rs_active_root := bytes_of (act_root (active a)),
              rs_active_index := act_u (active a),
              rs_status := status_code (act_status (active a))\<rparr>), a)
      | Some OpCancel \<Rightarrow>
          (case cancel a of
             (Inr _, a') \<Rightarrow> (Some (ok_response x), a')
           | (Inl e, a') \<Rightarrow> (Some (fail_response x (appliance_code e)), a'))
      | _ \<Rightarrow> (Some (fail_response x err_BAD_OP), a))"

section \<open>Frames\<close>

definition handle ::
    "prost \<Rightarrow> 'c platform \<Rightarrow> byte list \<Rightarrow> 'c appliance \<Rightarrow> byte list option \<times> 'c appliance" where
  "handle X P frame a =
     (if length frame > MAX_FRAME_LEN then
        (Some (encode_response X (fail_response 0 err_FRAME_TOO_LARGE)), a)
      else case decode_request X frame of
        Inr req \<Rightarrow>
          (case dispatch P req a of (resp, a') \<Rightarrow> (map_option (encode_response X) resp, a'))
      | Inl _ \<Rightarrow> (Some (encode_response X (fail_response 0 err_BAD_PROTO)), a))"

section \<open>Case analysis of a request\<close>

text \<open>
  What a request does: nothing to the appliance, or one operation of it, with the response that
  goes with the result.
\<close>

lemma dispatch_cases:
  obtains (unchanged) resp where "dispatch P req a = (Some resp, a)" and "rs_release resp = None"
  | (prepare) t rc where "dispatch P req a = (reply (rq_op req) (fst (prepare P t rc a)), snd (prepare P t rc a))"
      and "rq_op req = op_number OpPrepare" and "rq_transition req = Some (transition_to_pb t)"
      and "transition_fits t" and "rq_receiver_challenge req = bytes_of rc"
  | (commit) "dispatch P req a = (reply (rq_op req) (fst (commit P a)), snd (commit P a))"
      and "rq_op req = op_number OpCommit"
  | (emit) rel resp where "dispatch P req a = (Some resp, a)" and "emit a = Inr rel"
      and "rs_release resp = Some (release_to_pb rel)" and "rs_ok resp"
      and "rq_op req = op_number OpEmit"
  | (finalize) resp where "dispatch P req a = (Some resp, snd (finalize P a))"
      and "rs_release resp = None" and "rs_ok resp \<longleftrightarrow> (\<exists>h. fst (finalize P a) = Inr h)"
      and "rq_op req = op_number OpFinalize"
  | (cancel) resp where "dispatch P req a = (Some resp, snd (cancel a))"
      and "rs_release resp = None" and "rs_ok resp \<longleftrightarrow> fst (cancel a) = Inr ()"
      and "rq_op req = op_number OpCancel"
proof (cases "op_try_from (rq_op req)")
  case None
  then show ?thesis
    by (intro unchanged [of "fail_response (rq_op req) err_BAD_OP"]) (simp_all add: dispatch_def)
next
  case (Some x)
  note num = Some [unfolded op_try_from_Some_iff]
  show ?thesis
  proof (cases x)
    case OpUnspecified
    with Some show ?thesis
      by (intro unchanged [of "fail_response (rq_op req) err_BAD_OP"]) (simp_all add: dispatch_def)
  next
    case OpPrepare
    with Some have d: "dispatch P req a = dispatch_prepare P req a" by (simp add: dispatch_def)
    show ?thesis
    proof (cases "\<exists>t rc. rq_transition req = Some (transition_to_pb t) \<and> transition_fits t \<and>
        rq_receiver_challenge req = bytes_of rc")
      case True
      then obtain t rc where r: "rq_transition req = Some (transition_to_pb t)" "transition_fits t"
        "rq_receiver_challenge req = bytes_of rc" by blast
      then have "dispatch P req a = (reply (rq_op req) (fst (prepare P t rc a)), snd (prepare P t rc a))"
        by (simp add: d dispatch_prepare_def transition_wire.roundtrip split: prod.split)
      with r num OpPrepare prepare show ?thesis by simp
    next
      case False
      then have "\<exists>code. dispatch P req a = (Some (fail_response (rq_op req) code), a)"
        by (auto simp: d dispatch_prepare_def to_owned_transition_iff arr32_Inr_iff
            split: option.split sum.split)
      then show ?thesis using unchanged response_simps(3) by blast
    qed
  next
    case OpCommit
    with Some num show ?thesis by (intro commit) (simp_all add: dispatch_def split: prod.split)
  next
    case OpEmit
    with Some num show ?thesis
      by (cases "emit a") (auto simp: dispatch_def intro: emit unchanged)
  next
    case OpFinalize
    with Some num show ?thesis
      by (cases "fst (finalize P a)"; cases "finalize P a") (auto simp: dispatch_def intro: finalize)
  next
    case OpStatus
    with Some show ?thesis by (auto simp: dispatch_def intro: unchanged)
  next
    case OpCancel
    with Some num show ?thesis
      by (cases "fst (cancel a)"; cases "cancel a") (auto simp: dispatch_def intro: cancel)
  qed
qed

end
