(* ===== verification/Firmware.thy ===== *)
theory Firmware
  imports Service Recovery Accept Wots
begin

text \<open>
  \<open>firmware/src/main.rs\<close>, the parts that are logic rather than hardware set-up: the bridge from the
  chip session to the \<open>Tropic\<close> trait, enrollment, the boot of the served appliance, the self-test,
  and the framing of requests as a function of the bytes read (the loop with its port is in \<open>Serve\<close>).
  The session of the \<open>tropic01\<close> crate is a parameter.
\<close>

section \<open>Parameters of the build\<close>

definition MD_SLOT :: u16 where "MD_SLOT = 5"
definition ENROLL_H0 :: u32 where "ENROLL_H0 = 1000"
definition ANCHOR :: bytes32 where "ANCHOR = fill32 0xA0"
definition POLICY :: bytes32 where "POLICY = fill32 0xB0"
definition GENESIS :: bytes32 where "GENESIS = fill32 0"
definition NEXT_ROOT :: bytes32 where "NEXT_ROOT = fill32 0x11"
definition U_ARM0 :: bytes32 where "U_ARM0 = fill32 0xAA"
definition RCHAL :: bytes32 where "RCHAL = fill32 0x55"
definition T_REL :: bytes32 where "T_REL = fill32 1"
definition T_OBJ :: bytes32 where "T_OBJ = fill32 2"
definition T_SND :: bytes32 where "T_SND = fill32 3"
definition T_RCV :: bytes32 where "T_RCV = fill32 4"
definition T_PAY :: bytes32 where "T_PAY = fill32 9"
definition T_AF :: "byte list" where "T_AF = [0xAA, 0xBB]"
definition LEAF_OLD :: "byte list" where "LEAF_OLD = replicate 40 0xAB"
definition LEAF_NEW :: "byte list" where "LEAF_NEW = replicate 40 0xCD"
definition MAX_RX_FRAME :: nat where "MAX_RX_FRAME = 8 * 1024"

lemmas build_params =
  MD_SLOT_def ENROLL_H0_def ANCHOR_def POLICY_def GENESIS_def NEXT_ROOT_def U_ARM0_def RCHAL_def
  T_REL_def T_OBJ_def T_SND_def T_RCV_def T_PAY_def T_AF_def LEAF_OLD_def LEAF_NEW_def

section \<open>The chip session\<close>

text \<open>
  The calls of an active \<open>tropic01\<close> session that the firmware makes; \<open>None\<close> and \<open>False\<close> stand for
  an error, whose value the firmware never looks at.
\<close>

record 's session =
  ss_mac_and_destroy :: "u16 \<Rightarrow> bytes32 \<Rightarrow> 's \<Rightarrow> bytes32 option \<times> 's"
  ss_mcounter_init :: "u32 \<Rightarrow> 's \<Rightarrow> bool \<times> 's"
  ss_mcounter_get :: "'s \<Rightarrow> u32 option \<times> 's"
  ss_mcounter_update :: "'s \<Rightarrow> bool \<times> 's"

definition chip_tropic :: "'s session \<Rightarrow> 's tropic_ops" where
  "chip_tropic S =
     \<lparr> mac_and_destroy = (\<lambda>q x s.
         case ss_mac_and_destroy S q x s of
           (Some w, s') \<Rightarrow> (Inr w, s')
         | (None, s') \<Rightarrow> (Inl Comm, s')),
       counter_get = (\<lambda>s.
         case ss_mcounter_get S s of
           (Some v, s') \<Rightarrow> (Inr v, s')
         | (None, s') \<Rightarrow> (Inl Comm, s')),
       counter_update = (\<lambda>s.
         case ss_mcounter_update S s of
           (True, s') \<Rightarrow> (Inr (), s')
         | (False, s') \<Rightarrow> (Inl TropicExhausted, s')) \<rparr>"

section \<open>Enrollment and boot\<close>

definition enroll :: "'s session \<Rightarrow> 's \<Rightarrow> (string + u32) \<times> 's" where
  "enroll S s =
     (case ss_mcounter_init S ENROLL_H0 s of
        (False, s) \<Rightarrow> (Inl ''mcounter_init'', s)
      | (True, s) \<Rightarrow>
          (case ss_mcounter_get S s of
             (None, s) \<Rightarrow> (Inl ''mcounter_get'', s)
           | (Some hv, s) \<Rightarrow>
               (case ss_mac_and_destroy S MD_SLOT U_ARM0 s of
                  (None, s) \<Rightarrow> (Inl ''enroll-arm'', s)
                | (Some _, s) \<Rightarrow> (Inr hv, s))))"

definition firmware_platform :: "bool \<Rightarrow> blake3 \<Rightarrow> 's session \<Rightarrow> 's platform" where
  "firmware_platform dbg B S =
     \<lparr> pf_debug = dbg, pf_blake3 = B, pf_tropic = chip_tropic S, pf_sig = wots_blake3 B \<rparr>"

text \<open>The appliance that is served: enrolled again, at the genesis root, then recovered.\<close>

definition boot_appliance :: "'s session \<Rightarrow> 's \<Rightarrow> 's appliance" where
  "boot_appliance S s =
     (case enroll S s of
        (Inr hv, s) \<Rightarrow> appliance_new s hv GENESIS ANCHOR MD_SLOT
      | (Inl _, s) \<Rightarrow> appliance_new s ENROLL_H0 GENESIS ANCHOR MD_SLOT)"

definition boot_recover :: "bool \<Rightarrow> blake3 \<Rightarrow> 's session \<Rightarrow> 's \<Rightarrow> recover_outcome \<times> 's appliance" where
  "boot_recover dbg B S s = recover (firmware_platform dbg B S) (boot_appliance S s)"

section \<open>The self-test\<close>

definition trivial_dsm :: dsm_verifier where
  "trivial_dsm =
     \<lparr> root_commits_counter = (\<lambda>_ _. True), verify_transition = (\<lambda>_. True),
       delivers_to_receiver = (\<lambda>_. True) \<rparr>"

definition self_counter :: counter_verifier where
  "self_counter = \<lparr> read_authentic_counter = (\<lambda>_ ev. Some (ev_live_counter_claim ev)) \<rparr>"

text \<open>One round trip through the frame interface.\<close>

definition rt ::
    "prost \<Rightarrow> 'c platform \<Rightarrow> pb_request \<Rightarrow> 'c appliance \<Rightarrow> (string, pb_response) outcome \<times> 'c appliance" where
  "rt X P req a =
     (case handle X P (encode_request X req) a of
        (None, a') \<Rightarrow> (Panic, a')
      | (Some bytes, a') \<Rightarrow>
          (case decode_response X bytes of
             Inl _ \<Rightarrow> (Fail ''decode_response'', a')
           | Inr resp \<Rightarrow> (Done resp, a')))"

definition rt_then ::
    "(string, 'b) outcome \<times> 's \<Rightarrow> ('b \<Rightarrow> 's \<Rightarrow> (string, 'r) outcome \<times> 's) \<Rightarrow> (string, 'r) outcome \<times> 's" where
  "rt_then r f =
     (case r of
        (Done v, s) \<Rightarrow> f v s
      | (Fail e, s) \<Rightarrow> (Fail e, s)
      | (Panic, s) \<Rightarrow> (Panic, s))"

definition prepare_request :: pb_request where
  "prepare_request =
     \<lparr> rq_op = op_number OpPrepare,
       rq_transition = Some
         \<lparr> tp_relationship_id = bytes_of T_REL, tp_object_id = bytes_of T_OBJ,
           tp_sender_device_id = bytes_of T_SND, tp_recipient_device_id = bytes_of T_RCV,
           tp_prev_root = bytes_of GENESIS, tp_next_root = bytes_of NEXT_ROOT,
           tp_anchor_counter = 0, tp_next_anchor_counter = 1, tp_action_type = 0,
           tp_action_fields = T_AF, tp_payload_hash = bytes_of T_PAY,
           tp_old_leaf_proof = LEAF_OLD, tp_new_leaf_proof = LEAF_NEW,
           tp_authority_policy_hash = bytes_of POLICY \<rparr>,
       rq_receiver_challenge = bytes_of RCHAL \<rparr>"

text \<open>\<open>ApplianceRequest { op, ..Default::default() }\<close>.\<close>

definition plain_request :: "pb_op \<Rightarrow> pb_request" where
  "plain_request x = \<lparr> rq_op = op_number x, rq_transition = None, rq_receiver_challenge = [] \<rparr>"

record self_test_result =
  t_ops_ok :: bool
  t_pk_len :: nat
  t_sig_len :: nat
  t_st_index :: u64
  t_st_status :: u32
  t_verify_ok :: bool
  t_frontier_match :: bool

definition self_test_ctx :: verifier_context where
  "self_test_ctx =
     \<lparr> accepted_prev_root = GENESIS, pinned_anchor_id = ANCHOR, expected_receiver_challenge = RCHAL,
       expected_policy_hash = POLICY, enrolled_counter = ucast ENROLL_H0,
       exposure_cap_index = ucast ENROLL_H0, anchor_uncompromised = True \<rparr>"

text \<open>The release of the emit response, decoded and put to the receiver's predicate.\<close>

definition self_verify :: "bool \<Rightarrow> blake3 \<Rightarrow> pb_release option \<Rightarrow> (string, bool) outcome" where
  "self_verify dbg B relpb =
     (case relpb of
        None \<Rightarrow> Done False
      | Some m \<Rightarrow>
          (case to_release m of
             Inl _ \<Rightarrow> Done False
           | Inr rel \<Rightarrow>
               (case accept_offline dbg B (wots_blake3 B) trivial_dsm self_counter rel self_test_ctx of
                  Done _ \<Rightarrow> Done True
                | Fail _ \<Rightarrow> Done False
                | Panic \<Rightarrow> Panic)))"

definition self_test ::
    "prost \<Rightarrow> bool \<Rightarrow> blake3 \<Rightarrow> 's session \<Rightarrow> 's appliance \<Rightarrow>
     (string, self_test_result) outcome \<times> 's appliance" where
  "self_test X dbg B S a =
     (let P = firmware_platform dbg B S in
      rt_then (rt X P prepare_request a) (\<lambda>prep a.
      rt_then (rt X P (plain_request OpCommit) a) (\<lambda>com a.
      rt_then (rt X P (plain_request OpEmit) a) (\<lambda>emitr a.
        let relpb = rs_release emitr;
            (pk_len, sig_len) =
              (case Option.bind relpb or_cert of
                 Some c \<Rightarrow> (length (rc_pk_hw c), length (rc_sigma c))
               | None \<Rightarrow> (0, 0))
        in
      rt_then (rt X P (plain_request OpFinalize) a) (\<lambda>fin a.
        let fin_root =
              (if length (rs_active_root fin) = 32 then to_bytes32 (rs_active_root fin) else fill32 0)
        in
      rt_then (rt X P (plain_request OpStatus) a) (\<lambda>st a.
      rt_then (self_verify dbg B relpb, a) (\<lambda>verify_ok a.
        (Done
          \<lparr> t_ops_ok = (rs_ok prep \<and> rs_ok com \<and> rs_ok emitr \<and> rs_ok fin \<and> rs_ok st),
            t_pk_len = pk_len, t_sig_len = sig_len,
            t_st_index = rs_active_index st, t_st_status = rs_status st,
            t_verify_ok = verify_ok, t_frontier_match = (fin_root = NEXT_ROOT) \<rparr>, a))))))))"

text \<open>The condition under which \<open>main\<close> reports PASS.\<close>

definition self_test_pass :: "self_test_result \<Rightarrow> bool" where
  "self_test_pass r \<longleftrightarrow>
     t_ops_ok r \<and> t_pk_len r = 32 \<and> t_sig_len r = 67 * 32 \<and> t_st_index r = 1 \<and>
     t_st_status r = 0 \<and> t_verify_ok r \<and> t_frontier_match r"

section \<open>Framing over USB\<close>

text \<open>\<open>u32::from_le_bytes\<close>.\<close>

definition from_le32 :: "byte list \<Rightarrow> u32" where
  "from_le32 bs =
     of_nat (unat (bs ! 0) + 256 * unat (bs ! 1) + 65536 * unat (bs ! 2) + 16777216 * unat (bs ! 3))"

text \<open>
  The framing without the port: take every complete frame off the receive buffer. The result is the
  buffers to be written, in order, the rest of the buffer, and the appliance; \<open>None\<close> is a panic.
\<close>

function drain ::
    "prost \<Rightarrow> 'c platform \<Rightarrow> byte list \<Rightarrow> 'c appliance \<Rightarrow>
     (byte list list \<times> byte list \<times> 'c appliance) option" where
  "drain X P rx a =
     (if length rx < 4 then Some ([], rx, a)
      else
        let len = unat (from_le32 (take 4 rx)) in
        if len > MAX_RX_FRAME then Some ([], [], a)
        else if length rx < 4 + len then Some ([], rx, a)
        else
          (case handle X P (take len (drop 4 rx)) a of
             (None, _) \<Rightarrow> None
           | (Some resp, a') \<Rightarrow>
               (case drain X P (drop (4 + len) rx) a' of
                  None \<Rightarrow> None
                | Some (out, rx', a'') \<Rightarrow>
                    Some (u32_le (of_nat (length resp)) # resp # out, rx', a''))))"
  by pat_completeness auto

termination
  by (relation "measure (\<lambda>(X, P, rx, a). length rx)") auto

declare drain.simps [simp del]

text \<open>One turn of the outer loop for a read that returned \<open>n > 0\<close> bytes.\<close>

definition receive ::
    "prost \<Rightarrow> 'c platform \<Rightarrow> byte list \<Rightarrow> byte list \<Rightarrow> 'c appliance \<Rightarrow>
     (byte list list \<times> byte list \<times> 'c appliance) option" where
  "receive X P chunk rx a =
     (let rx = (if length rx + length chunk > MAX_RX_FRAME + 4 then [] else rx @ chunk)
      in drain X P rx a)"

text \<open>
  The outer loop over a sequence of read results: \<open>None\<close> is a failed read, an empty chunk a read
  of no bytes.
\<close>

fun serve_reads ::
    "prost \<Rightarrow> 'c platform \<Rightarrow> byte list option list \<Rightarrow> byte list \<Rightarrow> 'c appliance \<Rightarrow>
     (byte list list \<times> byte list \<times> 'c appliance) option" where
  "serve_reads X P [] rx a = Some ([], rx, a)"
| "serve_reads X P (None # reads) rx a = serve_reads X P reads rx a"
| "serve_reads X P (Some chunk # reads) rx a =
     (if chunk = [] then serve_reads X P reads rx a
      else case receive X P chunk rx a of
        None \<Rightarrow> None
      | Some (out, rx', a') \<Rightarrow>
          (case serve_reads X P reads rx' a' of
             None \<Rightarrow> None
           | Some (out', rx'', a'') \<Rightarrow> Some (out @ out', rx'', a'')))"

end
