(* ===== verification/Framing.thy ===== *)
theory Framing
  imports Firmware
begin

text \<open>
  The framing loop of the firmware: what it does with a stream of frames does not depend on how
  the stream is cut into USB packets, as long as no frame comes too close to the receive cap; the
  buffer never outgrows the cap; and what happens beyond.
\<close>

section \<open>Length prefixes\<close>

lemma unat_u32_le_nth:
  assumes "i < 4"
  shows "unat (u32_le w ! i) = unat w div 256 ^ i mod 256"
proof -
  have self: "take_bit 32 (unat w) = unat w"
    by (rule take_bit_nat_eq_self) (use unat_u32_less [of w] in simp)
  have "unat (u32_le w ! i) = take_bit 8 (drop_bit (8 * i) (unat w))"
    using assms by (simp add: u32_le_def to_le_bytes_def unsigned_ucast_eq unsigned_drop_bit_eq
        unsigned_take_bit_eq self)
  also have "\<dots> = unat w div 256 ^ i mod 256"
    by (simp add: take_bit_eq_mod drop_bit_eq_div power_mult)
  finally show ?thesis .
qed

lemma base256:
  fixes n :: nat
  assumes "n < 4294967296"
  shows "n mod 256 + 256 * (n div 256 mod 256) + 65536 * (n div 65536 mod 256) +
    16777216 * (n div 16777216 mod 256) = n"
proof -
  define q1 q2 q3 where q: "q1 = n div 256" "q2 = q1 div 256" "q3 = q2 div 256"
  define r0 r1 r2 where r: "r0 = n mod 256" "r1 = q1 mod 256" "r2 = q2 mod 256"
  have steps: "n = 256 * q1 + r0" "q1 = 256 * q2 + r1" "q2 = 256 * q3 + r2"
    by (simp_all only: q r mult_div_mod_eq)
  have divs: "n div 65536 = q2" "n div 16777216 = q3"
    by (simp_all add: q flip: div_mult2_eq)
  have "q3 < 256" using steps assms by linarith
  then have "q3 mod 256 = q3" by simp
  then have "n mod 256 + 256 * (n div 256 mod 256) + 65536 * (n div 65536 mod 256) +
      16777216 * (n div 16777216 mod 256) = r0 + 256 * r1 + 65536 * r2 + 16777216 * q3"
    by (simp only: divs q(1) [symmetric] r [symmetric])
  with steps show ?thesis by linarith
qed

lemma from_le32_le [simp]: "from_le32 (u32_le w) = w"
proof -
  have "unat (u32_le w ! 0) + 256 * unat (u32_le w ! 1) + 65536 * unat (u32_le w ! 2) +
      16777216 * unat (u32_le w ! 3) = unat w"
  proof -
    have "unat (u32_le w ! 0) = unat w mod 256" "unat (u32_le w ! 1) = unat w div 256 mod 256"
      "unat (u32_le w ! 2) = unat w div 65536 mod 256"
      "unat (u32_le w ! 3) = unat w div 16777216 mod 256"
      by (subst unat_u32_le_nth; simp)+
    then show ?thesis by (simp only: base256 [OF unat_u32_less])
  qed
  then show ?thesis by (simp add: from_le32_def)
qed

text \<open>A request frame on the wire, and the bytes written for a response.\<close>

definition framed :: "byte list \<Rightarrow> byte list" where
  "framed f = u32_le (of_nat (length f)) @ f"

lemma length_framed [simp]: "length (framed f) = 4 + length f"
  by (simp add: framed_def)

lemma unat_of_length: "n \<le> MAX_RX_FRAME \<Longrightarrow> unat (of_nat n :: u32) = n"
  by (simp add: MAX_RX_FRAME_def unsigned_of_nat take_bit_nat_eq_self)

section \<open>The inner loop on good frames\<close>

text \<open>The frames one after the other, each answered by \<open>handle\<close>.\<close>

fun serve_frames ::
    "prost \<Rightarrow> 'c platform \<Rightarrow> byte list list \<Rightarrow> 'c appliance \<Rightarrow> (byte list list \<times> 'c appliance) option" where
  "serve_frames X P [] a = Some ([], a)"
| "serve_frames X P (f # fs) a =
     (case handle X P f a of
        (None, _) \<Rightarrow> None
      | (Some resp, a') \<Rightarrow>
          (case serve_frames X P fs a' of
             None \<Rightarrow> None
           | Some (out, a'') \<Rightarrow> Some (u32_le (of_nat (length resp)) # resp # out, a'')))"

lemma serve_frames_append:
  "serve_frames X P (fs @ gs) a =
     (case serve_frames X P fs a of
        None \<Rightarrow> None
      | Some (out, a') \<Rightarrow>
          (case serve_frames X P gs a' of
             None \<Rightarrow> None
           | Some (out', a'') \<Rightarrow> Some (out @ out', a'')))"
  by (induction fs arbitrary: a) (auto split: option.split prod.split)

lemma drain_frame:
  assumes "length f \<le> MAX_RX_FRAME"
  shows "drain X P (framed f @ rx) a =
    (case handle X P f a of
       (None, _) \<Rightarrow> None
     | (Some resp, a') \<Rightarrow>
         (case drain X P rx a' of
            None \<Rightarrow> None
          | Some (out, rx', a'') \<Rightarrow> Some (u32_le (of_nat (length resp)) # resp # out, rx', a'')))"
proof -
  have "take 4 (framed f @ rx) = u32_le (of_nat (length f))" by (simp add: framed_def)
  then have len: "unat (from_le32 (take 4 (framed f @ rx))) = length f"
    using unat_of_length [OF assms] by simp
  have "drop 4 (framed f @ rx) = f @ rx" by (simp add: framed_def)
  then have "take (length f) (drop 4 (framed f @ rx)) = f" "drop (4 + length f) (framed f @ rx) = rx"
    by simp_all
  with len assms show ?thesis
    by (subst drain.simps) (simp add: Let_def split: option.split prod.split)
qed

lemma drain_partial:
  assumes "length f \<le> MAX_RX_FRAME" and "framed f = rx @ ms" and "ms \<noteq> []"
  shows "drain X P rx a = Some ([], rx, a)"
proof (cases "length rx < 4")
  case True
  then show ?thesis by (subst drain.simps) simp
next
  case False
  have "take 4 (framed f) = u32_le (of_nat (length f))" by (simp add: framed_def)
  then have "take 4 rx = u32_le (of_nat (length f))" using False by (simp add: assms(2))
  then have "unat (from_le32 (take 4 rx)) = length f"
    using unat_of_length [OF assms(1)] by simp
  moreover have "length rx < 4 + length f"
    using assms(3) arg_cong [OF assms(2), of length] by (cases ms) simp_all
  ultimately show ?thesis
    using False assms(1) by (subst drain.simps) (simp add: Let_def)
qed

text \<open>
  Whatever part of a stream of good frames is in the buffer: the complete frames are served, and
  what is left is the beginning of the next frame.
\<close>

definition partial :: "byte list \<Rightarrow> byte list list \<Rightarrow> bool" where
  "partial rx fs \<longleftrightarrow> (case fs of [] \<Rightarrow> rx = [] | f # _ \<Rightarrow> length rx < 4 + length f)"

lemma drain_stream:
  assumes "\<forall>f\<in>set fs. length f \<le> MAX_RX_FRAME" and "rx @ ms = concat (map framed fs)"
  shows "\<exists>k rx'. rx' @ ms = concat (map framed (drop k fs)) \<and> partial rx' (drop k fs) \<and>
    drain X P rx a =
      (case serve_frames X P (take k fs) a of
         None \<Rightarrow> None
       | Some (out, a') \<Rightarrow> Some (out, rx', a'))"
  using assms
proof (induction fs arbitrary: rx a)
  case Nil
  then show ?case
    by (intro exI [of _ 0] exI [of _ "[]"]) (simp add: partial_def drain.simps)
next
  case (Cons f fs)
  show ?case
  proof (cases "length rx < 4 + length f")
    case True
    have "take (length rx) (framed f) = take (length rx) (rx @ ms)"
      using True by (simp add: Cons.prems(2))
    then have "framed f = rx @ drop (length rx) (framed f)" by (metis append_eq_conv_conj append_take_drop_id)
    moreover have "drop (length rx) (framed f) \<noteq> []" using True by simp
    ultimately obtain r where r: "framed f = rx @ r" "r \<noteq> []" by blast
    have "drain X P rx a = Some ([], rx, a)"
      using drain_partial [OF _ r] Cons.prems(1) by simp
    with True Cons.prems(2) show ?thesis
      by (intro exI [of _ 0] exI [of _ rx]) (simp add: partial_def)
  next
    case False
    then have "take (4 + length f) rx = take (4 + length f) (rx @ ms)" by simp
    also have "\<dots> = framed f" by (simp add: Cons.prems(2))
    finally obtain rx2 where rx: "rx = framed f @ rx2" by (metis append_take_drop_id)
    with Cons.prems have "rx2 @ ms = concat (map framed fs)" "\<forall>f\<in>set fs. length f \<le> MAX_RX_FRAME"
      by simp_all
    note ih = Cons.IH [OF this(2,1)]
    obtain resp a' where h: "handle X P f a = (resp, a')" by (metis prod.collapse)
    from ih [of a'] obtain k rx' where k: "rx' @ ms = concat (map framed (drop k fs))"
      "partial rx' (drop k fs)"
      "drain X P rx2 a' = (case serve_frames X P (take k fs) a' of None \<Rightarrow> None
         | Some (out, a') \<Rightarrow> Some (out, rx', a'))"
      by blast
    have "drain X P rx a = (case serve_frames X P (take (Suc k) (f # fs)) a of None \<Rightarrow> None
         | Some (out, a') \<Rightarrow> Some (out, rx', a'))"
      using Cons.prems(1) h k(3) by (simp add: rx drain_frame split: option.split prod.split)
    with k(1,2) show ?thesis by (intro exI [of _ "Suc k"] exI [of _ rx']) simp
  qed
qed

section \<open>The outer loop\<close>

lemma serve_stream:
  assumes "\<forall>f\<in>set fs. length f + 63 \<le> MAX_RX_FRAME"
    and "\<forall>c\<in>set chunks. length c \<le> 64"
    and "rx @ concat chunks = concat (map framed fs)" and "partial rx fs"
  shows "serve_reads X P (map Some chunks) rx a =
    (case serve_frames X P fs a of None \<Rightarrow> None | Some (out, a') \<Rightarrow> Some (out, [], a'))"
  using assms
proof (induction chunks arbitrary: fs rx a)
  case Nil
  have "fs = []"
  proof (cases fs)
    case (Cons f gs)
    with Nil.prems(3,4) have "length rx < 4 + length f" "length rx \<ge> length (framed f)"
      by (simp_all add: partial_def)
    then show ?thesis by simp
  qed
  with Nil show ?case by simp
next
  case (Cons c chunks)
  show ?case
  proof (cases "c = []")
    case True
    with Cons show ?thesis by simp
  next
    case False
    have fits: "length rx + length c \<le> MAX_RX_FRAME + 4"
    proof (cases fs)
      case Nil
      with Cons.prems(3) False show ?thesis by simp
    next
      case (Cons f gs)
      with Cons.prems(1,2,4) show ?thesis by (fastforce simp: partial_def)
    qed
    have good: "\<forall>f\<in>set fs. length f \<le> MAX_RX_FRAME" using Cons.prems(1) by force
    have "(rx @ c) @ concat chunks = concat (map framed fs)" using Cons.prems(3) by simp
    from drain_stream [OF good this, of X P a] obtain k rx' where
      k: "rx' @ concat chunks = concat (map framed (drop k fs))" "partial rx' (drop k fs)"
        "drain X P (rx @ c) a = (case serve_frames X P (take k fs) a of None \<Rightarrow> None
           | Some (out, a') \<Rightarrow> Some (out, rx', a'))"
      by blast
    have rest: "serve_reads X P (map Some chunks) rx' b =
        (case serve_frames X P (drop k fs) b of None \<Rightarrow> None | Some (out, a') \<Rightarrow> Some (out, [], a'))" for b
      using Cons.prems(1,2) by (intro Cons.IH [OF _ _ k(1,2)]) (auto dest: in_set_dropD)
    have rcv: "receive X P c rx a = drain X P (rx @ c) a"
      using fits by (simp add: receive_def)
    have "serve_frames X P (take k fs @ drop k fs) a =
        (case serve_frames X P (take k fs) a of None \<Rightarrow> None
         | Some (out, a') \<Rightarrow> (case serve_frames X P (drop k fs) a' of None \<Rightarrow> None
             | Some (out', a'') \<Rightarrow> Some (out @ out', a'')))"
      by (rule serve_frames_append)
    then show ?thesis
      using False by (simp add: rcv k(3) rest split: option.split prod.split)
  qed
qed

lemma serve_whole_stream:
  assumes "\<forall>f\<in>set fs. length f + 63 \<le> MAX_RX_FRAME"
    and "\<forall>c\<in>set chunks. length c \<le> 64"
    and "concat chunks = concat (map framed fs)"
  shows "serve_reads X P (map Some chunks) [] a =
    (case serve_frames X P fs a of None \<Rightarrow> None | Some (out, a') \<Rightarrow> Some (out, [], a'))"
  using assms by (intro serve_stream) (auto simp: partial_def split: list.split)

text \<open>
  Packet boundaries do not matter. A stream of frames, each at least 63 bytes below the receive
  cap, cut in any way into reads of at most 64 bytes, is served exactly as the frames one after the
  other: the same responses with their length prefixes, in order, the same final appliance, and an
  empty buffer; and a panic in one if and only if in the other.
\<close>

lemma serve_reads_chunking:
  assumes "\<forall>f\<in>set fs. length f + 63 \<le> MAX_RX_FRAME"
    and "\<forall>c\<in>set chunks. length c \<le> 64"
    and "concat chunks = concat (map framed fs)"
  shows "serve_reads X P (map Some chunks) [] a =
    (case serve_frames X P fs a of None \<Rightarrow> None | Some (out, a') \<Rightarrow> Some (out, [], a'))"
  by (rule serve_whole_stream [OF assms])

lemma serve_reads_chunking_witness:
  "\<forall>X (P :: 'c platform) a. serve_reads X P [Some [2, 0], Some [0, 0, 7], Some [8]] [] a
     = serve_reads X P [Some [2, 0, 0, 0, 7, 8]] [] a"
proof (intro allI)
  fix X and P :: "'c platform" and a
  have f: "framed [7, 8] = [2, 0, 0, 0, 7, 8]" by (simp add: framed_def u32_le_def to_le_bytes_def upt_rec)
  have "\<forall>f\<in>set [[7, 8 :: byte]]. length f + 63 \<le> MAX_RX_FRAME" by (simp add: MAX_RX_FRAME_def)
  note s = serve_reads_chunking [OF this, of _ X P a]
  from s [of "[[2, 0], [0, 0, 7], [8]]"] s [of "[[2, 0, 0, 0, 7, 8]]"] f
  show "serve_reads X P [Some [2, 0], Some [0, 0, 7], Some [8]] [] a
     = serve_reads X P [Some [2, 0, 0, 0, 7, 8]] [] a" by simp
qed

section \<open>The receive cap\<close>

lemma drain_bound: "drain X P rx a = Some (out, rx', a') \<Longrightarrow> length rx' \<le> length rx"
proof (induction X P rx a arbitrary: out rx' a' rule: drain.induct)
  case (1 X P rx a)
  show ?case
    using 1(2) 1(1)
    by (subst (asm) drain.simps)
      (fastforce simp: Let_def split: if_splits prod.splits option.splits)
qed

lemma receive_bound:
  assumes "receive X P chunk rx a = Some (out, rx', a')"
  shows "length rx' \<le> MAX_RX_FRAME + 4"
proof (cases "length rx + length chunk > MAX_RX_FRAME + 4")
  case True
  with assms have "drain X P [] a = Some (out, rx', a')" by (simp add: receive_def)
  from drain_bound [OF this] show ?thesis by simp
next
  case False
  with assms have "drain X P (rx @ chunk) a = Some (out, rx', a')" by (simp add: receive_def)
  from drain_bound [OF this] False show ?thesis by simp
qed

text \<open>
  The receive buffer is bounded. Whatever is read, in chunks of any size, the buffer never holds
  more than one maximal frame with its prefix.
\<close>

lemma serve_reads_bounded:
  assumes "serve_reads X P reads [] a = Some (out, rx, a')"
  shows "length rx \<le> MAX_RX_FRAME + 4"
proof -
  have "length rx' \<le> MAX_RX_FRAME + 4"
    if "serve_reads X P reads rx0 a = Some (out, rx', a')" "length rx0 \<le> MAX_RX_FRAME + 4"
    for rx0 rx' out a
    using that
  proof (induction X P reads rx0 a arbitrary: out rule: serve_reads.induct)
    case (3 X P chunk reads rx a)
    show ?case
    proof (cases "chunk = []")
      case True
      with 3 show ?thesis by simp
    next
      case False
      with "3.prems"(1) obtain o1 rx1 a1 o2 where r: "receive X P chunk rx a = Some (o1, rx1, a1)"
        "serve_reads X P reads rx1 a1 = Some (o2, rx', a')"
        by (auto split: option.splits)
      from "3.IH"(2) [OF False r(1) refl refl r(2) receive_bound [OF r(1)]] show ?thesis .
    qed
  qed auto
  from this [OF assms] show ?thesis by simp
qed

text \<open>
  C39: when a pipelined frame is lost. Let a frame within the cap be complete with the packet just read,
  and let the packet carry further bytes \<open>nxt\<close> of what follows. If the frame and those bytes together
  exceed the cap of a single frame, the loop drops everything and serves nothing; otherwise it
  serves the frame and goes on with \<open>nxt\<close>. So a legal frame is served or lost depending on what
  follows it in its last packet, and the limit is exactly \<open>MAX_RX_FRAME\<close>.
\<close>

theorem pipelined_frame_dropped:
  assumes "length f \<le> MAX_RX_FRAME" and "framed f = rx @ rest"
  shows "receive X P (rest @ nxt) rx a =
    (if length f + length nxt > MAX_RX_FRAME then Some ([], [], a)
     else case handle X P f a of
       (None, _) \<Rightarrow> None
     | (Some resp, a') \<Rightarrow>
         (case drain X P nxt a' of
            None \<Rightarrow> None
          | Some (out, rx', a'') \<Rightarrow> Some (u32_le (of_nat (length resp)) # resp # out, rx', a'')))"
proof -
  have "length rx + length rest = 4 + length f" using arg_cong [OF assms(2), of length] by simp
  moreover have "drain X P [] b = Some ([], [], b)" for b by (subst drain.simps) simp
  ultimately show ?thesis
    using drain_frame [OF assms(1), of X P nxt a] by (simp add: receive_def flip: append_assoc assms(2))
qed

text \<open>A maximal frame whose last four bytes arrive with 60 bytes of the next one, and alone.\<close>

theorem pipelined_frame_dropped_witness:
  "\<forall>X (P :: 'c platform) a. \<exists>f rest. length f = MAX_RX_FRAME \<and> framed f = take 8192 (framed f) @ rest \<and>
     length rest = 4 \<and> receive X P (rest @ replicate 60 7) (take 8192 (framed f)) a = Some ([], [], a) \<and>
     (\<forall>resp a'. handle X P f a = (Some resp, a') \<longrightarrow>
        receive X P (rest @ []) (take 8192 (framed f)) a = Some ([u32_le (of_nat (length resp)), resp], [], a'))"
proof (intro allI)
  fix X and P :: "'c platform" and a
  obtain f :: "byte list" where f: "length f = MAX_RX_FRAME" using Ex_list_of_length by blast
  have split: "framed f = take 8192 (framed f) @ drop 8192 (framed f)"
    by (rule append_take_drop_id [symmetric])
  have "length (drop 8192 (framed f)) = 4" using f by (simp add: MAX_RX_FRAME_def)
  moreover have "drain X P [] b = Some ([], [], b)" for b by (subst drain.simps) simp
  moreover note pipelined_frame_dropped [OF eq_refl [OF f] split, of X P]
  ultimately show "\<exists>f rest. length f = MAX_RX_FRAME \<and> framed f = take 8192 (framed f) @ rest \<and>
     length rest = 4 \<and> receive X P (rest @ replicate 60 7) (take 8192 (framed f)) a = Some ([], [], a) \<and>
     (\<forall>resp a'. handle X P f a = (Some resp, a') \<longrightarrow>
        receive X P (rest @ []) (take 8192 (framed f)) a = Some ([u32_le (of_nat (length resp)), resp], [], a'))"
    using f split by (intro exI [of _ f] exI [of _ "drop 8192 (framed f)"] conjI allI impI)
      (simp_all del: append_Nil2)
qed

end
