(* ===== verification/Serve.thy ===== *)
theory Serve
  imports Usb Framing
begin

text \<open>
  \<open>serve_forever\<close> with its port: polling, reading a packet, answering every complete frame and
  writing the answers back. The loop with its effects is related to the framing functions of
  \<open>Firmware\<close>: what the host receives is what they say should be written.
\<close>

section \<open>The loop\<close>

text \<open>
  The inner loop. The result is the rest of the receive buffer, the appliance and the port;
  \<open>None\<close> is a device that does not come back, in a write that never ends or after a panic
  (\<open>panic_halt\<close> stops in an endless loop).
\<close>

function serve_buffer ::
    "prost \<Rightarrow> 'c platform \<Rightarrow> ('u, 'x) port_scheme \<Rightarrow> byte list \<Rightarrow> 'c appliance \<Rightarrow> 'u \<Rightarrow>
     (byte list \<times> 'c appliance \<times> 'u) option" where
  "serve_buffer X P D rx a u =
     (if length rx < 4 then Some (rx, a, u)
      else
        let len = unat (from_le32 (take 4 rx)) in
        if len > MAX_RX_FRAME then Some ([], a, u)
        else if length rx < 4 + len then Some (rx, a, u)
        else
          (case handle X P (take len (drop 4 rx)) a of
             (None, _) \<Rightarrow> None
           | (Some resp, a) \<Rightarrow>
               (case write_all D (u32_le (of_nat (length resp))) 0 u of
                  None \<Rightarrow> None
                | Some u \<Rightarrow>
                    (case write_all D resp 0 u of
                       None \<Rightarrow> None
                     | Some u \<Rightarrow> serve_buffer X P D (drop (4 + len) rx) a u))))"
  by pat_completeness auto

termination
  by (relation "measure (\<lambda>(X, P, D, rx, a, u). length rx)") auto

declare serve_buffer.simps [simp del]

text \<open>One turn of the outer loop.\<close>

definition serve_turn ::
    "prost \<Rightarrow> 'c platform \<Rightarrow> ('u, 'x) port_scheme \<Rightarrow> byte list \<times> 'c appliance \<times> 'u \<Rightarrow>
     (byte list \<times> 'c appliance \<times> 'u) option" where
  "serve_turn X P D = (\<lambda>(rx, a, u).
     case pt_read D 64 (pt_poll D u) of
       (None, u) \<Rightarrow> Some (rx, a, u)
     | (Some chunk, u) \<Rightarrow>
         if chunk = [] then Some (rx, a, u)
         else
           let rx = (if length rx + length chunk > MAX_RX_FRAME + 4 then [] else rx @ chunk)
           in serve_buffer X P D rx a u)"

text \<open>\<open>serve_forever\<close> never returns; this is its state after \<open>n\<close> turns, if it gets that far.\<close>

fun serve_turns ::
    "nat \<Rightarrow> prost \<Rightarrow> 'c platform \<Rightarrow> ('u, 'x) port_scheme \<Rightarrow> byte list \<times> 'c appliance \<times> 'u \<Rightarrow>
     (byte list \<times> 'c appliance \<times> 'u) option" where
  "serve_turns 0 X P D s = Some s"
| "serve_turns (Suc n) X P D s =
     (case serve_turn X P D s of None \<Rightarrow> None | Some s' \<Rightarrow> serve_turns n X P D s')"

section \<open>The two loops side by side\<close>

text \<open>The length announced at the front of the buffer, and whether the whole frame is there.\<close>

definition announced :: "byte list \<Rightarrow> nat" where
  "announced rx = unat (from_le32 (take 4 rx))"

definition has_frame :: "byte list \<Rightarrow> bool" where
  "has_frame rx \<longleftrightarrow> announced rx \<le> MAX_RX_FRAME \<and> 4 + announced rx \<le> length rx"

definition kept :: "byte list \<Rightarrow> byte list" where
  "kept rx = (if 4 \<le> length rx \<and> announced rx > MAX_RX_FRAME then [] else rx)"

abbreviation first_frame :: "byte list \<Rightarrow> byte list" where
  "first_frame rx \<equiv> take (announced rx) (drop 4 rx)"

abbreviation after_frame :: "byte list \<Rightarrow> byte list" where
  "after_frame rx \<equiv> drop (4 + announced rx) rx"

lemma drain_eq:
  "drain X P rx a =
     (if has_frame rx then
        (case handle X P (first_frame rx) a of
           (None, _) \<Rightarrow> None
         | (Some resp, b) \<Rightarrow>
             (case drain X P (after_frame rx) b of
                None \<Rightarrow> None
              | Some (out, rx', a') \<Rightarrow> Some (u32_le (of_nat (length resp)) # resp # out, rx', a')))
      else Some ([], kept rx, a))"
  unfolding has_frame_def kept_def announced_def
  by (subst drain.simps) (simp add: Let_def)

lemma serve_buffer_eq:
  "serve_buffer X P D rx a u =
     (if has_frame rx then
        (case handle X P (first_frame rx) a of
           (None, _) \<Rightarrow> None
         | (Some resp, b) \<Rightarrow>
             (case write_all D (u32_le (of_nat (length resp))) 0 u of
                None \<Rightarrow> None
              | Some v \<Rightarrow>
                  (case write_all D resp 0 v of
                     None \<Rightarrow> None
                   | Some w \<Rightarrow> serve_buffer X P D (after_frame rx) b w)))
      else Some (kept rx, a, u))"
  unfolding has_frame_def kept_def announced_def
  by (subst serve_buffer.simps) (simp add: Let_def)

lemma after_frame_shorter: "has_frame rx \<Longrightarrow> length (after_frame rx) < length rx"
  by (auto simp: has_frame_def)

section \<open>What is written\<close>

lemma serve_buffer_drain:
  assumes run: "serve_buffer X P D rx a u = Some (rx', a', u')"
  shows "\<exists>out. drain X P rx a = Some (out, rx', a') \<and>
    (usb_port D sent got \<longrightarrow> never_fails D \<longrightarrow> sent u' = sent u @ concat out \<and> got u' = got u)"
  using run
proof (induction "length rx" arbitrary: rx a u rule: less_induct)
  case less
  show ?case
  proof (cases "has_frame rx")
    case False
    with less.prems show ?thesis by (simp add: serve_buffer_eq drain_eq)
  next
    case True
    with less.prems obtain resp b v w where h: "handle X P (first_frame rx) a = (Some resp, b)"
      and w: "write_all D (u32_le (of_nat (length resp))) 0 u = Some v" "write_all D resp 0 v = Some w"
      and rest: "serve_buffer X P D (after_frame rx) b w = Some (rx', a', u')"
      by (subst (asm) serve_buffer_eq) (auto split: option.splits prod.splits)
    obtain out where out: "drain X P (after_frame rx) b = Some (out, rx', a')"
      "usb_port D sent got \<longrightarrow> never_fails D \<longrightarrow> sent u' = sent w @ concat out \<and> got u' = got w"
      using less.hyps [OF after_frame_shorter [OF True] rest] by blast
    have "usb_port D sent got \<longrightarrow> never_fails D \<longrightarrow>
        sent u' = sent u @ concat (u32_le (of_nat (length resp)) # resp # out) \<and> got u' = got u"
    proof (intro impI)
      assume port: "usb_port D sent got" and nf: "never_fails D"
      note all = write_all_sends_all [OF port nf w(1)] write_all_sends_all [OF port nf w(2)]
      with out(2) port nf show
        "sent u' = sent u @ concat (u32_le (of_nat (length resp)) # resp # out) \<and> got u' = got u"
        by simp
    qed
    with True h out(1) show ?thesis by (subst drain_eq) simp
  qed
qed

text \<open>
  One turn: what it reads is at most a packet, and what it does with it is \<open>serve_reads\<close> of that
  packet.
\<close>

lemma serve_turn_reads:
  assumes port: "usb_port D sent got" and nf: "never_fails D"
    and run: "serve_turn X P D (rx, a, u) = Some (rx', a', u')"
  shows "\<exists>chunk out. length chunk \<le> 64 \<and> got u' = got u @ chunk \<and>
    serve_reads X P [Some chunk] rx a = Some (out, rx', a') \<and> sent u' = sent u @ concat out"
proof -
  obtain r v where r: "pt_read D 64 (pt_poll D u) = (r, v)" by (metis prod.collapse)
  note v = usb_port_read [OF port r]
  show ?thesis
  proof (cases "r = None \<or> r = Some []")
    case True
    then have "got v = got u" using v(2) v(3) by auto
    with True run r v(1) show ?thesis by (intro exI [of _ "[]"]) (auto simp: serve_turn_def)
  next
    case False
    then obtain chunk where c: "r = Some chunk" "chunk \<noteq> []" by auto
    let ?rx = "if length rx + length chunk > MAX_RX_FRAME + 4 then [] else rx @ chunk"
    have "serve_buffer X P D ?rx a v = Some (rx', a', u')"
      using run r c by (simp add: serve_turn_def)
    from serve_buffer_drain [OF this, of sent got] port nf obtain out where
      "drain X P ?rx a = Some (out, rx', a')" "sent u' = sent v @ concat out" "got u' = got v"
      by blast
    moreover have "length chunk \<le> 64 \<and> got v = got u @ chunk" by (rule v(3) [OF c(1)])
    ultimately show ?thesis
      using v(1) c(2) by (intro exI [of _ chunk] exI [of _ out]) (simp add: receive_def)
  qed
qed

lemma serve_reads_append:
  "serve_reads X P (xs @ ys) rx a =
     (case serve_reads X P xs rx a of
        None \<Rightarrow> None
      | Some (out, rx', a') \<Rightarrow>
          (case serve_reads X P ys rx' a' of
             None \<Rightarrow> None
           | Some (out', rx'', a'') \<Rightarrow> Some (out @ out', rx'', a'')))"
  by (induction X P xs rx a rule: serve_reads.induct) (auto split: option.split prod.split)

lemma serve_turns_reads:
  assumes port: "usb_port D sent got" and nf: "never_fails D"
    and run: "serve_turns n X P D (rx, a, u) = Some (rx', a', u')"
  shows "\<exists>chunks out. (\<forall>c\<in>set chunks. length c \<le> 64) \<and> got u' = got u @ concat chunks \<and>
    serve_reads X P (map Some chunks) rx a = Some (out, rx', a') \<and> sent u' = sent u @ concat out"
  using run
proof (induction n arbitrary: rx a u)
  case 0
  then show ?case by (intro exI [of _ "[]"]) simp
next
  case (Suc n)
  then obtain rx1 a1 u1 where t: "serve_turn X P D (rx, a, u) = Some (rx1, a1, u1)"
    "serve_turns n X P D (rx1, a1, u1) = Some (rx', a', u')"
    by (auto split: option.splits)
  obtain c o1 where c: "length c \<le> 64" "got u1 = got u @ c"
    "serve_reads X P [Some c] rx a = Some (o1, rx1, a1)" "sent u1 = sent u @ concat o1"
    using serve_turn_reads [OF port nf t(1)] by blast
  obtain cs o2 where cs: "\<forall>c\<in>set cs. length c \<le> 64" "got u' = got u1 @ concat cs"
    "serve_reads X P (map Some cs) rx1 a1 = Some (o2, rx', a')" "sent u' = sent u1 @ concat o2"
    using Suc.IH [OF t(2)] by blast
  have "serve_reads X P ([Some c] @ map Some cs) rx a = Some (o1 @ o2, rx', a')"
    unfolding serve_reads_append c(3) using cs(3) by simp
  with c cs show ?case
    by (intro exI [of _ "c # cs"] exI [of _ "o1 @ o2"]) simp
qed

section \<open>When a turn ends\<close>

lemma serve_buffer_returns:
  assumes host: "host_drains D" and ok: "drain X P rx a \<noteq> None"
  shows "serve_buffer X P D rx a u \<noteq> None"
  using ok
proof (induction "length rx" arbitrary: rx a u rule: less_induct)
  case less
  show ?case
  proof (cases "has_frame rx")
    case False
    then show ?thesis by (simp add: serve_buffer_eq)
  next
    case True
    with less.prems obtain resp b where h: "handle X P (first_frame rx) a = (Some resp, b)"
      and rest: "drain X P (after_frame rx) b \<noteq> None"
      by (subst (asm) drain_eq) (auto split: option.splits prod.splits)
    obtain v where v: "write_all D (u32_le (of_nat (length resp))) 0 u = Some v"
      using write_all_terminates [OF host] by blast
    obtain w where w: "write_all D resp 0 v = Some w"
      using write_all_terminates [OF host] by blast
    have "serve_buffer X P D (after_frame rx) b w \<noteq> None"
      by (rule less.hyps [OF after_frame_shorter [OF True] rest])
    with True h v w show ?thesis by (subst serve_buffer_eq) simp
  qed
qed


end
