(* ===== verification/Service_Facts.thy ===== *)
theory Service_Facts
  imports Service Crash_Recovery
begin

text \<open>
  The appliance behind its frame interface: which state changes requests can cause, what the
  responses carry, and that no frame makes it panic.
\<close>

section \<open>A signature scheme that fits the wire\<close>

text \<open>Keys and signatures stay within the length bounds of the certificate message.\<close>

locale wire_scheme = witness_scheme S for S :: witness_sig +
  assumes pk_bound: "length (snd (ws_keygen S seed)) \<le> MAX_PK_HW"
    and sig_bound: "ws_sign S (fst (ws_keygen S seed)) d = Some sig \<Longrightarrow> length sig \<le> MAX_SIGMA"

interpretation wots_wire: wire_scheme "wots_blake3 B" for B
  by (unfold_locales) (auto simp: wots_keygen_lengths wire_bounds dest: wots_sign_length)

section \<open>Serving requests\<close>

text \<open>The appliance and the responses sent so far.\<close>

type_synonym 'c server = "'c appliance \<times> pb_response list"

inductive serve_step :: "'c platform \<Rightarrow> 'c server \<Rightarrow> 'c server \<Rightarrow> bool" for P where
  request: "dispatch P req a = (Some resp, a') \<Longrightarrow> serve_step P (a, log) (a', log @ [resp])"

inductive_cases serve_stepE: "serve_step P s s'"

text \<open>
  Requests together with what happens around them: power loss inside a commit, the recovery at
  the next boot, and changes of the chip that do not raise the counter.
\<close>

inductive wire_step :: "'c platform \<Rightarrow> ('c \<Rightarrow> u32) \<Rightarrow> 'c server \<Rightarrow> 'c server \<Rightarrow> bool"
  for P live where
  serve: "serve_step P s s' \<Longrightarrow> wire_step P live s s'"
| power_loss: "commit_phase1 P a = (Done (), a') \<Longrightarrow> wire_step P live (a, log) (a', log)"
| boot: "wire_step P live (a, log) (snd (recover P a), log)"
| chip: "live c \<le> live (tropic a) \<Longrightarrow> wire_step P live (a, log) (a\<lparr>tropic := c\<rparr>, log)"

text \<open>The releases that a list of responses carries.\<close>

definition released :: "pb_response list \<Rightarrow> pb_release list" where
  "released log = List.map_filter rs_release log"

lemma released_simps [simp]:
  "released [] = []"
  "released (log @ [resp]) = released log @ (case rs_release resp of None \<Rightarrow> [] | Some m \<Rightarrow> [m])"
  by (simp_all add: released_def List.map_filter_def split: option.split)

lemma in_released: "resp \<in> set log \<Longrightarrow> rs_release resp = Some m \<Longrightarrow> m \<in> set (released log)"
  by (force simp: released_def List.map_filter_def)

section \<open>What is stored fits the wire\<close>

text \<open>
  A statement about what the active record holds: \<open>T\<close> of the transition of a prepared record, whose
  keys are a generated pair, and \<open>R\<close> of the release of a committed one. The operations keep it if
  the release that \<open>commit\<close> builds from a transition with \<open>T\<close> has \<open>R\<close>.
\<close>

definition record_ok ::
    "'c platform \<Rightarrow> (owned_transition \<Rightarrow> bool) \<Rightarrow> (offline_release \<Rightarrow> bool) \<Rightarrow> 'c appliance \<Rightarrow> bool" where
  "record_ok P T R a =
     (case act_record (active a) of
        REmpty \<Rightarrow> True
      | RPrepared p \<Rightarrow> T (p_txn p) \<and>
          (\<exists>seed. p_sk_hw p = fst (ws_keygen (pf_sig P) seed) \<and> p_pk_hw p = snd (ws_keygen (pf_sig P) seed))
      | RCommitted c \<Rightarrow> R (cr_release c))"

lemma record_ok_frame: "active a' = active a \<Longrightarrow> record_ok P T R a' = record_ok P T R a"
  by (simp add: record_ok_def)

lemma record_ok_new [simp]: "record_ok P T R (appliance_new c e g anc q)"
  by (simp add: record_ok_def appliance_new_def)

lemma record_ok_mark: "record_ok P T R (mark_committed u a) = record_ok P T R a"
  by (simp add: record_ok_def mark_committed_def split: active_record.split)

lemma prepare_record_ok:
  assumes "record_ok P T R a" and "T t"
  shows "record_ok P T R (snd (prepare P t rc a))"
proof (cases rule: prepare_cases [where P = P and t = t and rc = rc and a = a])
  case (success ch w ch')
  have "record_ok P T R (a\<lparr>active := (active a)\<lparr>act_record := RPrepared (prepared_for P a t rc w)\<rparr>\<rparr>)"
    using assms(2) prepared_for_keys [of P a t rc w] by (simp add: record_ok_def)
  then show ?thesis by (simp add: success(1) record_ok_def)
next
  case stopped
  from record_ok_frame [OF stopped(2), of P T R] assms(1) show ?thesis by simp
qed

lemma finalize_record_ok: "record_ok P T R a \<Longrightarrow> record_ok P T R (snd (finalize P a))"
  by (cases P a rule: finalize_cases) (simp_all add: record_ok_def)

lemma cancel_record_ok: "record_ok P T R a \<Longrightarrow> record_ok P T R (snd (cancel a))"
  by (cases a rule: cancel_cases) (simp_all add: record_ok_def)

lemma recover_record_ok:
  assumes ok: "record_ok P T R a"
  shows "record_ok P T R (snd (recover P a))"
proof (cases rule: recover_cases [of P a])
  case (reemit c live_u ch ch' u)
  have "record_ok P T R (a\<lparr>tropic := ch'\<rparr>)" using ok by (simp add: record_ok_def)
  then show ?thesis by (simp add: reemit(1) record_ok_mark)
next
  case stopped
  from record_ok_frame [OF stopped(2), of P T R] ok show ?thesis by simp
qed

lemma emit_record_ok: "record_ok P T R a \<Longrightarrow> emit a = Inr rel \<Longrightarrow> R rel"
  by (auto simp: emit_Inr_iff record_ok_def)

locale record_contents =
  fixes P :: "'c platform" and T :: "owned_transition \<Rightarrow> bool" and R :: "offline_release \<Rightarrow> bool"
  assumes release_ok: "T (p_txn p) \<Longrightarrow> p_sk_hw p = fst (ws_keygen (pf_sig P) seed) \<Longrightarrow>
    p_pk_hw p = snd (ws_keygen (pf_sig P) seed) \<Longrightarrow>
    ws_sign (pf_sig P) (p_sk_hw p) (p_cert_message p) = Some sigma \<Longrightarrow> R (commit_release (a :: 'c appliance) p sigma hv)"
begin

lemma ready_record_ok:
  assumes ok: "record_ok P T R a" and ready: "commit_ready P a p hv ch sigma"
  shows "record_ok P T R (store_candidate (candidate a p sigma hv) ch' a)"
proof -
  from ready have rec: "act_record (active a) = RPrepared p"
    and sig: "ws_sign (pf_sig P) (p_sk_hw p) (p_cert_message p) = Some sigma"
    by (simp_all add: commit_ready_def)
  from ok rec obtain seed where "T (p_txn p)"
    and "p_sk_hw p = fst (ws_keygen (pf_sig P) seed)" "p_pk_hw p = snd (ws_keygen (pf_sig P) seed)"
    by (auto simp: record_ok_def)
  from release_ok [OF this sig] show ?thesis by (simp add: record_ok_def)
qed

lemma commit_record_ok:
  assumes ok: "record_ok P T R a"
  shows "record_ok P T R (snd (commit P a))"
proof (cases P a rule: commit_cases)
  case (success p hv ch sigma ch' u)
  with ready_record_ok [OF ok success(1)] show ?thesis by (simp add: record_ok_mark)
next
  case (unmoved p hv ch sigma ch' e)
  with ready_record_ok [OF ok unmoved(1)] show ?thesis by simp
next
  case stopped
  from record_ok_frame [OF stopped(3), of P T R] ok show ?thesis by simp
qed

lemma dispatch_record_ok:
  assumes ok: "record_ok P T R a" and d: "dispatch P req a = (r, a')"
    and fits: "\<And>t. rq_transition req = Some (transition_to_pb t) \<Longrightarrow> transition_fits t \<Longrightarrow> T t"
  shows "record_ok P T R a'"
  using d fits ok
  by (cases rule: dispatch_cases [of P req a])
    (auto intro: prepare_record_ok commit_record_ok finalize_record_ok cancel_record_ok)

end

text \<open>Everything stored fits the wire messages.\<close>

abbreviation wire_ok :: "'c platform \<Rightarrow> 'c appliance \<Rightarrow> bool" where
  "wire_ok P \<equiv> record_ok P transition_fits release_fits"

lemma wire_contents:
  fixes P :: "'c platform"
  assumes "wire_scheme (pf_sig P)"
  shows "record_contents P transition_fits release_fits"
proof
  fix p :: prepared_record and seed sigma hv and a :: "'c appliance"
  assume "transition_fits (p_txn p)" and keys: "p_sk_hw p = fst (ws_keygen (pf_sig P) seed)"
    "p_pk_hw p = snd (ws_keygen (pf_sig P) seed)"
    and "ws_sign (pf_sig P) (p_sk_hw p) (p_cert_message p) = Some sigma"
  with wire_scheme.sig_bound [OF assms] wire_scheme.pk_bound [OF assms, of seed]
  show "release_fits (commit_release a p sigma hv)"
    by (simp add: release_fits_def commit_release_def cert_fits_def evidence_fits_def)
qed

lemmas commit_ready_wire_ok = record_contents.ready_record_ok [OF wire_contents]
lemmas commit_wire_ok = record_contents.commit_record_ok [OF wire_contents]
lemmas emit_fits = emit_record_ok [where R = release_fits]

section \<open>Requests are steps of the system\<close>

text \<open>The responses carry exactly the releases handed out, and each of them can be decoded.\<close>

definition carries :: "'c platform \<Rightarrow> 'c server \<Rightarrow> 'c system \<Rightarrow> bool" where
  "carries P s t \<longleftrightarrow>
     fst s = fst t \<and> released (snd s) = map release_to_pb (snd t) \<and>
     (\<forall>r\<in>set (snd t). release_fits r) \<and> wire_ok P (fst s)"

lemma serve_step_carries:
  assumes scheme: "wire_scheme (pf_sig P)" and step: "serve_step P s s'" and rep: "carries P s t"
  shows "\<exists>t'. (sys_step P live)\<^sup>*\<^sup>* t t' \<and> carries P s' t'"
proof -
  from step obtain req a resp a' log where s: "s = (a, log)" "s' = (a', log @ [resp])"
    and d: "dispatch P req a = (Some resp, a')"
    by cases
  obtain out where t: "t = (a, out)" and ok: "wire_ok P a"
    using rep by (cases t) (auto simp: carries_def s)
  have quiet: "\<exists>t'. (sys_step P live)\<^sup>*\<^sup>* t t' \<and> carries P s' t'"
    if "sys_step P live (a, out) (a', out)" "rs_release resp = None" "wire_ok P a'"
    using that rep by (intro exI [of _ "(a', out)"]) (auto simp: carries_def s t)
  have no_release: "rs_release r = None" if "reply x e = Some r" for x e r
    using that by (auto simp: reply_def split: outcome.splits)
  from d show ?thesis
  proof (cases rule: dispatch_cases [of P req a])
    case (unchanged r)
    with d rep show ?thesis by (intro exI [of _ t]) (auto simp: carries_def s t)
  next
    case (prepare t' rc)
    with d sys_step.prepare [of P live a out t' rc] prepare_record_ok [OF ok] show ?thesis
      by (intro quiet) (auto dest: no_release)
  next
    case commit
    with d sys_step.commit [of P live a out] commit_wire_ok [OF scheme ok] show ?thesis
      by (intro quiet) (auto dest: no_release)
  next
    case (emit rel r)
    have "sys_step P live (a, out) (a, out @ [rel])" using emit(2) by (rule sys_step.emit)
    with d emit rep emit_fits [OF ok emit(2)] show ?thesis
      by (intro exI [of _ "(a, out @ [rel])"]) (auto simp: carries_def s t)
  next
    case (finalize r)
    with d sys_step.finalize [of P live a out] finalize_record_ok [OF ok] show ?thesis
      by (intro quiet) auto
  next
    case (cancel r)
    with d sys_step.cancel [of P live a out] cancel_record_ok [OF ok] show ?thesis
      by (intro quiet) auto
  qed
qed

text \<open>A platform whose chip keeps its contract and whose signatures fit the wire.\<close>

locale wire_appliance = appliance_chip P live
  for P :: "'c platform" and live :: "'c \<Rightarrow> u32" +
  assumes scheme: "wire_scheme (pf_sig P)"
begin

lemma wire_step_carries:
  assumes "wire_step P live s s'" and rep: "carries P s t"
  shows "\<exists>t'. (sys_step P live)\<^sup>*\<^sup>* t t' \<and> carries P s' t'"
  using assms(1)
proof cases
  case serve
  then show ?thesis using serve_step_carries [OF scheme _ rep] by blast
next
  case (power_loss a a' log)
  then obtain out where t: "t = (a, out)" using rep by (cases t) (auto simp: carries_def)
  obtain p hv ch sigma where r: "commit_ready P a p hv ch sigma"
    using power_loss(3) commit_phase1_Done_iff [of P a] by auto
  have "wire_ok P a'"
    using commit_ready_wire_ok [OF scheme _ r] rep power_loss(1,3) commit_phase1_of_ready [OF r]
    by (auto simp: carries_def)
  with sys_step.power_loss [OF power_loss(3), of live out] rep power_loss show ?thesis
    by (intro exI [of _ "(a', out)"]) (auto simp: carries_def t)
next
  case (boot a log)
  then obtain out where t: "t = (a, out)" using rep by (cases t) (auto simp: carries_def)
  with sys_step.recover [of P live a out] rep boot recover_record_ok [where P = P and a = a] show ?thesis
    by (intro exI [of _ "(snd (recover P a), out)"]) (auto simp: carries_def)
next
  case (chip c a log)
  then obtain out where t: "t = (a, out)" using rep by (cases t) (auto simp: carries_def)
  with sys_step.chip [of live c a P out] rep chip show ?thesis
    by (intro exI [of _ "(a\<lparr>tropic := c\<rparr>, out)"]) (auto simp: carries_def record_ok_def)
qed

end

sublocale wire_appliance \<subseteq> wire: forward_simulation "wire_step P live" "sys_step P live" "carries P"
  by unfold_locales (rule wire_step_carries)

context wire_appliance
begin

lemma wire_reachable:
  assumes "(wire_step P live)\<^sup>*\<^sup>* (appliance_new c e g anc q, []) (a, log)"
  shows "\<exists>out A. released log = map release_to_pb out \<and> (\<forall>r\<in>set out. release_fits r) \<and>
    (sys_step P live)\<^sup>*\<^sup>* (appliance_new c e g anc q, []) (a, out) \<and> represents P live g (a, out) A"
proof -
  have "carries P (appliance_new c e g anc q, []) (appliance_new c e g anc q, [])"
    by (simp add: carries_def record_ok_def appliance_new_def)
  from wire.simulates_steps [OF assms this]
  obtain out where "(sys_step P live)\<^sup>*\<^sup>* (appliance_new c e g anc q, []) (a, out)"
    "carries P (a, log) (a, out)"
    by (auto simp: carries_def)
  with reachable_represents show ?thesis by (fastforce simp: carries_def)
qed

lemma handle_no_panic:
  assumes rep: "represents P live g (a, out) A"
  shows "fst (handle X P frame a) \<noteq> None"
proof -
  have wit: "witness_scheme (pf_sig P)" using scheme by (simp add: wire_scheme_def)
  note np = represents_no_panic [OF rep wit]
  have "fst (dispatch P req a) \<noteq> None" for req
    by (cases rule: dispatch_cases [of P req a])
      (use np in \<open>auto simp: reply_def transition_fits_enc split: outcome.split\<close>)
  then show ?thesis
    by (auto simp: handle_def split: sum.split prod.split) (metis fst_conv)
qed

end

interpretation mock_wire: wire_appliance "mock_platform dbg B" mock_h for dbg B
  by (simp add: wire_appliance_def mock_app.appliance_chip_axioms wire_appliance_axioms_def
      wots_wire.wire_scheme_axioms)

end
