(* ===== verification/Service_Properties.thy ===== *)
theory Service_Properties
  imports Service_Facts
begin

text \<open>The properties of the frame interface.\<close>

section \<open>Helper facts\<close>

lemma dispatch_response_op:
  assumes "dispatch P req a = (Some resp, a')"
  shows "rs_op resp = rq_op req"
  using assms
  by (auto simp: dispatch_def Let_def dispatch_prepare_def reply_def
      split: option.splits pb_op.splits sum.splits prod.splits outcome.splits)

text \<open>A candidate whose counter step was never confirmed.\<close>

definition unconfirmed :: "'c appliance \<Rightarrow> bool" where
  "unconfirmed a \<longleftrightarrow> act_status (active a) = Committed \<and>
     (\<exists>c. act_record (active a) = RCommitted c \<and> \<not> cr_committed c)"

lemma unconfirmed_dispatch:
  assumes d: "dispatch P req a = (Some resp, a')" and un: "unconfirmed a"
  shows "active a' = active a \<and> rs_release resp = None \<and> (rs_ok resp \<longrightarrow> rs_op resp = op_number OpStatus)"
proof (cases "op_try_from (rq_op req)")
  case None
  with d show ?thesis by (auto simp: dispatch_def Let_def)
next
  case (Some x)
  from un obtain c where c: "act_status (active a) = Committed" "act_record (active a) = RCommitted c"
    "\<not> cr_committed c" by (auto simp: unconfirmed_def)
  have op: "rs_op resp = op_number x"
    using dispatch_response_op [OF d] Some by (simp add: op_try_from_Some_iff)
  show ?thesis
  proof (cases x)
    case OpPrepare
    have "prepare P t rc a = (Fail WrongState, a)" for t rc by (simp add: prepare_def c(1))
    with d Some OpPrepare show ?thesis
      by (auto simp: dispatch_def Let_def dispatch_prepare_def reply_def split: option.splits sum.splits)
  next
    case OpCommit
    with d Some c show ?thesis by (auto simp: dispatch_def Let_def commit_def commit_phase1_def reply_def)
  next
    case OpEmit
    with d Some c show ?thesis by (auto simp: dispatch_def Let_def emit_def)
  next
    case OpFinalize
    with d Some c show ?thesis by (auto simp: dispatch_def Let_def finalize_def)
  next
    case OpCancel
    with d Some c show ?thesis by (auto simp: dispatch_def Let_def cancel_def)
  qed (use d Some op in \<open>auto simp: dispatch_def Let_def\<close>)
qed

lemma unconfirmed_served:
  assumes "(serve_step P)\<^sup>*\<^sup>* (a, []) s" and "unconfirmed a"
  shows "active (fst s) = active a \<and> released (snd s) = [] \<and>
    (\<forall>resp\<in>set (snd s). rs_ok resp \<longrightarrow> rs_op resp = op_number OpStatus)"
  using assms
proof (induction rule: rtranclp_induct)
  case base
  then show ?case by simp
next
  case (step s s')
  then obtain b req resp b' log where s: "s = (b, log)" "s' = (b', log @ [resp])"
    and d: "dispatch P req b = (Some resp, b')"
    by (auto elim: serve_stepE)
  with step have "unconfirmed b" by (simp add: unconfirmed_def)
  from unconfirmed_dispatch [OF d this] step s show ?case by auto
qed

section \<open>What the wire carries\<close>

text \<open>
  Every release that ever leaves through the frame interface lies on one chain. For any sequence of
  requests, interleaved with power losses, recoveries and outside counter steps, there is a single
  root-linked, consecutively numbered chain from the enrolled root, and every release message in any
  response decodes, within all wire bounds, to a member of it.
\<close>

lemma wire_releases_on_one_chain:
  assumes wire: "wire_appliance P live"
    and run: "(wire_step P live)\<^sup>*\<^sup>* (appliance_new c e g anc q, []) (a, log)"
  shows "\<exists>chain h. path g chain h \<and> map rel_index chain = [1 ..< Suc (length chain)] \<and>
    (\<forall>resp\<in>set log. \<forall>m. rs_release resp = Some m \<longrightarrow> (\<exists>r\<in>set chain. to_release m = Inr r))"
proof -
  obtain out A where o: "released log = map release_to_pb out" "\<forall>r\<in>set out. release_fits r"
    and rep: "represents P live g (a, out) A"
    using wire_appliance.wire_reachable [OF wire run] by blast
  have inv: "path g (a_chain A) (chain_end A)" "numbered (a_chain A)" "set out \<subseteq> set (a_chain A)"
    using rep by (auto simp: represents_def anchor_inv_def)
  have "\<exists>r\<in>set (a_chain A). to_release m = Inr r"
    if "resp \<in> set log" "rs_release resp = Some m" for resp m
  proof -
    have "m \<in> release_to_pb ` set out" using in_released [OF that] o(1) by simp
    then obtain r where r: "r \<in> set out" "m = release_to_pb r" by blast
    then show ?thesis using o(2) inv(3) release_wire.roundtrip by blast
  qed
  with inv(1,2) show ?thesis unfolding numbered_def by blast
qed

text \<open>The host's side of the test transfer: prepare, commit and emit requests.\<close>

definition op_request :: "pb_op \<Rightarrow> pb_request" where
  "op_request x = \<lparr> rq_op = op_number x, rq_transition = None, rq_receiver_challenge = [] \<rparr>"

definition test_prepare_request :: pb_request where
  "test_prepare_request =
     \<lparr> rq_op = op_number OpPrepare, rq_transition = Some (transition_to_pb test_step0),
       rq_receiver_challenge = bytes_of (fill32 0x55) \<rparr>"

lemma test_step0_fits: "transition_fits test_step0"
  by (simp add: transition_fits_def test_transition_def wire_bounds)

lemma dispatch_test_prepare:
  "dispatch P test_prepare_request a =
     (reply (op_number OpPrepare) (fst (prepare P test_step0 (fill32 0x55) a)),
      snd (prepare P test_step0 (fill32 0x55) a))"
  using transition_wire.roundtrip [OF test_step0_fits]
  by (simp add: dispatch_def Let_def dispatch_prepare_def test_prepare_request_def arr32_bytes_of
      del: bytes_of_fill32 split: prod.split)

lemma test_served:
  obtains a1 a rel log resp where
    "prepare test_platform test_step0 (fill32 0x55) (test_appliance 100) = (Done (), a1)"
    and "commit test_platform a1 = (Done (), a)" and "mock_h (tropic a) = 99" and "emit a = Inr rel"
    and "(wire_step test_platform mock_h)\<^sup>*\<^sup>* (test_appliance 100, []) (a, log)"
    and "resp \<in> set log" and "rs_release resp = Some (release_to_pb rel)"
proof -
  obtain a1 a2 where r: "prepare test_platform test_step0 (fill32 0x55) (test_appliance 100) = (Done (), a1)"
    "commit test_platform a1 = (Done (), a2)" and live: "mock_h (tropic a2) = 99"
    by (rule test_run)
  obtain rel where e: "emit a2 = Inr rel"
    using mock_app.prepare_commit_release [OF r] by metis
  have d: "dispatch test_platform test_prepare_request (test_appliance 100)
      = (Some (ok_response (op_number OpPrepare)), a1)"
    "dispatch test_platform (op_request OpCommit) a1 = (Some (ok_response (op_number OpCommit)), a2)"
    "dispatch test_platform (op_request OpEmit) a2 = (Some ((base_response (op_number OpEmit))
       \<lparr>rs_ok := True, rs_release := Some (release_to_pb rel)\<rparr>), a2)"
    using r e by (simp add: dispatch_test_prepare reply_def,
      simp_all add: reply_def dispatch_def Let_def op_request_def)
  note step = wire_step.serve [OF serve_step.request]
  have "(wire_step test_platform mock_h)\<^sup>*\<^sup>* (test_appliance 100, [])
      (a1, [] @ [ok_response (op_number OpPrepare)])"
    by (rule r_into_rtranclp) (rule step [OF d(1)])
  from rtranclp_snoc2 [OF rtranclp_snoc2 [OF this step [OF d(2)]] step [OF d(3)]]
  have "(wire_step test_platform mock_h)\<^sup>*\<^sup>* (test_appliance 100, [])
      (a2, (([] @ [ok_response (op_number OpPrepare)]) @ [ok_response (op_number OpCommit)]) @
        [(base_response (op_number OpEmit))\<lparr>rs_ok := True, rs_release := Some (release_to_pb rel)\<rparr>])" .
  then show ?thesis
    by (rule that [where resp = "(base_response (op_number OpEmit))
          \<lparr>rs_ok := True, rs_release := Some (release_to_pb rel)\<rparr>", OF r live e]) simp_all
qed

section \<open>A transfer over the wire\<close>

lemma reply_ok: "reply x r = Some resp \<Longrightarrow> rs_ok resp \<Longrightarrow> r = Done ()"
  by (simp add: reply_def split: outcome.splits) (auto simp: response_defs)

text \<open>What a transfer releases fits the wire.\<close>

lemma transfer_release_fits:
  assumes scheme: "wire_scheme (pf_sig P)" and p: "prepare P t rc a = (Done (), a1)"
    and c: "commit P a1 = (Done (), a2)" and e: "emit a2 = Inr rel" and fits: "transition_fits t"
  shows "release_fits rel"
proof -
  obtain w where rec: "act_record (active a1) = RPrepared (prepared_for P a t rc w)"
    by (rule prepare_DoneE [OF p]) simp
  have "wire_ok P a1"
    using fits prepared_for_keys [of P a t rc w] by (simp add: record_ok_def rec)
  then show ?thesis
    using commit_wire_ok [OF scheme, of a1] c emit_fits [OF _ e] by simp
qed

text \<open>
  C14: a transfer over the wire is accepted. When the prepare, commit and emit requests of a host are
  answered with ok in turn, the emit response carries a release message that decodes to a release
  of exactly the requested transition, and the receiver it was made for accepts it once it has
  attached its own counter evidence: a receiver that accepts the parent root, pinned the anchor and
  its enrolled counter, supplied the challenge, whose DSM checks pass, and whose authenticated
  read returns the value the chip now has.
\<close>

theorem wire_transfer_accepted:
  assumes wire: "wire_appliance P live"
    and prep: "rq_op req = op_number OpPrepare" "dispatch P req a = (Some r1, a1)" "rs_ok r1"
    and com: "dispatch P (op_request OpCommit) a1 = (Some r2, a2)" "rs_ok r2"
    and emit: "dispatch P (op_request OpEmit) a2 = (Some r3, a3)"
    and m: "rq_transition req = Some m" "to_owned_transition m = Inr t"
      "rq_receiver_challenge req = bytes_of rc"
    and ctx: "accepted_prev_root ctx = act_root (active a)" "pinned_anchor_id ctx = anchor_id a"
      "expected_receiver_challenge ctx = rc" "expected_policy_hash ctx = authority_policy_hash t"
      "enrolled_counter ctx = ucast (h0 a)" "next_anchor_counter t \<le> exposure_cap_index ctx"
      "anchor_uncompromised ctx"
    and dsm: "root_commits_counter D (act_root (active a)) (anchor_counter t)"
      "verify_transition D t" "delivers_to_receiver D t"
    and read: "ev_anchor_id ev = anchor_id a"
      "read_authentic_counter C (anchor_id a) ev = Some (ucast (live (tropic a3)))"
  shows "rs_ok r3 \<and> (\<exists>msg rel. rs_release r3 = Some msg \<and> to_release msg = Inr rel \<and> rel_transition rel = t \<and>
    accept_offline (pf_debug P) (pf_blake3 P) (pf_sig P) D C (rel\<lparr>rel_counter := ev\<rparr>) ctx = Done ())"
proof -
  have chip: "appliance_chip P live" and scheme: "wire_scheme (pf_sig P)"
    using wire by (simp_all add: wire_appliance_def wire_appliance_axioms_def)
  have t: "m = transition_to_pb t" "transition_fits t" using m(2) by (simp_all add: to_owned_transition_iff)
  have "dispatch P req a = (reply (rq_op req) (fst (prepare P t rc a)), snd (prepare P t rc a))"
    using prep(1) m t by (simp add: dispatch_def dispatch_prepare_def Let_def transition_wire.roundtrip
        split: prod.split)
  then have p: "prepare P t rc a = (Done (), a1)"
    using prep(2,3) reply_ok by (metis prod.collapse prod.inject)
  have "dispatch P (op_request OpCommit) a1 = (reply (op_number OpCommit) (fst (commit P a1)), snd (commit P a1))"
    by (simp add: dispatch_def op_request_def Let_def split: prod.split)
  then have c: "commit P a1 = (Done (), a2)"
    using com reply_ok by (metis prod.collapse prod.inject)
  have a3: "a3 = a2" using emit by (auto simp: dispatch_def op_request_def Let_def split: sum.splits)
  have "\<exists>rel. emit a2 = Inr rel \<and> rel_transition rel = t \<and>
      accept_offline (pf_debug P) (pf_blake3 P) (pf_sig P) D C (rel\<lparr>rel_counter := ev\<rparr>) ctx = Done ()"
    using honest_transfer [OF chip _ p c ctx dsm read(1) read(2) [unfolded a3]] scheme
    by (simp add: wire_scheme_def)
  then obtain rel where rel: "emit a2 = Inr rel" "rel_transition rel = t"
    "accept_offline (pf_debug P) (pf_blake3 P) (pf_sig P) D C (rel\<lparr>rel_counter := ev\<rparr>) ctx = Done ()"
    by blast
  have "release_fits rel" by (rule transfer_release_fits [OF scheme p c rel(1) t(2)])
  then have "to_release (release_to_pb rel) = Inr rel" by (rule release_wire.roundtrip)
  moreover have "rs_ok r3 \<and> rs_release r3 = Some (release_to_pb rel)"
    using emit rel(1) by (auto simp: dispatch_def op_request_def Let_def)
  ultimately show ?thesis using rel(2,3) by blast
qed

theorem wire_transfer_accepted_witness:
  "\<exists>a1 a2 r3 msg rel. dispatch test_platform test_prepare_request (test_appliance 100)
        = (Some (ok_response (op_number OpPrepare)), a1) \<and>
     dispatch test_platform (op_request OpCommit) a1 = (Some (ok_response (op_number OpCommit)), a2) \<and>
     dispatch test_platform (op_request OpEmit) a2 = (Some r3, a2) \<and>
     rs_release r3 = Some msg \<and> to_release msg = Inr rel \<and>
     accept_offline True sample_blake3 (wots_blake3 sample_blake3) ok_dsm ok_counter
       (rel\<lparr>rel_counter := test_evidence 99\<rparr>) test_ctx = Done ()"
proof -
  obtain a1 a2 where r: "prepare test_platform test_step0 (fill32 0x55) (test_appliance 100) = (Done (), a1)"
    "commit test_platform a1 = (Done (), a2)" "mock_h (tropic a2) = 99"
    by (rule test_run)
  obtain rel where e: "emit a2 = Inr rel" using mock_app.prepare_commit_release [OF r(1,2)] by metis
  let ?r3 = "(base_response (op_number OpEmit))\<lparr>rs_ok := True, rs_release := Some (release_to_pb rel)\<rparr>"
  have d: "dispatch test_platform test_prepare_request (test_appliance 100)
      = (Some (ok_response (op_number OpPrepare)), a1)"
    "dispatch test_platform (op_request OpCommit) a1 = (Some (ok_response (op_number OpCommit)), a2)"
    "dispatch test_platform (op_request OpEmit) a2 = (Some ?r3, a2)"
    using r(1,2) e by (simp add: dispatch_test_prepare reply_def,
      simp_all add: reply_def dispatch_def Let_def op_request_def)
  have "rs_ok ?r3 \<and> (\<exists>msg rel. rs_release ?r3 = Some msg \<and> to_release msg = Inr rel \<and> rel_transition rel = test_step0 \<and>
      accept_offline (pf_debug test_platform) (pf_blake3 test_platform) (pf_sig test_platform)
        ok_dsm ok_counter (rel\<lparr>rel_counter := test_evidence 99\<rparr>) test_ctx = Done ())"
    by (rule wire_transfer_accepted [OF mock_wire.wire_appliance_axioms _ d(1) _ d(2) _ d(3) _ transition_wire.roundtrip [OF test_step0_fits], where rc = "fill32 0x55"])
      (simp_all add: test_prepare_request_def test_ctx_def ok_dsm_def ok_counter_def test_evidence_def test_appliance_def appliance_new_def test_transition_def r(3))
  with d show ?thesis by auto
qed

section \<open>Robustness\<close>

text \<open>
  C16: no frame makes the appliance panic. In any state reached by requests, power losses, boots and
  chip changes, with debug assertions and overflow checks on or off, and for any decoder of
  frames, every frame, of any length and content, is answered.
\<close>

theorem handle_never_panics:
  assumes wire: "wire_appliance P live"
    and run: "(wire_step P live)\<^sup>*\<^sup>* (appliance_new c e g anc q, []) (a, log)"
  shows "\<exists>bytes a'. handle X P frame a = (Some bytes, a')"
proof -
  obtain out A where "represents P live g (a, out) A"
    using wire_appliance.wire_reachable [OF wire run] by blast
  from wire_appliance.handle_no_panic [OF wire this, of X frame] show ?thesis
    by (cases "handle X P frame a") auto
qed

theorem handle_never_panics_witness:
  "\<exists>bytes a'. handle \<lparr> px_decode_request = (\<lambda>_. Some test_prepare_request), px_encode_request = (\<lambda>_. []),
       px_decode_response = (\<lambda>_. None), px_encode_response = (\<lambda>r. if rs_ok r then [1] else [0]) \<rparr>
     test_platform [1, 2, 3] (test_appliance 100) = (Some bytes, a')"
  unfolding test_appliance_def
  by (rule handle_never_panics [OF mock_wire.wire_appliance_axioms rtranclp.rtrancl_refl])

text \<open>
  C29: refused requests are atomic. When a response is not ok, the active record, the enrolled
  configuration and, over a contract-keeping chip, the counter are as before; the one exception
  is a commit that stored its candidate and whose counter step was not confirmed.
\<close>

theorem refused_request_atomic:
  assumes chip: "appliance_chip P live"
    and resp: "dispatch P req a = (Some resp, a')" and refused: "\<not> rs_ok resp"
  shows "(active a' = active a \<and> config a' = config a \<and> live (tropic a') = live (tropic a)) \<or>
    (rs_op resp = op_number OpCommit \<and> rs_error resp = err_COUNTER_EXHAUSTED \<and> unconfirmed a' \<and>
     live (tropic a) \<noteq> 0)"
  using resp
proof (cases rule: dispatch_cases [of P req a])
  case (unchanged r)
  with resp show ?thesis by simp
next
  case (prepare t rc)
  show ?thesis
  proof (cases rule: prepare_cases [where P = P and t = t and rc = rc and a = a])
    case (success ch w ch')
    with resp prepare refused show ?thesis by (auto simp: reply_def)
  next
    case stopped
    with resp prepare appliance_chip.prepare_live [OF chip, of t rc a] show ?thesis by auto
  qed
next
  case commit
  show ?thesis
  proof (cases P a rule: commit_cases)
    case (success p hv ch sigma ch' u)
    with resp commit refused show ?thesis by (auto simp: reply_def)
  next
    case (unmoved p hv ch sigma ch' e)
    have "live (tropic a) \<noteq> 0"
      using unmoved(1) appliance_chip.commit_ready_live(2) [OF chip unmoved(1)]
      by (simp add: commit_ready_def)
    with resp commit unmoved show ?thesis
      by (auto simp: reply_def appliance_code_def unconfirmed_def)
  next
    case stopped
    with resp commit appliance_chip.commit_phase1_live [OF chip, of a] show ?thesis by auto
  qed
next
  case (emit rel r)
  with resp show ?thesis by simp
next
  case (finalize r)
  show ?thesis
  proof (cases P a rule: finalize_cases)
    case (success c ch)
    with resp finalize refused show ?thesis by auto
  next
    case (stopped e)
    with resp finalize appliance_chip.finalize_live [OF chip, of a] show ?thesis by auto
  qed
next
  case (cancel r)
  with resp refused show ?thesis by (cases a rule: cancel_cases) auto
qed

theorem refused_request_atomic_witness:
  "let d = dispatch test_platform (op_request OpCommit) (test_appliance 100)
   in \<not> rs_ok (the (fst d)) \<and> active (snd d) = active (test_appliance 100) \<and>
      mock_h (tropic (snd d)) = 100"
proof -
  have d: "dispatch test_platform (op_request OpCommit) (test_appliance 100)
      = (Some (fail_response (op_number OpCommit) err_WRONG_STATE), test_appliance 100)"
    by (simp add: dispatch_def Let_def op_request_def commit_def commit_phase1_def reply_def
        appliance_code_def test_appliance_def appliance_new_def)
  from refused_request_atomic [OF mock_app.appliance_chip_axioms d] d show ?thesis
    by (simp add: err_defs test_appliance_def appliance_new_def)
qed

section \<open>A commit whose counter step fails\<close>

text \<open>
  C30: over the wire there is no way out of an unconfirmed commit. When \<open>commit\<close> fails to move a
  counter that is not exhausted, then for every further sequence of requests the active record
  stays as it is, no release is carried, and only status requests are answered with ok; only
  \<open>recover\<close>, which no request reaches, completes the transfer.
\<close>

theorem failed_commit_blocks_requests:
  assumes chip: "appliance_chip P live"
    and fail: "commit P a0 = (Fail CounterExhausted, a)" and room: "live (tropic a0) \<noteq> 0"
    and later: "(serve_step P)\<^sup>*\<^sup>* (a, []) (a', log)"
  shows "active a' = active a \<and> released log = [] \<and>
    (\<forall>resp\<in>set log. rs_ok resp \<longrightarrow> rs_op resp = op_number OpStatus)"
proof -
  have "unconfirmed a"
  proof (cases P a0 rule: commit_cases)
    case (unmoved p hv ch sigma ch' e)
    with fail show ?thesis by (auto simp: unconfirmed_def)
  next
    case stopped
    obtain g ch where get: "counter_get (pf_tropic P) (tropic a0) = (g, ch)" by (metis prod.collapse)
    have "commit_phase1 P a0 = (Fail CounterExhausted, a)" using stopped(2) fail by simp
    then have "g = Inr 0"
      using get by (auto simp: commit_phase1_def Let_def
          split: active_record.splits if_splits sum.splits option.splits)
    with tropic_chip.get_value [OF chip [unfolded appliance_chip_def], of "tropic a0" 0] get room
    show ?thesis by simp
  qed (use fail in simp)
  from unconfirmed_served [OF later this] show ?thesis by simp
qed

text \<open>The chip of the host tests, with a link that loses every update.\<close>

definition deaf_platform :: "mock_tropic platform" where
  "deaf_platform = test_platform
     \<lparr>pf_tropic := (pf_tropic test_platform)\<lparr>counter_update := (\<lambda>c. (Inl Comm, c))\<rparr>\<rparr>"

lemma deaf_chip: "appliance_chip deaf_platform mock_h"
  by (unfold_locales) (auto simp: deaf_platform_def mock_ops_def)

theorem failed_commit_blocks_requests_witness:
  "\<exists>a0 a a' resp. commit deaf_platform a0 = (Fail CounterExhausted, a) \<and> mock_h (tropic a0) = 100 \<and>
     dispatch deaf_platform (op_request OpEmit) a = (Some resp, a') \<and> \<not> rs_ok resp \<and>
     active a' = active a"
proof -
  obtain a0 a1 where r: "commit_phase1 test_platform a0 = (Done (), a1)" "mock_h (tropic a0) = 100"
    by (rule test_prepared)
  then obtain p hv ch sigma where "commit_ready test_platform a0 p hv ch sigma"
    using commit_phase1_Done_iff [of test_platform a0] by auto
  then have ready: "commit_ready deaf_platform a0 p hv ch sigma"
    by (auto simp: commit_ready_def deaf_platform_def mock_ops_def)
  have "counter_update (pf_tropic deaf_platform) ch = (Inl Comm, ch)" by (simp add: deaf_platform_def)
  from commit_of_ready [OF ready this]
  obtain a where com: "commit deaf_platform a0 = (Fail CounterExhausted, a)" by simp
  obtain resp a' where d: "dispatch deaf_platform (op_request OpEmit) a = (Some resp, a')"
    by (cases "emit a") (simp_all add: dispatch_def Let_def op_request_def)
  have "(serve_step deaf_platform)\<^sup>*\<^sup>* (a, []) (a', [] @ [resp])"
    using d by (intro r_into_rtranclp serve_step.request)
  from failed_commit_blocks_requests [OF deaf_chip com _ this] r(2)
  have "active a' = active a \<and> (rs_ok resp \<longrightarrow> rs_op resp = op_number OpStatus)" by simp
  moreover have "rs_op resp \<noteq> op_number OpStatus"
    using dispatch_response_op [OF d] by (simp add: op_request_def op_number_def)
  ultimately show ?thesis using com r(2) d by blast
qed

end
