(* ===== verification/Firmware_Properties.thy ===== *)
theory Firmware_Properties
  imports Framing Service_Properties
begin

text \<open>
  The firmware around the appliance: its chip session gives the contract the appliance relies on,
  the self-test passes, and what enrolling at every boot means.
\<close>

section \<open>The chip session\<close>

text \<open>
  What the documentation of the session calls promises, over the value \<open>live\<close> of the monotonic
  counter: initialising sets it, reading returns it, an update that succeeds takes it down by one,
  and a failed update may or may not have reached the chip.
\<close>

locale chip_session =
  fixes S :: "'s session" and live :: "'s \<Rightarrow> u32"
  assumes ss_mac_frame: "live (snd (ss_mac_and_destroy S q x s)) = live s"
    and ss_get_frame: "live (snd (ss_mcounter_get S s)) = live s"
    and ss_get_value: "fst (ss_mcounter_get S s) = Some v \<Longrightarrow> v = live s"
    and ss_update_ok: "fst (ss_mcounter_update S s) \<Longrightarrow>
      unat (live s) = Suc (unat (live (snd (ss_mcounter_update S s))))"
    and ss_update_err: "\<not> fst (ss_mcounter_update S s) \<Longrightarrow>
      live (snd (ss_mcounter_update S s)) = live s \<or>
      unat (live s) = Suc (unat (live (snd (ss_mcounter_update S s))))"
    and ss_init_ok: "fst (ss_mcounter_init S v s) \<Longrightarrow> live (snd (ss_mcounter_init S v s)) = v"

lemma chip_tropic_simps [simp]:
  "fst (mac_and_destroy (chip_tropic S) q x s) =
     (case fst (ss_mac_and_destroy S q x s) of Some w \<Rightarrow> Inr w | None \<Rightarrow> Inl Comm)"
  "snd (mac_and_destroy (chip_tropic S) q x s) = snd (ss_mac_and_destroy S q x s)"
  "fst (counter_get (chip_tropic S) s) =
     (case fst (ss_mcounter_get S s) of Some v \<Rightarrow> Inr v | None \<Rightarrow> Inl Comm)"
  "snd (counter_get (chip_tropic S) s) = snd (ss_mcounter_get S s)"
  "fst (counter_update (chip_tropic S) s) =
     (if fst (ss_mcounter_update S s) then Inr () else Inl TropicExhausted)"
  "snd (counter_update (chip_tropic S) s) = snd (ss_mcounter_update S s)"
  by (simp_all add: chip_tropic_def split: prod.split option.split bool.split)

sublocale chip_session \<subseteq> chip: tropic_chip "chip_tropic S" live
proof
  show "live (snd (mac_and_destroy (chip_tropic S) q x c)) = live c" for q x c
    by (simp add: ss_mac_frame)
  show "live (snd (counter_get (chip_tropic S) c)) = live c" for c
    by (simp add: ss_get_frame)
  show "fst (counter_get (chip_tropic S) c) = Inr v \<Longrightarrow> v = live c" for c v
    using ss_get_value [of c v] by (simp split: option.splits)
  show "fst (counter_update (chip_tropic S) c) = Inr u \<Longrightarrow>
      unat (live c) = Suc (unat (live (snd (counter_update (chip_tropic S) c))))" for c u
    using ss_update_ok [of c] by (simp split: if_splits)
  show "fst (counter_update (chip_tropic S) c) = Inl e \<Longrightarrow>
      live (snd (counter_update (chip_tropic S) c)) = live c \<or>
      unat (live c) = Suc (unat (live (snd (counter_update (chip_tropic S) c))))" for c e
    using ss_update_err [of c] by (simp split: if_splits)
qed

context chip_session
begin

lemmas session_chip = chip.tropic_chip_axioms

end

locale reliable_session = chip_session S live
  for S :: "'s session" and live :: "'s \<Rightarrow> u32" +
  assumes ss_mac_answers: "\<exists>w. fst (ss_mac_and_destroy S q x s) = Some w"
    and ss_get_answers: "fst (ss_mcounter_get S s) = Some (live s)"
    and ss_update_answers: "live s \<noteq> 0 \<Longrightarrow> fst (ss_mcounter_update S s)"
    and ss_init_answers: "fst (ss_mcounter_init S v s)"

sublocale reliable_session \<subseteq> chip: reliable_chip "chip_tropic S" live
proof
  show "\<exists>w. fst (mac_and_destroy (chip_tropic S) q x c) = Inr w" for q x c
    using ss_mac_answers [of q x c] by auto
  show "fst (counter_get (chip_tropic S) c) = Inr (live c)" for c
    by (simp add: ss_get_answers)
  show "live c \<noteq> 0 \<Longrightarrow> fst (counter_update (chip_tropic S) c) = Inr ()" for c
    by (simp add: ss_update_answers)
qed

text \<open>The stand-in chip of the host tests, with its counter set by \<open>mcounter_init\<close>.\<close>

definition mock_session :: "(bytes32 \<Rightarrow> u16 \<Rightarrow> bytes32 \<Rightarrow> bytes32) \<Rightarrow> mock_tropic session" where
  "mock_session mac =
     \<lparr> ss_mac_and_destroy = (\<lambda>q x c. (Some (mac (mock_secret c) q x), c)),
       ss_mcounter_init = (\<lambda>v c. (True, c\<lparr>mock_h := v\<rparr>)),
       ss_mcounter_get = (\<lambda>c. (Some (mock_h c), c)),
       ss_mcounter_update = (\<lambda>c. if mock_h c = 0 then (False, c) else (True, c\<lparr>mock_h := mock_h c - 1\<rparr>)) \<rparr>"

interpretation mock_sess: reliable_session "mock_session mac" mock_h for mac
  by unfold_locales (auto simp: mock_session_def split: if_splits dest: unat_pred)

lemma firmware_platform_simps [simp]:
  "pf_debug (firmware_platform dbg B S) = dbg" "pf_blake3 (firmware_platform dbg B S) = B"
  "pf_tropic (firmware_platform dbg B S) = chip_tropic S"
  "pf_sig (firmware_platform dbg B S) = wots_blake3 B"
  by (simp_all add: firmware_platform_def)

text \<open>The appliance of the firmware runs on a chip that keeps the appliance's contract.\<close>

sublocale reliable_session \<subseteq> app: reliable_appliance "firmware_platform dbg B S" live for dbg B
  by (intro reliable_appliance.intro appliance_chip.intro reliable_appliance_axioms.intro)
    (simp_all add: chip.tropic_chip_axioms chip.reliable_chip_axioms wots.witness_scheme_axioms)

section \<open>Boot\<close>

context reliable_session
begin

lemmas firmware_appliance = app.reliable_appliance_axioms

lemma enroll_result: "\<exists>s'. enroll S s = (Inr ENROLL_H0, s') \<and> live s' = ENROLL_H0"
proof -
  obtain s1 where i: "ss_mcounter_init S ENROLL_H0 s = (True, s1)"
    using ss_init_answers [of ENROLL_H0 s] by (cases "ss_mcounter_init S ENROLL_H0 s") auto
  then have l1: "live s1 = ENROLL_H0" using ss_init_ok [of ENROLL_H0 s] by simp
  obtain s2 where g: "ss_mcounter_get S s1 = (Some (live s1), s2)"
    using ss_get_answers [of s1] by (metis prod.collapse)
  obtain w s3 where m: "ss_mac_and_destroy S MD_SLOT U_ARM0 s2 = (Some w, s3)"
    using ss_mac_answers [of MD_SLOT U_ARM0 s2] by (metis prod.collapse)
  have "live s3 = ENROLL_H0"
    using ss_mac_frame [of MD_SLOT U_ARM0 s2] ss_get_frame [of s1] g m l1 by simp
  with i g m l1 show ?thesis by (simp add: enroll_def)
qed

lemma boot_result:
  "\<exists>s'. boot_appliance S s = appliance_new s' ENROLL_H0 GENESIS ANCHOR MD_SLOT \<and> live s' = ENROLL_H0"
  using enroll_result [of s] by (auto simp: boot_appliance_def)

lemma boot_ready:
  "offline_ready live (boot_appliance S s)" "act_root (active (boot_appliance S s)) = GENESIS"
  "act_u (active (boot_appliance S s)) = 0" "anchor_id (boot_appliance S s) = ANCHOR"
  "h0 (boot_appliance S s) = ENROLL_H0"
  using boot_result [of s]
  by (auto simp: offline_ready_def appliance_new_def ENROLL_H0_def)

lemma recover_ready_accepts:
  assumes ready: "offline_ready live a" and flags: "\<not> firmware_boundary_invalid a" "\<not> rmemory_map_invalid a"
  shows "\<exists>ch. recover (firmware_platform dbg B S) a = (Accept (act_root (active a)), a\<lparr>tropic := ch\<rparr>) \<and>
    live ch = live (tropic a)"
proof -
  let ?P = "firmware_platform dbg B S"
  obtain ch where li: "live_index ?P a = (Inr (act_u (active a)), a\<lparr>tropic := ch\<rparr>)" "live ch = live (tropic a)"
    using app.live_index_answers [of a "act_u (active a)"] ready by (auto simp: offline_ready_def)
  obtain ch' where "counter_get (chip_tropic S) ch = (Inr (live ch), ch')"
    using chip.get_answers [of ch] by (metis prod.collapse)
  moreover from this have "live ch' = live ch" using chip.get_frame [of ch] by simp
  ultimately show ?thesis
    using li ready flags
    by (intro exI [of _ ch']) (simp add: recover_def recover_ready_def offline_ready_def)
qed

lemma boot_recover_result:
  "\<exists>s'. boot_recover dbg B S s = (Accept GENESIS, appliance_new s' ENROLL_H0 GENESIS ANCHOR MD_SLOT) \<and>
    live s' = ENROLL_H0"
proof -
  obtain s' where b: "boot_appliance S s = appliance_new s' ENROLL_H0 GENESIS ANCHOR MD_SLOT" "live s' = ENROLL_H0"
    using boot_result [of s] by blast
  have "\<not> firmware_boundary_invalid (boot_appliance S s)" "\<not> rmemory_map_invalid (boot_appliance S s)"
    by (simp_all add: b appliance_new_def)
  from recover_ready_accepts [OF boot_ready(1) this, of dbg B] b show ?thesis
    by (auto simp: boot_recover_def appliance_new_def)
qed

end

text \<open>
  Every boot starts over. On an answering chip, whatever the session's state, the served
  appliance comes up accepted at the genesis root with index 0, and the chip's counter is back at
  the enrollment value: enrollment runs at every boot and initialises the counter again.
\<close>

lemma boot_starts_over:
  assumes "reliable_session S live"
  shows "\<exists>a. boot_recover dbg B S s = (Accept GENESIS, a) \<and> active a =
      \<lparr> act_root = GENESIS, act_u = 0, act_status = Ready, act_record = REmpty \<rparr> \<and>
    h0 a = ENROLL_H0 \<and> live (tropic a) = ENROLL_H0"
  using reliable_session.boot_recover_result [OF assms, of dbg B s] by (auto simp: appliance_new_def)

lemma boot_starts_over_witness:
  "\<exists>a. boot_recover True sample_blake3 (mock_session (mock_mac sample_blake3))
      \<lparr> mock_h = 3, mock_secret = fill32 0xC0 \<rparr> = (Accept GENESIS, a) \<and> mock_h (tropic a) = 1000"
  using boot_starts_over [OF mock_sess.reliable_session_axioms, of True sample_blake3 "mock_mac sample_blake3"
      "\<lparr> mock_h = 3, mock_secret = fill32 0xC0 \<rparr>"]
  by (auto simp: ENROLL_H0_def)

text \<open>
  C32: a reboot forks the chain. Take any two transitions from the genesis root at index 0. The
  appliance can release the first, be booted again, and release the second over the very same
  chip: two releases with the same parent root and successor index, against the guarantee that
  holds between boots. The firmware is meant to keep its active record and not to enroll twice.
\<close>

theorem reboot_forks:
  fixes S :: "'s session" and dbg :: bool and B :: blake3
  assumes rs: "reliable_session S live"
    and t: "prev_root t = GENESIS" "anchor_counter t = 0" "next_anchor_counter t = 1" "enc_fits t"
    and t': "prev_root t' = GENESIS" "anchor_counter t' = 0" "next_anchor_counter t' = 1" "enc_fits t'"
  defines "P \<equiv> firmware_platform dbg B S"
  shows "\<exists>a1 a2 rel b1 b2 rel'.
    prepare P t rc (boot_appliance S s) = (Done (), a1) \<and> commit P a1 = (Done (), a2) \<and>
    emit a2 = Inr rel \<and> rel_transition rel = t \<and>
    prepare P t' rc' (boot_appliance S (tropic a2)) = (Done (), b1) \<and> commit P b1 = (Done (), b2) \<and>
    emit b2 = Inr rel' \<and> rel_transition rel' = t'"
proof -
  have ra: "reliable_appliance P live"
    unfolding P_def by (rule reliable_session.firmware_appliance [OF rs])
  have adv: "advances t (boot_appliance S s)" "advances t' (boot_appliance S s)" for s
    using t t' by (simp_all add: advances_def reliable_session.boot_ready [OF rs])
  obtain a1 a2 rel where a: "prepare P t rc (boot_appliance S s) = (Done (), a1)" "commit P a1 = (Done (), a2)"
    "emit a2 = Inr rel" "rel_transition rel = t"
    using reliable_appliance.root_advance [OF ra reliable_session.boot_ready(1) [OF rs] adv(1)] t(4) by metis
  obtain b1 b2 rel' where b: "prepare P t' rc' (boot_appliance S (tropic a2)) = (Done (), b1)"
    "commit P b1 = (Done (), b2)" "emit b2 = Inr rel'" "rel_transition rel' = t'"
    using reliable_appliance.root_advance [OF ra reliable_session.boot_ready(1) [OF rs] adv(2)] t'(4) by metis
  from a b show ?thesis by blast
qed

text \<open>The transition of the self-test's prepare request.\<close>

definition self_transition :: transition where
  "self_transition =
     \<lparr> relationship_id = T_REL, object_id = T_OBJ, sender_device_id = T_SND,
       recipient_device_id = T_RCV, prev_root = GENESIS, next_root = NEXT_ROOT,
       anchor_counter = 0, next_anchor_counter = 1, action_type = 0, action_fields = T_AF,
       payload_hash = T_PAY, old_leaf_proof = LEAF_OLD, new_leaf_proof = LEAF_NEW,
       authority_policy_hash = POLICY \<rparr>"

lemma self_transition_fits: "transition_fits self_transition" "enc_fits self_transition"
proof -
  show "transition_fits self_transition"
    by (simp add: transition_fits_def self_transition_def T_AF_def LEAF_OLD_def LEAF_NEW_def wire_bounds)
  then show "enc_fits self_transition" by (rule transition_fits_enc)
qed

lemma prepare_request_eq:
  "prepare_request = \<lparr> rq_op = op_number OpPrepare, rq_transition = Some (transition_to_pb self_transition),
     rq_receiver_challenge = bytes_of RCHAL \<rparr>"
  by (simp add: prepare_request_def transition_to_pb_def self_transition_def)

theorem reboot_forks_witness:
  "\<exists>a1 a2 rel b1 b2 rel'.
    prepare (firmware_platform True sample_blake3 (mock_session (mock_mac sample_blake3))) self_transition RCHAL
      (boot_appliance (mock_session (mock_mac sample_blake3)) \<lparr> mock_h = 3, mock_secret = fill32 0xC0 \<rparr>)
      = (Done (), a1) \<and>
    commit (firmware_platform True sample_blake3 (mock_session (mock_mac sample_blake3))) a1 = (Done (), a2) \<and>
    emit a2 = Inr rel \<and> emit b2 = Inr rel' \<and>
    commit (firmware_platform True sample_blake3 (mock_session (mock_mac sample_blake3))) b1 = (Done (), b2) \<and>
    next_root (rel_transition rel) = NEXT_ROOT \<and> next_root (rel_transition rel') = fill32 0x77"
proof -
  let ?t' = "self_transition\<lparr>next_root := fill32 0x77\<rparr>"
  have "enc_fits ?t'" using self_transition_fits(2) by (simp add: enc_fits_def)
  then show ?thesis
    using reboot_forks [OF mock_sess.reliable_session_axioms, of self_transition ?t' True sample_blake3
        "mock_mac sample_blake3" RCHAL "\<lparr> mock_h = 3, mock_secret = fill32 0xC0 \<rparr>" RCHAL]
      self_transition_fits(2)
    by (force simp: self_transition_def)
qed

end
