(* ===== verification/Boot.thy ===== *)
theory Boot
  imports Serve Firmware_Properties
begin

text \<open>
  \<open>main\<close> of \<open>firmware/src/main.rs\<close>, from reset to the call of \<open>serve_forever\<close>: the set-up of the
  hardware around the ephemeral key, the probe of the link, the session, the self-test with its
  report, the second enrollment and the recovery.
\<close>

unbundle bit_operations_syntax

section \<open>The ephemeral key\<close>

text \<open>\<open>b = (b << 1) | bit\<close>, for each bit read.\<close>

fun random_bits :: "('u, 's, 'x) board_scheme \<Rightarrow> nat \<Rightarrow> byte \<Rightarrow> 'u \<Rightarrow> byte \<times> 'u" where
  "random_bits D 0 b u = (b, u)"
| "random_bits D (Suc n) b u =
     (case bd_random_bit D u of
        (x, u) \<Rightarrow> random_bits D n (push_bit 1 b OR (if x then 1 else 0)) u)"

fun random_fill :: "('u, 's, 'x) board_scheme \<Rightarrow> nat \<Rightarrow> 'u \<Rightarrow> byte list \<times> 'u" where
  "random_fill D 0 u = ([], u)"
| "random_fill D (Suc n) u =
     (case random_bits D 8 0 u of
        (b, u) \<Rightarrow> (case random_fill D n u of (bs, u) \<Rightarrow> (b # bs, u)))"

definition ephemeral_key :: "('u, 's, 'x) board_scheme \<Rightarrow> 'u \<Rightarrow> bytes32 \<times> 'u" where
  "ephemeral_key D u = (case random_fill D 32 u of (bs, u) \<Rightarrow> (to_bytes32 bs, u))"

section \<open>Loops that watch the clock\<close>

text \<open>
  The loops of phases 1 and 4: until the deadline, poll, and once every so many milliseconds
  perform an action. \<open>None\<close> is a loop that never ends.
\<close>

partial_function (option) timed_loop ::
    "('u, 's, 'x) board_scheme \<Rightarrow> u64 \<Rightarrow> ('u \<Rightarrow> 'u) \<Rightarrow> u64 \<Rightarrow> u64 \<Rightarrow> 'u \<Rightarrow> 'u option" where
  "timed_loop D period act until prev u =
     (case bd_ticks D u of
        (t, u) \<Rightarrow>
          if t < until then
            (case bd_ticks D (pt_poll D u) of
               (now, u) \<Rightarrow>
                 if period \<le> bd_millis D now prev then
                   (case bd_ticks D u of
                      (t', u) \<Rightarrow> timed_loop D period act until t' (act u))
                 else timed_loop D period act until prev u)
          else Some u)"

text \<open>\<open>u64\<close> addition: \<open>None\<close> for the panic of a debug build.\<close>

definition probe_link :: "bool \<Rightarrow> ('u, 's, 'x) board_scheme \<Rightarrow> 'u \<Rightarrow> 'u option" where
  "probe_link dbg D u =
     (case bd_ticks D u of
        (t, u) \<Rightarrow>
          (case plus_u64 dbg t 3000000 of
             None \<Rightarrow> None
           | Some until \<Rightarrow>
               (case bd_ticks D u of
                  (prev, u) \<Rightarrow>
                    timed_loop D 1000 (\<lambda>u. pt_flush D (bd_spi_transfer D [0xAA, 0, 0, 0] u)) until prev u)))"

section \<open>Texts\<close>

definition ascii :: "string \<Rightarrow> byte list" where
  "ascii s = map of_char s"

definition crlf :: "byte list" where
  "crlf = [13, 10]"

text \<open>What \<open>Display\<close> writes for an unsigned integer and a truth value.\<close>

fun decimal :: "nat \<Rightarrow> byte list" where
  "decimal n = (if n < 10 then [of_nat (48 + n)] else decimal (n div 10) @ [of_nat (48 + n mod 10)])"

declare decimal.simps [simp del]

definition bool_text :: "bool \<Rightarrow> byte list" where
  "bool_text b = ascii (if b then ''true'' else ''false'')"

section \<open>Phases 2 and 3: chip id and session\<close>

definition link_phase :: "bool \<Rightarrow> ('u, 's, 'x) board_scheme \<Rightarrow> 'u \<Rightarrow> 'u option" where
  "link_phase dbg D u =
     (case probe_link dbg D u of
        None \<Rightarrow> None
      | Some u \<Rightarrow>
          (case bd_chip_id D (pt_poll D u) of
             (ok, u) \<Rightarrow>
               (let u = put D (ascii ''[T1] chip id: '') u;
                    u = put D (ascii (if ok then ''OK'' else ''FAIL'') @ crlf) u;
                    u = pt_poll D (pt_flush D u);
                    u = put D (ascii ''[T2] handshake (PROD0, slot 0)...'' @ crlf) u
                in Some (pt_poll D (pt_flush D u)))))"

text \<open>After a failed handshake: report it every two seconds, forever.\<close>

partial_function (option) wait_loop :: "('u, 's, 'x) board_scheme \<Rightarrow> u64 \<Rightarrow> 'u \<Rightarrow> 'u option" where
  "wait_loop D since u =
     (case bd_ticks D u of
        (now, u) \<Rightarrow>
          if bd_millis D now since < 2000 then wait_loop D since (pt_poll D u) else Some u)"

partial_function (option) session_failed :: "('u, 's, 'x) board_scheme \<Rightarrow> 'u \<Rightarrow> ('s \<times> 'u) option" where
  "session_failed D u =
     (case bd_ticks D (pt_flush D (put D (ascii ''[T2] session FAIL'' @ crlf) (pt_poll D u))) of
        (since, u) \<Rightarrow>
          (case wait_loop D since u of
             None \<Rightarrow> None
           | Some u \<Rightarrow> session_failed D u))"

definition session_phase :: "('u, 's, 'x) board_scheme \<Rightarrow> bytes32 \<Rightarrow> 'u \<Rightarrow> ('s \<times> 'u) option" where
  "session_phase D eh u =
     (case bd_session_start D eh 0 u of
        (None, u) \<Rightarrow> session_failed D u
      | (Some s, u) \<Rightarrow> Some (s, pt_flush D (put D (ascii ''[T2] session=OK'' @ crlf) u)))"

section \<open>Phase 4: the self-test and its report\<close>

definition self_test_outcome ::
    "prost \<Rightarrow> bool \<Rightarrow> blake3 \<Rightarrow> 's session \<Rightarrow> 's \<Rightarrow> ((string + self_test_result) \<times> 's) option" where
  "self_test_outcome X dbg B S s =
     (case enroll S s of
        (Inl e, s) \<Rightarrow> Some (Inl e, s)
      | (Inr hv, s) \<Rightarrow>
          (case self_test X dbg B S (appliance_new s hv GENESIS ANCHOR MD_SLOT) of
             (Done r, a) \<Rightarrow> Some (Inr r, tropic a)
           | (Fail e, a) \<Rightarrow> Some (Inl e, tropic a)
           | (Panic, a) \<Rightarrow> None))"

text \<open>The pieces that the two \<open>write!\<close> calls hand to \<open>write_str\<close>.\<close>

definition report_pieces :: "string + self_test_result \<Rightarrow> byte list list" where
  "report_pieces st =
     (case st of
        Inr r \<Rightarrow>
          [ascii ''[T5] '', ascii (if self_test_pass r then ''PASS'' else ''FAIL''),
           ascii ''  ops_ok='', bool_text (t_ops_ok r),
           ascii '' pk='', decimal (t_pk_len r),
           ascii ''B sig='', decimal (t_sig_len r),
           ascii ''B status(idx='', decimal (unat (t_st_index r)),
           ascii '',st='', decimal (unat (t_st_status r)),
           ascii '') verify='', ascii (if t_verify_ok r then ''accepted'' else ''REJECTED''),
           ascii ''('', ascii (if t_frontier_match r then ''root ok'' else ''root MISMATCH''),
           ascii '')'' @ crlf]
      | Inl e \<Rightarrow> [ascii ''[T5] FAIL at step: '', ascii e, crlf])"

definition report_text :: "string + self_test_result \<Rightarrow> byte list" where
  "report_text st = bw_text (fold write_str (report_pieces st) \<lparr> bw_buf = replicate 224 0, bw_len = 0 \<rparr>)"

text \<open>The report is offered at once and then every two seconds for four seconds.\<close>

definition report_loop :: "bool \<Rightarrow> ('u, 's, 'x) board_scheme \<Rightarrow> byte list \<Rightarrow> 'u \<Rightarrow> 'u option" where
  "report_loop dbg D msg u =
     (case bd_ticks D u of
        (t, u) \<Rightarrow>
          (case plus_u64 dbg t 4000000 of
             None \<Rightarrow> None
           | Some until \<Rightarrow>
               (case bd_ticks D u of
                  (prev, u) \<Rightarrow>
                    timed_loop D 2000 (\<lambda>u. pt_flush D (put D msg u)) until prev
                      (pt_flush D (put D msg u)))))"

definition self_test_phase ::
    "prost \<Rightarrow> bool \<Rightarrow> blake3 \<Rightarrow> 's session \<Rightarrow> ('u, 's, 'x) board_scheme \<Rightarrow> 's \<Rightarrow> 'u \<Rightarrow> ('s \<times> 'u) option" where
  "self_test_phase X dbg B S D s u =
     (let u = put D (ascii ''[T5] self-test (root-advance protocol, secure-core seam)...'' @ crlf) u;
          u = pt_poll D (pt_flush D u)
      in case self_test_outcome X dbg B S s of
           None \<Rightarrow> None
         | Some (st, s) \<Rightarrow>
             (case report_loop dbg D (report_text st) u of
                None \<Rightarrow> None
              | Some u \<Rightarrow> Some (s, u)))"

section \<open>Phase 5: recovery and service\<close>

fun recover_text :: "recover_outcome \<Rightarrow> byte list" where
  "recover_text (Accept _) = ascii ''[T6] recover: Accept (ready)'' @ crlf"
| "recover_text (ReemitCommitted _) = ascii ''[T6] recover: ReemitCommitted'' @ crlf"
| "recover_text DowngradeOnline = ascii ''[T6] recover: DowngradeOnline'' @ crlf"
| "recover_text FailClosed = ascii ''[T6] recover: FailClosed'' @ crlf"
| "recover_text ExhaustedOnlineOnly = ascii ''[T6] recover: ExhaustedOnlineOnly'' @ crlf"
| "recover_text AcceptPreparedCanComplete = ascii ''[T6] recover: PreparedCanComplete'' @ crlf"
| "recover_text OnlineCancelOrResolve = ascii ''[T6] recover: OnlineCancelOrResolve'' @ crlf"

definition service_phase ::
    "bool \<Rightarrow> blake3 \<Rightarrow> 's session \<Rightarrow> ('u, 's, 'x) board_scheme \<Rightarrow> 's \<Rightarrow> 'u \<Rightarrow>
     recover_outcome \<times> 's appliance \<times> 'u" where
  "service_phase dbg B S D s u =
     (let u = pt_flush D (put D (ascii
            ''[T6] serving root-advance appliance over USB-CDC (LE32-len-prefixed protobuf)'' @ crlf) u)
      in case boot_recover dbg B S s of
           (rec, a) \<Rightarrow> (rec, a, pt_flush D (put D (recover_text rec) u)))"

text \<open>
  \<open>main\<close>, up to the call of \<open>serve_forever\<close>: the outcome of the recovery, the appliance and the state
  of the board. \<open>None\<close> is a device that never gets there.
\<close>

definition boot_main ::
    "prost \<Rightarrow> bool \<Rightarrow> blake3 \<Rightarrow> 's session \<Rightarrow> ('u, 's, 'x) board_scheme \<Rightarrow> 'u \<Rightarrow>
     (recover_outcome \<times> 's appliance \<times> 'u) option" where
  "boot_main X dbg B S D u =
     (case run_setup (bd_hal D) early_setup u of
        None \<Rightarrow> None
      | Some u \<Rightarrow>
          (case ephemeral_key D u of
             (eh, u) \<Rightarrow>
               (case run_setup (bd_hal D) late_setup u of
                  None \<Rightarrow> None
                | Some u \<Rightarrow>
                    (case link_phase dbg D u of
                       None \<Rightarrow> None
                     | Some u \<Rightarrow>
                         (case session_phase D eh u of
                            None \<Rightarrow> None
                          | Some (s, u) \<Rightarrow>
                              (case self_test_phase X dbg B S D s u of
                                 None \<Rightarrow> None
                               | Some (s, u) \<Rightarrow> Some (service_phase dbg B S D s u)))))))"

end
