(* ===== verification/Self_Test.thy ===== *)
theory Self_Test
  imports Firmware_Properties
begin

text \<open>
  The firmware's self-test: over an answering chip and a faithful message codec it completes the
  transfer through the frame interface and reports PASS.
\<close>

section \<open>Round trips\<close>

text \<open>The requests of the self-test, and what prost promises for them and for every response.\<close>

definition self_requests :: "pb_request list" where
  "self_requests = [prepare_request, plain_request OpCommit, plain_request OpEmit,
     plain_request OpFinalize, plain_request OpStatus]"

definition carries_self_test :: "prost \<Rightarrow> bool" where
  "carries_self_test X \<longleftrightarrow>
     (\<forall>req\<in>set self_requests. px_decode_request X (px_encode_request X req) = Some req \<and>
        length (px_encode_request X req) \<le> MAX_FRAME_LEN) \<and>
     (\<forall>resp. px_decode_response X (px_encode_response X resp) = Some resp)"

lemma rt_dispatch:
  assumes "carries_self_test X" and "req \<in> set self_requests"
    and "dispatch P req a = (Some resp, a')"
  shows "rt X P req a = (Done resp, a')"
  using assms
  by (simp add: carries_self_test_def rt_def handle_def decode_request_def encode_request_def
      encode_response_def decode_response_def) fastforce

section \<open>The run\<close>

context reliable_session
begin

lemma advance_dispatched:
  assumes ready: "offline_ready live a" and adv: "advances self_transition a" and l: "live (tropic a) = ENROLL_H0"
  obtains a1 a2 rel a3 where
      "prepare (firmware_platform dbg B S) self_transition RCHAL a = (Done (), a1)"
    and "commit (firmware_platform dbg B S) a1 = (Done (), a2)" and "emit a2 = Inr rel"
    and "act_status (active a1) = Prepared" and "act_root (active a3) = NEXT_ROOT"
    and "act_u (active a3) = 1" and "act_status (active a3) = Ready" and "unat (live (tropic a3)) = 999"
    and "dispatch (firmware_platform dbg B S) prepare_request a = (Some (ok_response (op_number OpPrepare)), a1)"
    and "dispatch (firmware_platform dbg B S) (plain_request OpCommit) a1 =
      (Some (ok_response (op_number OpCommit)), a2)"
    and "dispatch (firmware_platform dbg B S) (plain_request OpEmit) a2 = (Some ((base_response (op_number OpEmit))
      \<lparr>rs_ok := True, rs_release := Some (release_to_pb rel)\<rparr>), a2)"
    and "dispatch (firmware_platform dbg B S) (plain_request OpFinalize) a2 = (Some ((base_response (op_number OpFinalize))
      \<lparr>rs_ok := True, rs_active_root := bytes_of NEXT_ROOT\<rparr>), a3)"
proof -
  let ?P = "firmware_platform dbg B S" and ?t = self_transition
  obtain a1 a2 rel a3 where run: "prepare ?P ?t RCHAL a = (Done (), a1)" "commit ?P a1 = (Done (), a2)"
      "emit a2 = Inr rel" "finalize ?P a2 = (Inr (next_root ?t), a3)"
      "act_root (active a3) = next_root ?t" "act_u (active a3) = next_anchor_counter ?t"
      "Suc (unat (live (tropic a3))) = unat (live (tropic a))"
      "live (tropic a3) \<noteq> 0 \<longrightarrow> offline_ready live a3"
    using app.root_advance [OF ready adv, where dbg = dbg and B = B and rc = RCHAL] self_transition_fits(2)
    by metis
  have l3: "unat (live (tropic a3)) = 999" using run(7) l by (simp add: ENROLL_H0_def)
  then have "live (tropic a3) \<noteq> 0" by auto
  with run(8) have st: "act_status (active a3) = Ready" by (simp add: offline_ready_def)
  have st1: "act_status (active a1) = Prepared" by (rule prepare_DoneE [OF run(1)]) simp
  have t: "next_root ?t = NEXT_ROOT" "next_anchor_counter ?t = 1" by (simp_all add: self_transition_def)
  show thesis
    using run(5,6) transition_wire.roundtrip [OF self_transition_fits(1)]
    by (intro that [OF run(1-3) st1 _ _ st l3];
        simp add: run(1-4) dispatch_def dispatch_prepare_def prepare_request_eq plain_request_def reply_def Let_def t)
qed

text \<open>The answer to a status request.\<close>

definition status_response :: "'c appliance \<Rightarrow> pb_response" where
  "status_response a =
     (base_response (op_number OpStatus))\<lparr>rs_ok := True, rs_active_root := bytes_of (act_root (active a)),
        rs_active_index := act_u (active a), rs_status := status_code (act_status (active a))\<rparr>"

lemma status_dispatched: "dispatch P (plain_request OpStatus) a = (Some (status_response a), a)"
  by (simp add: dispatch_def plain_request_def status_response_def Let_def)

lemma self_test_run:
  assumes X: "carries_self_test X"
  shows "\<exists>r a. self_test X dbg B S (boot_appliance S s) = (Done r, a) \<and> self_test_pass r"
proof -
  let ?P = "firmware_platform dbg B S" and ?a = "boot_appliance S s" and ?t = self_transition
  note ready = boot_ready [of s]
  have adv: "advances ?t ?a" by (simp add: advances_def ready self_transition_def)
  have live0: "live (tropic ?a) = ENROLL_H0" using boot_result [of s] by (auto simp: appliance_new_def)
  obtain a1 a2 rel a3 where run: "prepare ?P ?t RCHAL ?a = (Done (), a1)" "commit ?P a1 = (Done (), a2)"
      "emit a2 = Inr rel"
    and a3: "act_root (active a3) = NEXT_ROOT" "act_u (active a3) = 1" "act_status (active a3) = Ready"
    and d: "dispatch ?P prepare_request ?a = (Some (ok_response (op_number OpPrepare)), a1)"
      "dispatch ?P (plain_request OpCommit) a1 = (Some (ok_response (op_number OpCommit)), a2)"
      "dispatch ?P (plain_request OpEmit) a2 = (Some ((base_response (op_number OpEmit))
         \<lparr>rs_ok := True, rs_release := Some (release_to_pb rel)\<rparr>), a2)"
      "dispatch ?P (plain_request OpFinalize) a2 = (Some ((base_response (op_number OpFinalize))
         \<lparr>rs_ok := True, rs_active_root := bytes_of NEXT_ROOT\<rparr>), a3)"
    by (rule advance_dispatched [OF ready(1) adv live0])
  obtain w sigma hv where e: "emit a2 = Inr (commit_release ?a (prepared_for ?P ?a ?t RCHAL w) sigma hv)"
    and sign: "ws_sign (pf_sig ?P) (p_sk_hw (prepared_for ?P ?a ?t RCHAL w))
       (p_cert_message (prepared_for ?P ?a ?t RCHAL w)) = Some sigma"
    and hv: "hv = live (tropic ?a)"
    by (rule app.prepare_commit_release [OF run(1,2)])
  let ?p = "prepared_for ?P ?a ?t RCHAL w"
  have rel: "rel = commit_release ?a ?p sigma hv" using e run(3) by simp
  have pk: "length (p_pk_hw ?p) = 32"
    using prepared_for_keys [of ?P ?a ?t RCHAL w] by (auto simp: wots_keygen_lengths)
  have sig: "length sigma = 2144" using sign wots_sign_length by simp
  have fits: "release_fits rel"
    using self_transition_fits(1) pk sig
    by (simp add: rel release_fits_def commit_release_def cert_fits_def evidence_fits_def wire_bounds)
  have expects: "receiver_expects trivial_dsm self_counter self_test_ctx (rel\<lparr>rel_counter := rel_counter rel\<rparr>)"
    by (simp add: receiver_expects_def rel commit_release_def prepared_for_def Let_def trivial_dsm_def
        self_counter_def self_test_ctx_def self_transition_def ready hv live0 ENROLL_H0_def)
  have "accept_offline dbg B (wots_blake3 B) trivial_dsm self_counter
      (rel\<lparr>rel_counter := rel_counter rel\<rparr>) self_test_ctx = Done ()"
    using assembled_release_accepted [OF _ sign _ _ _ expects, where ev = "rel_counter rel" and hv = hv]
      self_transition_fits(2)
    by (simp add: wots.witness_scheme_axioms rel) (simp add: self_transition_def)
  then have acc: "accept_offline dbg B (wots_blake3 B) trivial_dsm self_counter rel self_test_ctx = Done ()"
    by simp
  have mem: "prepare_request \<in> set self_requests" "plain_request OpCommit \<in> set self_requests"
      "plain_request OpEmit \<in> set self_requests" "plain_request OpFinalize \<in> set self_requests"
      "plain_request OpStatus \<in> set self_requests"
    by (simp_all add: self_requests_def)
  note rts = rt_dispatch [OF X mem(1) d(1)] rt_dispatch [OF X mem(2) d(2)] rt_dispatch [OF X mem(3) d(3)]
    rt_dispatch [OF X mem(4) d(4)] rt_dispatch [OF X mem(5) status_dispatched]
  have verify: "self_verify dbg B (Some (release_to_pb rel)) = Done True"
    by (simp add: self_verify_def release_wire.roundtrip [OF fits] acc)
  have cert: "or_cert (release_to_pb rel) = Some (cert_to_pb (rel_cert rel))"
    by (simp add: release_to_pb_def)
  have lens: "length (rc_pk_hw (cert_to_pb (rel_cert rel))) = 32"
      "length (rc_sigma (cert_to_pb (rel_cert rel))) = 2144"
    using pk sig by (simp_all add: cert_to_pb_def rel commit_release_def)
  show ?thesis
    by (simp add: self_test_def rts rt_then_def verify cert lens self_test_pass_def status_response_def a3
        status_code_def)
qed

end

end
