(* ===== verification/Serve_Properties.thy ===== *)
theory Serve_Properties
  imports Serve Service_Properties
begin

text \<open>
  The appliance behind USB: what the host gets back for the bytes it sends, that the device never
  stops answering a host that keeps reading, and what happens when the host stops.
\<close>

section \<open>A board for closed examples\<close>

text \<open>
  A clock that ticks at every reading, a host that has sent the packets of the list and takes up to
  64 bytes at a time, and a handshake that gives the stand-in chip.
\<close>

type_synonym packets = "nat \<times> byte list list \<times> byte list \<times> byte list"

definition packet_board :: "(packets, mock_tropic) board" where
  "packet_board =
     \<lparr> pt_poll = (\<lambda>u. u),
       pt_write = (\<lambda>data (c, ps, s, g). (Wrote (min 64 (length data)), (c, ps, s @ take 64 data, g))),
       pt_read = (\<lambda>n (c, ps, s, g).
         case ps of [] \<Rightarrow> (None, (c, [], s, g)) | p # ps \<Rightarrow> (Some (take n p), (c, ps, s, g @ take n p))),
       pt_flush = (\<lambda>u. u),
       bd_hal = (\<lambda>_ u. (True, u)),
       bd_ticks = (\<lambda>(c, v). (of_nat (min c 18446744073709551615), (Suc c, v))),
       bd_millis = (\<lambda>now since. (now - since) div 1000),
       bd_random_bit = (\<lambda>(c, v). (odd c, (Suc c, v))),
       bd_spi_transfer = (\<lambda>_ u. u),
       bd_chip_id = (\<lambda>u. (True, u)),
       bd_session_start = (\<lambda>_ _ u. (Some \<lparr> mock_h = 3, mock_secret = fill32 0xC0 \<rparr>, u)) \<rparr>"

abbreviation host_got :: "packets \<Rightarrow> byte list" where
  "host_got \<equiv> fst \<circ> snd \<circ> snd"

abbreviation host_sent :: "packets \<Rightarrow> byte list" where
  "host_sent \<equiv> snd \<circ> snd \<circ> snd"

lemma packet_board_ok: "usb_port packet_board host_got host_sent"
  by (auto simp: usb_port_def packet_board_def min_def split: list.split)

lemma packet_board_never_fails: "never_fails packet_board"
  by (simp add: never_fails_def packet_board_def)

lemma packet_board_drains: "host_drains packet_board"
  by (auto simp: host_drains_def attempt_def packet_board_def intro: exI [of _ 0])

text \<open>On this board the loop is \<open>serve_reads\<close> of the packets.\<close>

lemma packet_write: "write_all packet_board data k (c, ps, s, g) = Some (c, ps, s @ drop k data, g)"
proof (induction "length data - k" arbitrary: k s rule: less_induct)
  case less
  show ?case
  proof (cases "k < length data")
    case False
    then show ?thesis by (subst write_all_step) simp
  next
    case True
    let ?n = "min 64 (length (drop k data))"
    have "attempt packet_board (drop k data) (c, ps, s, g) = (Wrote ?n, (c, ps, s @ take 64 (drop k data), g))"
      by (simp add: attempt_def packet_board_def)
    then have "write_all packet_board data k (c, ps, s, g) =
        write_all packet_board data (k + ?n) (c, ps, s @ take 64 (drop k data), g)"
      using True by (subst write_all_step) simp
    also have "\<dots> = Some (c, ps, (s @ take 64 (drop k data)) @ drop (k + ?n) data, g)"
      using True by (intro less.hyps) simp
    also have "drop (k + ?n) data = drop 64 (drop k data)" by (cases "length data \<le> k + 64") (simp_all add: add.commute)
    finally show ?thesis by (simp only: append_assoc append_take_drop_id)
  qed
qed

lemma packet_buffer:
  "serve_buffer X P packet_board rx a (c, ps, s, g) =
     (case drain X P rx a of
        None \<Rightarrow> None
      | Some (out, rx', a') \<Rightarrow> Some (rx', a', (c, ps, s @ concat out, g)))"
proof (induction "length rx" arbitrary: rx a s rule: less_induct)
  case less
  show ?case
  proof (cases "has_frame rx")
    case False
    then show ?thesis by (simp add: serve_buffer_eq drain_eq)
  next
    case True
    then show ?thesis
      by (subst serve_buffer_eq, subst drain_eq)
        (simp add: packet_write less.hyps [OF after_frame_shorter [OF True]] split: option.split prod.split)
  qed
qed

lemma packet_turns:
  assumes "\<forall>p\<in>set ps. length p \<le> 64"
  shows "serve_turns (length ps) X P packet_board (rx, a, (c, ps, s, g)) =
    (case serve_reads X P (map Some ps) rx a of
       None \<Rightarrow> None
     | Some (out, rx', a') \<Rightarrow> Some (rx', a', (c, [], s @ concat out, g @ concat ps)))"
  using assms
proof (induction ps arbitrary: rx a s g)
  case Nil
  then show ?case by simp
next
  case (Cons p ps)
  have "pt_read packet_board 64 (pt_poll packet_board (c, p # ps, s, g)) = (Some p, (c, ps, s, g @ p))"
    using Cons.prems by (simp add: packet_board_def)
  with Cons show ?case
    by (auto simp: serve_turn_def packet_buffer receive_def split: option.split)
qed

text \<open>A stream cut into packets of 64 bytes.\<close>

fun packets_of :: "byte list \<Rightarrow> byte list list" where
  "packets_of [] = []"
| "packets_of (b # bs) = (b # take 63 bs) # packets_of (drop 63 bs)"

lemma packets_of_ok: "concat (packets_of bs) = bs" "\<forall>p\<in>set (packets_of bs). length p \<le> 64"
  by (induction bs rule: packets_of.induct) simp_all

lemma packets_served:
  assumes "\<forall>f\<in>set fs. length f + 63 \<le> MAX_RX_FRAME" and "serve_frames X P fs a = Some (out, a')"
  defines "bytes \<equiv> concat (map framed fs)"
  shows "serve_turns (length (packets_of bytes)) X P packet_board ([], a, (c, packets_of bytes, s, g)) =
    Some ([], a', (c, [], s @ concat out, g @ bytes))"
proof -
  have "serve_reads X P (map Some (packets_of bytes)) [] a = Some (out, [], a')"
    using serve_whole_stream [OF assms(1) packets_of_ok(2), of bytes X P a] assms(2)
    by (simp add: packets_of_ok(1) bytes_def)
  then show ?thesis by (simp add: packet_turns packets_of_ok)
qed

section \<open>Bytes in, bytes out\<close>

text \<open>Delivered frames are answered in order.\<close>

lemma serve_delivered:
  assumes port: "usb_port D sent got" and nf: "never_fails D"
    and frames: "\<forall>f\<in>set fs. length f + 63 \<le> MAX_RX_FRAME"
    and run: "serve_turns n X P D ([], a, u) = Some (rx, a', u')"
    and delivered: "got u' = got u @ concat (map framed fs)"
  shows "rx = [] \<and> (\<exists>out. serve_frames X P fs a = Some (out, a') \<and> sent u' = sent u @ concat out)"
proof -
  obtain chunks out where c: "\<forall>c\<in>set chunks. length c \<le> 64" "got u' = got u @ concat chunks"
    "serve_reads X P (map Some chunks) [] a = Some (out, rx, a')" "sent u' = sent u @ concat out"
    using serve_turns_reads [OF port nf run] by blast
  have "[] @ concat chunks = concat (map framed fs)" using c(2) delivered by simp
  from serve_stream [OF frames c(1) this, of X P a] c(3,4) show ?thesis
    by (cases fs) (auto simp: partial_def split: option.splits)
qed

text \<open>
  C12: the device answers the frames it is sent. Over a driver that never fails, however it cuts the traffic into packets and
  however long its writes are refused, once the bytes it has handed over are the given frames, each
  at least 63 bytes below the receive cap, the bytes it has taken for the host are exactly the
  answers with their length prefixes, in order, the appliance is in the state after those frames
  in order, and nothing is left in the buffer.
\<close>

theorem device_answers_stream:
  assumes "usb_port D sent got" and "never_fails D"
    and "\<forall>f\<in>set fs. length f + 63 \<le> MAX_RX_FRAME"
    and "serve_turns n X P D ([], a, u) = Some (rx, a', u')"
    and "got u' = got u @ concat (map framed fs)"
  shows "rx = [] \<and> (\<exists>out. serve_frames X P fs a = Some (out, a') \<and> sent u' = sent u @ concat out)"
  by (rule serve_delivered [OF assms])

definition refusing_codec :: prost where
  "refusing_codec =
     \<lparr> px_decode_request = (\<lambda>_. None), px_encode_request = (\<lambda>_. []),
       px_decode_response = (\<lambda>_. None), px_encode_response = (\<lambda>r. [ucast (rs_error r)]) \<rparr>"

theorem device_answers_stream_witness:
  "\<exists>a' u'. serve_turns 2 refusing_codec test_platform packet_board
       ([], test_appliance 100, (0, [[2, 0], [0, 0, 7, 8]], [], [])) = Some ([], a', u') \<and>
     host_got u' = [1, 0, 0, 0, 100]"
proof -
  let ?a = "test_appliance 100" and ?ps = "[[2, 0], [0, 0, 7, 8]] :: byte list list"
  have h: "handle refusing_codec test_platform [7, 8] ?a = (Some [100], ?a)"
    by (simp add: handle_def refusing_codec_def decode_request_def encode_response_def
        MAX_FRAME_LEN_def response_defs err_BAD_PROTO_def)
  have le: "framed [7, 8] = [2, 0, 0, 0, 7, 8]" "u32_le 1 = [1, 0, 0, 0]"
    by (simp_all add: framed_def u32_le_def to_le_bytes_def upt_rec)
  have small: "\<forall>f\<in>set [[7, 8 :: byte]]. length f + 63 \<le> MAX_RX_FRAME" by (simp add: MAX_RX_FRAME_def)
  have "serve_reads refusing_codec test_platform (map Some ?ps) [] ?a = Some ([u32_le 1, [100]], [], ?a)"
    using serve_whole_stream [OF small, of ?ps refusing_codec test_platform ?a] h le
    by (simp del: serve_reads.simps)
  then have run: "serve_turns 2 refusing_codec test_platform packet_board ([], ?a, (0, ?ps, [], []))
      = Some ([], ?a, (0, [], [1, 0, 0, 0, 100], [2, 0, 0, 0, 7, 8]))"
    using packet_turns [of ?ps refusing_codec test_platform "[]" ?a 0 "[]" "[]"] le by (simp add: numeral_2_eq_2)
  from device_answers_stream [OF packet_board_ok packet_board_never_fails small run] le run h
  show ?thesis by simp
qed

section \<open>How a write ends\<close>

text \<open>
  C27: a write returns or the host has stopped reading. Over a driver that never accepts zero bytes,
  \<open>write_all\<close> has exactly two ends: it returns, having handed over a prefix of the data, the whole of
  it unless the driver failed; or there is a proper prefix after which every further attempt, of
  however many, is refused. Nothing bounds the attempts, so in the second case the device is
  stuck in the write.
\<close>

theorem write_all_outcome:
  assumes port: "usb_port D sent got" and some: "accepts_some D"
  shows "case write_all D data 0 u of
      Some u' \<Rightarrow> (\<exists>n. sent u' = sent u @ take n data \<and> (never_fails D \<longrightarrow> length data \<le> n))
    | None \<Rightarrow> (\<exists>n v. n < length data \<and> sent v = sent u @ take n data \<and> blocked_for_good D (drop n data) v)"
proof (cases "write_all D data 0 u")
  case None
  from write_all_stuck [OF some None] obtain n v where "n < length data"
    "blocked_for_good D (drop n data) v" "sent v = sent u @ take (n - 0) (drop 0 data)"
    using port by blast
  with None show ?thesis by auto
next
  case (Some u')
  from write_all_sends [OF port Some] Some show ?thesis by auto
qed

theorem write_all_outcome_witness:
  "\<exists>n. case write_all packet_board [1, 2, 3] 0 (0, [], [], []) of
      Some u' \<Rightarrow> host_got u' = take n [1, 2, 3] \<and> 3 \<le> n | None \<Rightarrow> False"
proof -
  have some: "accepts_some packet_board" using packet_board_drains by (simp add: host_drains_iff)
  obtain u' where "write_all packet_board [1, 2, 3] 0 (0, [], [], []) = Some u'"
    using write_all_terminates [OF packet_board_drains] by blast
  with write_all_outcome [OF packet_board_ok some, of "[1, 2, 3]" "(0, [], [], [])"] packet_board_never_fails
  show ?thesis by auto
qed

section \<open>The device keeps serving\<close>

text \<open>A state that frames, power losses, boots and chip changes can lead to.\<close>

definition wire_reached :: "'c platform \<Rightarrow> ('c \<Rightarrow> u32) \<Rightarrow> 'c appliance \<Rightarrow> 'c appliance \<Rightarrow> bool" where
  "wire_reached P live a0 a \<longleftrightarrow> (\<exists>log. (wire_step P live)\<^sup>*\<^sup>* (a0, []) (a, log))"

lemma handle_reached:
  assumes "wire_reached P live a0 a" and h: "handle X P f a = (Some b, a')"
  shows "wire_reached P live a0 a'"
proof -
  obtain log where run: "(wire_step P live)\<^sup>*\<^sup>* (a0, []) (a, log)"
    using assms(1) by (auto simp: wire_reached_def)
  consider "a' = a" | req resp where "dispatch P req a = (Some resp, a')"
    using h by (auto simp: handle_def split: if_splits sum.splits prod.splits)
  then show ?thesis
  proof cases
    case 1
    with assms(1) show ?thesis by simp
  next
    case 2
    from rtranclp_snoc2 [OF run wire_step.serve [OF serve_step.request [OF 2]]]
    show ?thesis unfolding wire_reached_def by blast
  qed
qed

lemma drain_reached:
  assumes wire: "wire_appliance P live" and reached: "wire_reached P live (appliance_new c e g anc q) a"
  shows "\<exists>out rx' a'. drain X P rx a = Some (out, rx', a') \<and>
    wire_reached P live (appliance_new c e g anc q) a'"
  using reached
proof (induction "length rx" arbitrary: rx a rule: less_induct)
  case less
  show ?case
  proof (cases "has_frame rx")
    case False
    with less.prems show ?thesis by (simp add: drain_eq)
  next
    case True
    obtain log where run: "(wire_step P live)\<^sup>*\<^sup>* (appliance_new c e g anc q, []) (a, log)"
      using less.prems by (auto simp: wire_reached_def)
    obtain out A where "represents P live g (a, out) A"
      using wire_appliance.wire_reachable [OF wire run] by blast
    from wire_appliance.handle_no_panic [OF wire this, of X "first_frame rx"]
    obtain resp b where h: "handle X P (first_frame rx) a = (Some resp, b)"
      by (cases "handle X P (first_frame rx) a") auto
    from less.hyps [OF after_frame_shorter [OF True] handle_reached [OF less.prems h]] True h
    show ?thesis by (subst drain_eq) fastforce
  qed
qed

text \<open>
  C17: the device never stops serving a host that reads. In any state the served appliance can be
  in, with any bytes in the receive buffer and any input to come, every number of turns of the
  loop is completed: no write blocks for good and nothing panics.
\<close>

theorem device_keeps_serving:
  assumes wire: "wire_appliance P live" and host: "host_drains D"
    and reached: "wire_reached P live (appliance_new c e g anc q) a"
  shows "\<exists>rx' a' u'. serve_turns n X P D (rx, a, u) = Some (rx', a', u') \<and>
    wire_reached P live (appliance_new c e g anc q) a'"
  using reached
proof (induction n arbitrary: rx a u)
  case 0
  then show ?case by simp
next
  case (Suc n)
  have "\<exists>rx1 a1 u1. serve_turn X P D (rx, a, u) = Some (rx1, a1, u1) \<and>
      wire_reached P live (appliance_new c e g anc q) a1"
  proof (cases "\<exists>chunk v. pt_read D 64 (pt_poll D u) = (Some chunk, v) \<and> chunk \<noteq> []")
    case False
    with Suc.prems show ?thesis
      by (cases "pt_read D 64 (pt_poll D u)") (auto simp: serve_turn_def split: option.split)
  next
    case True
    then obtain chunk v where read: "pt_read D 64 (pt_poll D u) = (Some chunk, v)" "chunk \<noteq> []" by blast
    let ?rx = "if length rx + length chunk > MAX_RX_FRAME + 4 then [] else rx @ chunk"
    obtain out rx1 a1 where d: "drain X P ?rx a = Some (out, rx1, a1)"
      "wire_reached P live (appliance_new c e g anc q) a1"
      using drain_reached [OF wire Suc.prems] by blast
    then obtain s where "serve_buffer X P D ?rx a v = Some s"
      using serve_buffer_returns [OF host, of X P ?rx a v] by auto
    moreover obtain rx2 a2 u2 where "s = (rx2, a2, u2)" by (cases s) auto
    ultimately show ?thesis
      using serve_buffer_drain [of X P D ?rx a v rx2 a2 u2] d read by (auto simp: serve_turn_def)
  qed
  then obtain rx1 a1 u1 where t: "serve_turn X P D (rx, a, u) = Some (rx1, a1, u1)"
    "wire_reached P live (appliance_new c e g anc q) a1" by blast
  from Suc.IH [OF t(2), of rx1 u1] t(1) show ?case by simp
qed

theorem device_keeps_serving_witness:
  "\<forall>X. \<exists>s. serve_turns 1000 X test_platform packet_board
     ([], test_appliance 100, (0, [[5, 0, 0, 0, 1], [2], [3, 4, 5]], [], [])) = Some s"
proof
  fix X
  have "wire_reached test_platform mock_h (test_appliance 100) (test_appliance 100)"
    unfolding wire_reached_def by blast
  from device_keeps_serving [OF mock_wire.wire_appliance_axioms packet_board_drains
      this [unfolded test_appliance_def], of 1000 X "[]" "(0, [[5, 0, 0, 0, 1], [2], [3, 4, 5]], [], [])"]
  show "\<exists>s. serve_turns 1000 X test_platform packet_board
     ([], test_appliance 100, (0, [[5, 0, 0, 0, 1], [2], [3, 4, 5]], [], [])) = Some s"
    unfolding test_appliance_def by blast
qed

section \<open>A transfer over USB\<close>

definition transfer_requests :: "transition \<Rightarrow> bytes32 \<Rightarrow> pb_request list" where
  "transfer_requests t rc =
     [\<lparr> rq_op = op_number OpPrepare, rq_transition = Some (transition_to_pb t),
        rq_receiver_challenge = bytes_of rc \<rparr>,
      op_request OpCommit, op_request OpEmit]"

text \<open>What prost promises for the given requests, and that their frames stay clear of the receive cap.\<close>

definition carries_requests :: "prost \<Rightarrow> pb_request list \<Rightarrow> bool" where
  "carries_requests X reqs \<longleftrightarrow>
     (\<forall>req\<in>set reqs. px_decode_request X (px_encode_request X req) = Some req \<and>
        length (px_encode_request X req) + 63 \<le> MAX_RX_FRAME)"

lemma handle_carried:
  assumes "carries_requests X reqs" and "req \<in> set reqs" and "dispatch P req a = (Some resp, a')"
  shows "handle X P (px_encode_request X req) a = (Some (px_encode_response X resp), a')"
  using assms
  by (auto simp: carries_requests_def handle_def decode_request_def encode_response_def
      MAX_RX_FRAME_def MAX_FRAME_LEN_def)

definition emit_response :: "offline_release \<Rightarrow> pb_response" where
  "emit_response rel =
     (base_response (op_number OpEmit))\<lparr>rs_ok := True, rs_release := Some (release_to_pb rel)\<rparr>"

lemma transfer_handled:
  assumes codec: "carries_requests X (transfer_requests t rc)"
    and r: "prepare P t rc a = (Done (), a1)" "commit P a1 = (Done (), a2)" "emit a2 = Inr rel"
    and fits: "transition_fits t"
  shows "handle X P (px_encode_request X (hd (transfer_requests t rc))) a =
      (Some (px_encode_response X (ok_response (op_number OpPrepare))), a1)"
    and "handle X P (px_encode_request X (op_request OpCommit)) a1 =
      (Some (px_encode_response X (ok_response (op_number OpCommit))), a2)"
    and "handle X P (px_encode_request X (op_request OpEmit)) a2 =
      (Some (px_encode_response X (emit_response rel)), a2)"
  using r transition_wire.roundtrip [OF fits]
  by (intro handle_carried [OF codec]; simp add: transfer_requests_def dispatch_def dispatch_prepare_def
      op_request_def reply_def Let_def emit_response_def)+

text \<open>
  A transfer from an appliance that is ready: what the host gets back for the three requests ends with
  a release that its receiver accepts.
\<close>

lemma usb_transfer:
  assumes ra: "reliable_appliance P live" and scheme: "wire_scheme (pf_sig P)"
    and port: "usb_port D sent got" and nf: "never_fails D"
    and codec: "carries_requests X (transfer_requests t rc)"
    and ready: "offline_ready live a" and adv: "advances t a" and fits: "transition_fits t"
    and run: "serve_turns n X P D ([], a, u) = Some (rx, a', u')"
    and got: "got u' = got u @ concat (map (framed \<circ> px_encode_request X) (transfer_requests t rc))"
    and ctx: "accepted_prev_root ctx = prev_root t" "pinned_anchor_id ctx = anchor_id a"
      "expected_receiver_challenge ctx = rc" "expected_policy_hash ctx = authority_policy_hash t"
      "enrolled_counter ctx = ucast (h0 a)" "next_anchor_counter t \<le> exposure_cap_index ctx"
      "anchor_uncompromised ctx"
    and dsm: "root_commits_counter V (prev_root t) (anchor_counter t)"
      "verify_transition V t" "delivers_to_receiver V t"
    and read: "ev_anchor_id ev = anchor_id a"
      "read_authentic_counter C (anchor_id a) ev = Some (ucast (live (tropic a')))"
  shows "\<exists>r1 r2 r3 msg rel.
    sent u' = sent u @ concat (map (framed \<circ> px_encode_response X) [r1, r2, r3]) \<and>
    rs_ok r1 \<and> rs_ok r2 \<and> rs_ok r3 \<and>
    rs_release r3 = Some msg \<and> to_release msg = Inr rel \<and> rel_transition rel = t \<and>
    accept_offline (pf_debug P) (pf_blake3 P) (pf_sig P) V C (rel\<lparr>rel_counter := ev\<rparr>) ctx = Done ()"
proof -
  have chip: "appliance_chip P live" and ws: "witness_scheme (pf_sig P)"
    using ra by (simp_all add: reliable_appliance_def reliable_appliance_axioms_def)
  obtain a1 a2 rel where r: "prepare P t rc a = (Done (), a1)" "commit P a1 = (Done (), a2)"
    "emit a2 = Inr rel" "rel_transition rel = t"
    using reliable_appliance.root_advance [OF ra ready adv] transition_fits_enc [OF fits] by metis
  let ?q = "hd (transfer_requests t rc)"
  let ?r3 = "emit_response rel"
  note h = transfer_handled [OF codec r(1-3) fits]
  let ?resps = "[ok_response (op_number OpPrepare), ok_response (op_number OpCommit), ?r3]"
  let ?fs = "map (px_encode_request X) (transfer_requests t rc)"
  have fs: "?fs = [px_encode_request X ?q, px_encode_request X (op_request OpCommit),
      px_encode_request X (op_request OpEmit)]"
    by (simp add: transfer_requests_def)
  have "\<forall>f\<in>set ?fs. length f + 63 \<le> MAX_RX_FRAME" using codec by (simp add: carries_requests_def)
  moreover have "got u' = got u @ concat (map framed ?fs)" using got by simp
  ultimately obtain out where out: "serve_frames X P ?fs a = Some (out, a')" "sent u' = sent u @ concat out"
    using serve_delivered [OF port nf _ run] by blast
  have "serve_frames X P ?fs a = Some (concat (map (\<lambda>r. [u32_le (of_nat (length (px_encode_response X r))),
      px_encode_response X r]) ?resps), a2)"
    unfolding fs by (simp add: h)
  with out have "a' = a2" and sent: "sent u' = sent u @ concat (map (framed \<circ> px_encode_response X) ?resps)"
    by (auto simp: framed_def)
  have prev: "prev_root t = act_root (active a)" using adv by (simp add: advances_def)
  have "\<exists>rel'. emit a2 = Inr rel' \<and> rel_transition rel' = t \<and>
      accept_offline (pf_debug P) (pf_blake3 P) (pf_sig P) V C (rel'\<lparr>rel_counter := ev\<rparr>) ctx = Done ()"
    using honest_transfer [OF chip ws r(1,2) _ ctx(2-7) _ dsm(2,3) read(1)] ctx(1) dsm(1) read(2) \<open>a' = a2\<close> prev
    by simp
  then have "accept_offline (pf_debug P) (pf_blake3 P) (pf_sig P) V C (rel\<lparr>rel_counter := ev\<rparr>) ctx = Done ()"
    using r(3) by auto
  moreover have "to_release (release_to_pb rel) = Inr rel"
    by (rule release_wire.roundtrip [OF transfer_release_fits [OF scheme r(1-3) fits]])
  ultimately show ?thesis
    using sent r(4) by (intro exI [of _ "ok_response (op_number OpPrepare)"]
        exI [of _ "ok_response (op_number OpCommit)"] exI [of _ ?r3] exI [of _ "release_to_pb rel"]
        exI [of _ rel]) (simp add: emit_response_def)
qed

end
