(* ===== verification/Boot_Properties.thy ===== *)
theory Boot_Properties
  imports Boot Self_Test Serve_Properties "HOL-Library.While_Combinator"
begin

text \<open>
  From power-on to service: when the firmware gets to serve, what its self-test reports, that the
  report fits its buffer, and that no random bit is lost in the ephemeral key.
\<close>

section \<open>The ephemeral key\<close>

text \<open>The bits that the oscillator delivers, and the state after them.\<close>

fun bits_read :: "('u, 's, 'x) board_scheme \<Rightarrow> nat \<Rightarrow> 'u \<Rightarrow> bool list" where
  "bits_read D 0 u = []"
| "bits_read D (Suc n) u = fst (bd_random_bit D u) # bits_read D n (snd (bd_random_bit D u))"

fun after_bits :: "('u, 's, 'x) board_scheme \<Rightarrow> nat \<Rightarrow> 'u \<Rightarrow> 'u" where
  "after_bits D 0 u = u"
| "after_bits D (Suc n) u = after_bits D n (snd (bd_random_bit D u))"

definition shift_in :: "byte \<Rightarrow> bool \<Rightarrow> byte" where
  "shift_in b x = push_bit 1 b OR (if x then 1 else 0)"

lemma bit_shift_in:
  assumes "i < 8"
  shows "bit (shift_in b x) i \<longleftrightarrow> (if i = 0 then x else bit b (i - 1))"
  unfolding shift_in_def bit_or_iff bit_push_bit_iff using assms by (auto simp: bit_1_iff)

lemma length_bits_read [simp]: "length (bits_read D n u) = n"
  by (induction n arbitrary: u) simp_all

lemma bits_read_add: "bits_read D (m + n) u = bits_read D m u @ bits_read D n (after_bits D m u)"
  by (induction m arbitrary: u) simp_all

lemma random_bits_eq: "random_bits D n b u = (foldl shift_in b (bits_read D n u), after_bits D n u)"
  by (induction n arbitrary: b u) (simp_all add: shift_in_def case_prod_beta)

lemma shift_in_bits:
  assumes "i < 8"
  shows "bit (foldl shift_in b xs) i =
    (if i < length xs then xs ! (length xs - Suc i) else bit b (i - length xs))"
  using assms
proof (induction xs arbitrary: i rule: rev_induct)
  case Nil
  then show ?case by simp
next
  case (snoc x xs)
  show ?case
  proof (cases i)
    case 0
    then show ?thesis by (simp add: bit_shift_in nth_append)
  next
    case (Suc j)
    with snoc show ?thesis by (auto simp: bit_shift_in nth_append)
  qed
qed

lemma shift_in_inject:
  assumes "length xs = 8" and "length ys = 8"
  shows "foldl shift_in 0 xs = foldl shift_in 0 ys \<longleftrightarrow> xs = ys"
proof
  assume eq: "foldl shift_in 0 xs = foldl shift_in 0 ys"
  show "xs = ys"
  proof (rule nth_equalityI)
    show "length xs = length ys" using assms by simp
    fix i
    assume "i < length xs"
    then have "7 - i < 8" "i = 8 - Suc (7 - i)" using assms by simp_all
    with shift_in_bits [of "7 - i" 0 xs] shift_in_bits [of "7 - i" 0 ys] assms eq
    show "xs ! i = ys ! i" by simp
  qed
qed simp

lemma random_fill_inject:
  "fst (random_fill D n u) = fst (random_fill D n v) \<longleftrightarrow> bits_read D (8 * n) u = bits_read D (8 * n) v"
proof (induction n arbitrary: u v)
  case 0
  then show ?case by simp
next
  case (Suc n)
  have bits: "bits_read D (8 * Suc n) w = bits_read D 8 w @ bits_read D (8 * n) (after_bits D 8 w)" for w
    using bits_read_add [of D 8 "8 * n" w] by simp
  have "fst (random_fill D (Suc n) w) =
      foldl shift_in 0 (bits_read D 8 w) # fst (random_fill D n (after_bits D 8 w))" for w
    by (simp add: random_bits_eq split: prod.split)
  then show ?case
    unfolding bits by (simp add: Suc.IH shift_in_inject del: random_fill.simps)
qed

lemma length_random_fill [simp]: "length (fst (random_fill D n u)) = n"
  by (induction n arbitrary: u) (auto split: prod.split simp: case_prod_beta)

text \<open>
  No entropy is lost. The ephemeral key of the handshake is a one-to-one image of the 256 bits
  read from the oscillator: two boots have the same key exactly when they read the same bits.
\<close>

lemma ephemeral_key_injective:
  "fst (ephemeral_key D u) = fst (ephemeral_key D v) \<longleftrightarrow> bits_read D 256 u = bits_read D 256 v"
proof -
  have k: "fst (ephemeral_key D w) = to_bytes32 (fst (random_fill D 32 w))" for w
    by (simp add: ephemeral_key_def split: prod.split)
  have "to_bytes32 xs = to_bytes32 ys \<longleftrightarrow> xs = ys" if "length xs = 32" "length ys = 32" for xs ys
    using that by (metis bytes_of_to_bytes32)
  then show ?thesis
    using random_fill_inject [of D 32 u v] by (simp add: k del: random_fill.simps)
qed

section \<open>The clock\<close>

text \<open>
  A clock that runs: only so many readings below a deadline are left, and no other call of the
  board gives any back.
\<close>

definition clock_runs :: "('u, 's, 'x) board_scheme \<Rightarrow> bool" where
  "clock_runs D \<longleftrightarrow> (\<exists>rest :: u64 \<Rightarrow> 'u \<Rightarrow> nat. \<forall>until u.
     rest until (snd (bd_ticks D u)) \<le> rest until u \<and>
     (fst (bd_ticks D u) < until \<longrightarrow> rest until (snd (bd_ticks D u)) < rest until u) \<and>
     rest until (pt_poll D u) \<le> rest until u \<and> rest until (pt_flush D u) \<le> rest until u \<and>
     (\<forall>data. rest until (snd (pt_write D data u)) \<le> rest until u \<and>
        rest until (bd_spi_transfer D data u) \<le> rest until u))"

lemma clock_runsE:
  assumes "clock_runs D"
  obtains rest :: "u64 \<Rightarrow> 'u \<Rightarrow> nat" where
    "\<And>until u. rest until (snd (bd_ticks D u)) \<le> rest until u"
    and "\<And>until u. fst (bd_ticks D u) < until \<Longrightarrow> rest until (snd (bd_ticks D u)) < rest until u"
    and "\<And>until u. rest until (pt_poll D u) \<le> rest until u"
    and "\<And>until u. rest until (pt_flush D u) \<le> rest until u"
    and "\<And>until u data. rest until (put D data u) \<le> rest until u"
    and "\<And>until u data. rest until (bd_spi_transfer D data u) \<le> rest until u"
  using assms unfolding clock_runs_def put_def by metis

text \<open>
  The loops that watch the clock, as \<open>while\<close> of the library: one round polls and, when the period
  is over, acts; \<open>timed_state\<close> is the board when the deadline has passed.
\<close>

definition timed_round ::
    "('u, 's, 'x) board_scheme \<Rightarrow> u64 \<Rightarrow> ('u \<Rightarrow> 'u) \<Rightarrow> u64 \<times> 'u \<Rightarrow> u64 \<times> 'u" where
  "timed_round D period act s =
     (let polled = bd_ticks D (pt_poll D (snd (bd_ticks D (snd s)))); again = bd_ticks D (snd polled)
      in if period \<le> bd_millis D (fst polled) (fst s) then (fst again, act (snd again))
         else (fst s, snd polled))"

definition timed_state ::
    "('u, 's, 'x) board_scheme \<Rightarrow> u64 \<Rightarrow> ('u \<Rightarrow> 'u) \<Rightarrow> u64 \<Rightarrow> u64 \<times> 'u \<Rightarrow> 'u" where
  "timed_state D period act until s =
     snd (bd_ticks D (snd (while (\<lambda>s. fst (bd_ticks D (snd s)) < until) (timed_round D period act) s)))"

lemma timed_state_unfold:
  "timed_state D period act until s =
     (if fst (bd_ticks D (snd s)) < until then timed_state D period act until (timed_round D period act s)
      else snd (bd_ticks D (snd s)))"
  unfolding timed_state_def by (subst while_unfold) simp

lemma timed_loop_while:
  assumes ticks: "\<And>u. rest (snd (bd_ticks D u)) \<le> rest u"
    and below: "\<And>u. fst (bd_ticks D u) < until \<Longrightarrow> rest (snd (bd_ticks D u)) < rest u"
    and poll: "\<And>u. rest (pt_poll D u) \<le> rest u" and act: "\<And>u. rest (act u) \<le> (rest u :: nat)"
  shows "timed_loop D period act until prev u = Some (timed_state D period act until (prev, u))"
proof (induction "rest u" arbitrary: prev u rule: less_induct)
  case less
  obtain t v where t: "bd_ticks D u = (t, v)" by (metis prod.collapse)
  show ?case
  proof (cases "t < until")
    case False
    with t show ?thesis by (subst timed_loop.simps, subst timed_state_unfold) simp
  next
    case True
    with below [of u] t have lt: "rest v < rest u" by simp
    obtain now w where now: "bd_ticks D (pt_poll D v) = (now, w)" by (metis prod.collapse)
    obtain t' z where t': "bd_ticks D w = (t', z)" by (metis prod.collapse)
    have "rest w \<le> rest v" using ticks [of "pt_poll D v"] poll [of v] now by simp
    moreover have "rest (act z) \<le> rest w" using ticks [of w] act [of z] t' by simp
    ultimately have "rest w < rest u" "rest (act z) < rest u" using lt by simp_all
    from less.hyps [OF this(1), of prev] less.hyps [OF this(2), of t'] show ?thesis
      using t True now t' by (subst timed_loop.simps, subst timed_state_unfold) (simp add: timed_round_def Let_def)
  qed
qed

text \<open>
  A deadline \<open>n\<close> microseconds after the clock shows \<open>t\<close>: with overflow checks it must fit 64 bits;
  without, it wraps around.
\<close>

definition deadline_fits :: "bool \<Rightarrow> u64 \<Rightarrow> nat \<Rightarrow> bool" where
  "deadline_fits dbg t n \<longleftrightarrow> \<not> dbg \<or> unat t + n < 2 ^ 64"

lemma plus_u64_deadline:
  "plus_u64 dbg t 3000000 = (if deadline_fits dbg t 3000000 then Some (t + 3000000) else None)"
  "plus_u64 dbg t 4000000 = (if deadline_fits dbg t 4000000 then Some (t + 4000000) else None)"
  by (auto simp: plus_u64_def checked_add_def deadline_fits_def)

lemma plus_u64_release [simp]: "plus_u64 False a b = Some (a + b)"
  by (simp add: plus_u64_def)

text \<open>The board after the probe of the link, and after the whole link phase.\<close>

definition probed :: "('u, 's, 'x) board_scheme \<Rightarrow> 'u \<Rightarrow> 'u" where
  "probed D u =
     (let start = bd_ticks D u; prev = bd_ticks D (snd start)
      in timed_state D 1000 (\<lambda>u. pt_flush D (bd_spi_transfer D [0xAA, 0, 0, 0] u)) (fst start + 3000000) prev)"

definition linked :: "('u, 's, 'x) board_scheme \<Rightarrow> 'u \<Rightarrow> 'u" where
  "linked D u =
     (let id = bd_chip_id D (pt_poll D (probed D u));
          u = put D (ascii (if fst id then ''OK'' else ''FAIL'') @ crlf) (put D (ascii ''[T1] chip id: '') (snd id));
          u = put D (ascii ''[T2] handshake (PROD0, slot 0)...'' @ crlf) (pt_poll D (pt_flush D u))
      in pt_poll D (pt_flush D u))"

lemma probe_link_eq:
  assumes clock: "clock_runs D"
  shows "probe_link dbg D u = (if deadline_fits dbg (fst (bd_ticks D u)) 3000000 then Some (probed D u) else None)"
proof -
  obtain rest where r: "\<And>until u. rest until (snd (bd_ticks D u)) \<le> rest until u"
    "\<And>until u. fst (bd_ticks D u) < until \<Longrightarrow> rest until (snd (bd_ticks D u)) < rest until u"
    "\<And>until u. rest until (pt_poll D u) \<le> rest until u"
    "\<And>until u. rest until (pt_flush D u) \<le> rest until u"
    "\<And>until u data. rest until (bd_spi_transfer D data u) \<le> (rest until u :: nat)"
    using clock_runsE [OF clock] by metis
  have "rest until (pt_flush D (bd_spi_transfer D [0xAA, 0, 0, 0] w)) \<le> rest until w" for until w
    by (rule order_trans [OF r(4) r(5)])
  note loop = timed_loop_while [of "rest until" D until for until, OF r(1,2,3) this]
  show ?thesis
    by (simp add: probe_link_def plus_u64_deadline loop probed_def Let_def case_prod_beta)
qed

lemma link_phase_eq:
  assumes "clock_runs D"
  shows "link_phase dbg D u = (if deadline_fits dbg (fst (bd_ticks D u)) 3000000 then Some (linked D u) else None)"
  by (simp add: link_phase_def probe_link_eq [OF assms] linked_def Let_def case_prod_beta)

lemma link_phase_ends: "clock_runs D \<Longrightarrow> link_phase False D u = Some (linked D u)"
  by (simp add: link_phase_eq deadline_fits_def)

lemma report_loop_ends_iff:
  assumes clock: "clock_runs D"
  shows "(\<exists>u'. report_loop dbg D msg u = Some u') \<longleftrightarrow> deadline_fits dbg (fst (bd_ticks D u)) 4000000"
proof -
  obtain rest where r: "\<And>until u. rest until (snd (bd_ticks D u)) \<le> rest until u"
    "\<And>until u. fst (bd_ticks D u) < until \<Longrightarrow> rest until (snd (bd_ticks D u)) < rest until u"
    "\<And>until u. rest until (pt_poll D u) \<le> rest until u"
    "\<And>until u. rest until (pt_flush D u) \<le> rest until u"
    "\<And>until u data. rest until (put D data u) \<le> (rest until u :: nat)"
    using clock_runsE [OF clock] by metis
  have "rest until (pt_flush D (put D msg w)) \<le> rest until w" for until w
    by (rule order_trans [OF r(4) r(5)])
  note loop = timed_loop_while [of "rest until" D until for until, OF r(1,2,3) this]
  show ?thesis by (simp add: report_loop_def plus_u64_deadline loop case_prod_beta)
qed

section \<open>A failed handshake\<close>

lemma session_failed_never_returns: "session_failed D u = None"
proof (rule ccontr)
  assume "session_failed D u \<noteq> None"
  then obtain r where ret: "session_failed D u = Some r" by blast
  have "(\<lambda>_ _ _. False) D u r"
    by (rule session_failed.raw_induct [OF _ ret]) (auto split: prod.splits option.splits)
  then show False by simp
qed

section \<open>The self-test does not panic\<close>

lemma rt_then_safe:
  assumes "r \<noteq> Panic" and "safe a" and "\<And>v. safe a \<Longrightarrow> fst (f v a) \<noteq> Panic"
  shows "fst (rt_then (r, a) f) \<noteq> Panic"
  using assms by (cases r) (simp_all add: rt_then_def)

lemma accept_offline_no_panic:
  assumes "enc_fits (rel_transition rel)"
  shows "accept_offline dbg B S V C rel ctx \<noteq> Panic"
proof -
  have "first_failure cs \<noteq> Panic" for cs :: "(bool \<times> accept_error) list"
    by (induction cs rule: first_failure.induct) simp_all
  with assms show ?thesis by (simp add: accept_offline_first_failure)
qed

lemma self_verify_no_panic: "self_verify dbg B relpb \<noteq> Panic"
proof (cases "\<exists>m rel. relpb = Some m \<and> to_release m = Inr rel")
  case True
  then obtain m rel where m: "relpb = Some m" "to_release m = Inr rel" by blast
  then have "release_fits rel" by (simp add: to_release_iff)
  then have "enc_fits (rel_transition rel)" by (simp add: release_fits_def transition_fits_enc)
  from accept_offline_no_panic [OF this, of dbg B] m show ?thesis
    by (auto simp: self_verify_def split: outcome.split)
next
  case False
  then show ?thesis by (auto simp: self_verify_def split: option.split sum.split)
qed

context wire_appliance
begin

lemma rt_safe:
  assumes "wire_reached P live (appliance_new c e g anc q) a"
  shows "\<exists>r a'. rt X P req a = (r, a') \<and> r \<noteq> Panic \<and> wire_reached P live (appliance_new c e g anc q) a'"
proof -
  obtain log where "(wire_step P live)\<^sup>*\<^sup>* (appliance_new c e g anc q, []) (a, log)"
    using assms by (auto simp: wire_reached_def)
  from wire_reachable [OF this] obtain out A where "represents P live g (a, out) A" by blast
  from handle_no_panic [OF this, of X "encode_request X req"]
  obtain b a' where h: "handle X P (encode_request X req) a = (Some b, a')"
    by (cases "handle X P (encode_request X req) a") auto
  with handle_reached [OF assms h] show ?thesis
    by (cases "decode_response X b") (simp_all add: rt_def)
qed

lemma rt_then_rt:
  assumes "wire_reached P live (appliance_new c e g anc q) a"
    and "\<And>v b. wire_reached P live (appliance_new c e g anc q) b \<Longrightarrow> fst (f v b) \<noteq> Panic"
  shows "fst (rt_then (rt X P req a) f) \<noteq> Panic"
proof -
  obtain r b where r: "rt X P req a = (r, b)" "r \<noteq> Panic" "wire_reached P live (appliance_new c e g anc q) b"
    using rt_safe [OF assms(1), of X req] by blast
  from rt_then_safe [of r "wire_reached P live (appliance_new c e g anc q)", OF r(2,3) assms(2)] r(1)
  show ?thesis by simp
qed

end

lemma chip_session_wire:
  assumes "chip_session S live"
  shows "wire_appliance (firmware_platform dbg B S) live"
proof -
  have "tropic_chip (chip_tropic S) live" by (rule chip_session.session_chip [OF assms])
  then show ?thesis
    by (simp add: wire_appliance_def appliance_chip_def wire_appliance_axioms_def wots_wire.wire_scheme_axioms)
qed

lemma self_test_no_panic:
  assumes "chip_session S live"
  shows "fst (self_test X dbg B S (appliance_new c e g anc q)) \<noteq> Panic"
proof -
  let ?P = "firmware_platform dbg B S" and ?new = "appliance_new c e g anc q"
  note wire = chip_session_wire [OF assms, of dbg B]
  have start: "wire_reached ?P live ?new ?new" unfolding wire_reached_def by blast
  note step = wire_appliance.rt_then_rt [OF wire]
  have verify: "fst (rt_then (self_verify dbg B relpb, b) (\<lambda>v b. (Done (res v), b))) \<noteq> Panic" for relpb b res
    using self_verify_no_panic [of dbg B relpb]
    by (cases "self_verify dbg B relpb") (simp_all add: rt_then_def)
  show ?thesis
    unfolding self_test_def Let_def case_prod_beta
    by (rule step [OF start], rule step, assumption, rule step, assumption, rule step, assumption,
        rule step, assumption, rule verify)
qed

section \<open>From power-on to service\<close>

lemma self_test_outcome_returns:
  assumes "chip_session S live"
  shows "\<exists>st s'. self_test_outcome X dbg B S s = Some (st, s')"
proof -
  obtain r v where r: "enroll S s = (r, v)" by (metis prod.collapse)
  show ?thesis
  proof (cases r)
    case (Inl e)
    with r show ?thesis by (simp add: self_test_outcome_def)
  next
    case (Inr hv)
    let ?new = "appliance_new v hv GENESIS ANCHOR MD_SLOT"
    obtain t a where t: "self_test X dbg B S ?new = (t, a)" by (metis prod.collapse)
    then have "t \<noteq> Panic" using self_test_no_panic [OF assms, of X dbg B v hv GENESIS ANCHOR MD_SLOT] by simp
    with r Inr t show ?thesis by (cases t) (simp_all add: self_test_outcome_def)
  qed
qed

text \<open>The state of the board when the deadline of the report is set, after the session has started in \<open>z\<close>.\<close>

definition report_start :: "('u, 's, 'x) board_scheme \<Rightarrow> 'u \<Rightarrow> 'u" where
  "report_start D z =
     pt_poll D (pt_flush D (put D (ascii ''[T5] self-test (root-advance protocol, secure-core seam)...'' @ crlf)
       (pt_flush D (put D (ascii ''[T2] session=OK'' @ crlf) z))))"

lemma self_test_phase_returns_iff:
  assumes "chip_session S live" and "clock_runs D"
  shows "(\<exists>s' u'. self_test_phase X dbg B S D s (pt_flush D (put D (ascii ''[T2] session=OK'' @ crlf) z))
      = Some (s', u')) \<longleftrightarrow> deadline_fits dbg (fst (bd_ticks D (report_start D z))) 4000000"
proof -
  obtain st s' where st: "self_test_outcome X dbg B S s = Some (st, s')"
    using self_test_outcome_returns [OF assms(1)] by blast
  from report_loop_ends_iff [OF assms(2), of dbg "report_text st" "report_start D z"] show ?thesis
    unfolding report_start_def [symmetric]
    by (auto simp: self_test_phase_def Let_def st simp flip: report_start_def split: option.split)
qed

lemma boot_main_SomeE:
  assumes "boot_main X dbg B S D u = Some (rec, a, u')"
  obtains s where "boot_recover dbg B S s = (rec, a)"
  using assms
  by (auto simp: boot_main_def service_phase_def Let_def split: prod.splits option.splits)

lemma boot_main_starts_iff:
  assumes chip: "chip_session S live" and clock: "clock_runs D"
    and hw: "run_setup (bd_hal D) early_setup u0 = Some u" "run_setup (bd_hal D) late_setup v = Some v'"
    and k: "ephemeral_key D u = (eh, v)" and l: "link_phase dbg D v' = Some w"
    and ss: "bd_session_start D eh 0 w = (Some s, z)"
  shows "(\<exists>rec a u'. boot_main X dbg B S D u0 = Some (rec, a, u')) \<longleftrightarrow>
    deadline_fits dbg (fst (bd_ticks D (report_start D z))) 4000000"
proof -
  have "(\<exists>rec a u'. boot_main X dbg B S D u0 = Some (rec, a, u')) \<longleftrightarrow>
      (\<exists>s' u'. self_test_phase X dbg B S D s (pt_flush D (put D (ascii ''[T2] session=OK'' @ crlf) z))
        = Some (s', u'))"
    using hw k l ss by (simp add: boot_main_def session_phase_def split: option.split) (metis prod.collapse)
  then show ?thesis by (simp only: self_test_phase_returns_iff [OF chip clock])
qed

lemma boot_main_starts:
  assumes "chip_session S live" and "clock_runs D"
    and "run_setup (bd_hal D) early_setup u0 = Some u" "run_setup (bd_hal D) late_setup v = Some v'"
    and "ephemeral_key D u = (eh, v)" and "link_phase False D v' = Some w"
    and "bd_session_start D eh 0 w = (Some s, z)"
  shows "\<exists>rec a u'. boot_main X False B S D u0 = Some (rec, a, u')"
  using boot_main_starts_iff [OF assms] by (simp add: deadline_fits_def)

text \<open>
  C20: when the firmware comes up. With a running clock and a chip that keeps its contract, answering
  or not, \<open>main\<close> reaches the service loop if and only if every unwrapped call of the set-up
  succeeds, the session starts on the board as the link phase leaves it, and, in a build with
  overflow checks, the two deadlines, of the probe and of the report, fit 64 bits. The link phase is
  given by the library's \<open>while\<close>. No failure of enrollment or self-test and no error of the chip
  keeps the firmware from serving, and after a failed handshake it never serves. What it then
  serves is the appliance that enrollment and recovery give.
\<close>

theorem boot_serves_iff:
  assumes chip: "chip_session S live" and clock: "clock_runs D"
  shows "(\<exists>rec a u'. boot_main X dbg B S D u = Some (rec, a, u') \<and> (\<exists>s. boot_recover dbg B S s = (rec, a))) \<longleftrightarrow>
    (\<exists>u1 eh v u2 s z. run_setup (bd_hal D) early_setup u = Some u1 \<and> ephemeral_key D u1 = (eh, v) \<and>
      run_setup (bd_hal D) late_setup v = Some u2 \<and>
      deadline_fits dbg (fst (bd_ticks D u2)) 3000000 \<and>
      bd_session_start D eh 0 (linked D u2) = (Some s, z) \<and>
      deadline_fits dbg (fst (bd_ticks D (report_start D z))) 4000000)"
    (is "_ \<longleftrightarrow> ?up")
proof -
  note link = link_phase_eq [OF clock, of dbg]
  have "(\<exists>rec a u'. boot_main X dbg B S D u = Some (rec, a, u')) \<longleftrightarrow> ?up"
  proof (cases "run_setup (bd_hal D) early_setup u")
    case None
    then show ?thesis by (simp add: boot_main_def)
  next
    case up1: (Some u1)
    obtain eh v where k: "ephemeral_key D u1 = (eh, v)" by (metis prod.collapse)
    show ?thesis
    proof (cases "Option.bind (run_setup (bd_hal D) late_setup v) (link_phase dbg D)")
      case None
      with up1 k show ?thesis
        by (auto simp: boot_main_def bind_eq_None_conv link split: option.splits if_splits)
    next
      case (Some w)
      then obtain u2 where up2: "run_setup (bd_hal D) late_setup v = Some u2" and l: "link_phase dbg D u2 = Some w"
        by (auto simp: bind_eq_Some_conv)
      then have w: "deadline_fits dbg (fst (bd_ticks D u2)) 3000000" "w = linked D u2"
        by (simp_all add: link split: if_splits)
      obtain r z where ss: "bd_session_start D eh 0 w = (r, z)" by (metis prod.collapse)
      show ?thesis
      proof (cases r)
        case None
        then show ?thesis
          using up1 up2 k l ss w(2) by (simp add: boot_main_def session_phase_def session_failed_never_returns)
      next
        case (Some s)
        with boot_main_starts_iff [OF chip clock up1 up2 k l, of s z] up1 up2 k ss w show ?thesis by simp
      qed
    qed
  qed
  moreover have "(\<exists>rec a u'. boot_main X dbg B S D u = Some (rec, a, u')) \<longleftrightarrow>
      (\<exists>rec a u'. boot_main X dbg B S D u = Some (rec, a, u') \<and> (\<exists>s. boot_recover dbg B S s = (rec, a)))"
    using boot_main_SomeE [of X dbg B S D u] by metis
  ultimately show ?thesis by blast
qed

section \<open>What boot leaves alone\<close>

text \<open>Whatever every call of the board but a read keeps is kept from power-on to service.\<close>

definition boot_keeps :: "('u, 's, 'x) board_scheme \<Rightarrow> ('u \<Rightarrow> bool) \<Rightarrow> bool" where
  "boot_keeps D Q \<longleftrightarrow> (\<forall>u. Q u \<longrightarrow>
     Q (pt_poll D u) \<and> Q (pt_flush D u) \<and> Q (snd (bd_ticks D u)) \<and> Q (snd (bd_random_bit D u)) \<and>
     (\<forall>call. Q (snd (bd_hal D call u))) \<and>
     Q (snd (bd_chip_id D u)) \<and> (\<forall>eh k. Q (snd (bd_session_start D eh k u))) \<and>
     (\<forall>data. Q (snd (pt_write D data u)) \<and> Q (bd_spi_transfer D data u)))"

lemma boot_keepsD:
  assumes "boot_keeps D Q" and "Q u"
  shows "Q (pt_poll D u)" "Q (pt_flush D u)" "Q (put D data u)" "Q (bd_spi_transfer D data u)"
    and "bd_ticks D u = (t, v) \<Longrightarrow> Q v" and "bd_random_bit D u = (b, v) \<Longrightarrow> Q v"
    and "bd_chip_id D u = (ok, v) \<Longrightarrow> Q v" and "bd_session_start D eh k u = (r, v) \<Longrightarrow> Q v"
    and "Q (snd (bd_hal D call u))"
  using assms unfolding boot_keeps_def put_def by (metis snd_conv)+

lemma random_fill_keeps:
  assumes "boot_keeps D Q"
  shows "Q u \<Longrightarrow> Q (snd (random_fill D n u))"
proof -
  have bits: "Q v \<Longrightarrow> Q (after_bits D m v)" for m v
    by (induction m arbitrary: v) (use assms in \<open>auto simp: boot_keeps_def\<close>)
  show "Q u \<Longrightarrow> Q (snd (random_fill D n u))"
  proof (induction n arbitrary: u)
    case (Suc n)
    from Suc.IH [OF bits [OF Suc.prems, of 8]] show ?case
      by (simp add: random_bits_eq case_prod_beta)
  qed simp
qed

lemma timed_loop_keeps:
  fixes D :: "('u, 's, 'x) board_scheme"
  assumes keeps: "boot_keeps D Q" and act: "\<And>u. Q u \<Longrightarrow> Q (act u)"
    and ret: "timed_loop D period act until prev u = Some u'" and start: "Q u"
  shows "Q u'"
proof (rule timed_loop.raw_induct [where P = "\<lambda>D period act until prev u u'. boot_keeps D Q \<longrightarrow>
    (\<forall>u. Q u \<longrightarrow> Q (act u)) \<longrightarrow> Q u \<longrightarrow> Q u'", OF _ ret, rule_format, OF _ keeps act start])
  fix f :: "('u, 's, 'x) board_scheme \<Rightarrow> u64 \<Rightarrow> ('u \<Rightarrow> 'u) \<Rightarrow> u64 \<Rightarrow> u64 \<Rightarrow> 'u \<Rightarrow> 'u option"
    and D period act until prev u u'
  assume IH: "\<And>D period act until prev u u'. f D period act until prev u = Some u' \<Longrightarrow>
      boot_keeps D Q \<Longrightarrow> (\<And>u. Q u \<Longrightarrow> Q (act u)) \<Longrightarrow> Q u \<Longrightarrow> Q u'"
    and eq: "(case bd_ticks D u of
        (t, u) \<Rightarrow>
          if t < until then
            (case bd_ticks D (pt_poll D u) of
               (now, u) \<Rightarrow>
                 if period \<le> bd_millis D now prev then
                   (case bd_ticks D u of (t', u) \<Rightarrow> f D period act until t' (act u))
                 else f D period act until prev u)
          else Some u) = Some u'"
    and keeps: "boot_keeps D Q" and act: "\<And>u. Q u \<Longrightarrow> Q (act u)" and start: "Q u"
  obtain t v now w t' z where t: "bd_ticks D u = (t, v)" "bd_ticks D (pt_poll D v) = (now, w)"
    "bd_ticks D w = (t', z)"
    by (metis prod.collapse)
  note k = boot_keepsD [OF keeps]
  have "Q v" "Q w" "Q z" using k(5) [OF start t(1)] k(1) k(5) [OF _ t(2)] k(5) [OF _ t(3)] by blast+
  with eq t act IH [OF _ keeps act] show "Q u'" by (auto split: if_splits)
qed

lemma report_loop_keeps:
  assumes keeps: "boot_keeps D Q" and ret: "report_loop dbg D msg u = Some u'" and "Q u"
  shows "Q u'"
proof -
  note k = boot_keepsD [OF keeps]
  obtain t v prev w where t: "bd_ticks D u = (t, v)" "bd_ticks D v = (prev, w)" by (metis prod.collapse)
  with ret obtain until where
    "timed_loop D 2000 (\<lambda>u. pt_flush D (put D msg u)) until prev (pt_flush D (put D msg w)) = Some u'"
    by (auto simp: report_loop_def split: option.splits)
  then show ?thesis
  proof (rule timed_loop_keeps [OF keeps, rotated])
    show "Q (pt_flush D (put D msg w))"
      by (intro k(2) k(3) k(5) [OF _ t(2)] k(5) [OF _ t(1)] \<open>Q u\<close>)
  qed (intro k(2) k(3))
qed

lemma probe_link_keeps:
  assumes keeps: "boot_keeps D Q" and ret: "probe_link dbg D u = Some u'" and "Q u"
  shows "Q u'"
proof -
  note k = boot_keepsD [OF keeps]
  obtain t v prev w where t: "bd_ticks D u = (t, v)" "bd_ticks D v = (prev, w)" by (metis prod.collapse)
  with ret obtain until where
    "timed_loop D 1000 (\<lambda>u. pt_flush D (bd_spi_transfer D [0xAA, 0, 0, 0] u)) until prev w = Some u'"
    by (auto simp: probe_link_def split: option.splits)
  then show ?thesis
  proof (rule timed_loop_keeps [OF keeps, rotated])
    show "Q w" by (intro k(5) [OF _ t(2)] k(5) [OF _ t(1)] \<open>Q u\<close>)
  qed (intro k(2) k(4))
qed

lemma link_phase_keeps:
  assumes keeps: "boot_keeps D Q" and ret: "link_phase dbg D u = Some u'" and "Q u"
  shows "Q u'"
proof -
  note k = boot_keepsD [OF keeps]
  obtain v where v: "probe_link dbg D u = Some v"
    using ret by (auto simp: link_phase_def split: option.splits)
  obtain ok w where w: "bd_chip_id D (pt_poll D v) = (ok, w)" by (metis prod.collapse)
  have "Q w" by (intro k(7) [OF _ w] k(1) probe_link_keeps [OF keeps v \<open>Q u\<close>])
  moreover have "u' = pt_poll D (pt_flush D (put D (ascii ''[T2] handshake (PROD0, slot 0)...'' @ crlf)
      (pt_poll D (pt_flush D (put D (ascii (if ok then ''OK'' else ''FAIL'') @ crlf)
        (put D (ascii ''[T1] chip id: '') w))))))"
    using ret v w by (simp add: link_phase_def Let_def)
  ultimately show ?thesis by (simp only:) (intro k(1-3))
qed

lemma boot_main_keeps:
  assumes keeps: "boot_keeps D Q" and boot: "boot_main X dbg B S D u = Some (rec, a, u')" and "Q u"
  shows "Q u'"
proof -
  note k = boot_keepsD [OF keeps]
  obtain u1 where u1: "run_setup (bd_hal D) early_setup u = Some u1"
    using boot by (auto simp: boot_main_def split: option.splits)
  obtain eh v0 where e: "ephemeral_key D u1 = (eh, v0)" by (metis prod.collapse)
  then have "v0 = snd (random_fill D 32 u1)" by (simp add: ephemeral_key_def case_prod_beta)
  then have "Q v0" using random_fill_keeps [OF keeps run_setup_keeps [OF k(9) u1 \<open>Q u\<close>]] by simp
  obtain v where l: "run_setup (bd_hal D) late_setup v0 = Some v"
    using boot u1 e by (auto simp: boot_main_def split: option.splits)
  have v: "Q v" by (rule run_setup_keeps [OF k(9) l \<open>Q v0\<close>])
  obtain w s x s' y where w: "link_phase dbg D v = Some w" "session_phase D eh w = Some (s, x)"
    "self_test_phase X dbg B S D s x = Some (s', y)" "service_phase dbg B S D s' y = (rec, a, u')"
    using boot u1 e l by (auto simp: boot_main_def split: option.splits)
  have qw: "Q w" by (rule link_phase_keeps [OF keeps w(1) v])
  obtain r z where ss: "bd_session_start D eh 0 w = (r, z)" by (metis prod.collapse)
  with w(2) have "x = pt_flush D (put D (ascii ''[T2] session=OK'' @ crlf) z)"
    by (auto simp: session_phase_def session_failed_never_returns split: option.splits)
  then have qx: "Q x" by (simp only:) (intro k(2) k(3) k(8) [OF qw ss])
  obtain st where "report_loop dbg D (report_text st) (pt_poll D (pt_flush D (put D
      (ascii ''[T5] self-test (root-advance protocol, secure-core seam)...'' @ crlf) x))) = Some y"
    using w(3) by (auto simp: self_test_phase_def Let_def split: option.splits)
  then have qy: "Q y" by (rule report_loop_keeps [OF keeps]) (intro k(1-3) qx)
  have "u' = pt_flush D (put D (recover_text rec) (pt_flush D (put D (ascii
      ''[T6] serving root-advance appliance over USB-CDC (LE32-len-prefixed protobuf)'' @ crlf) y)))"
    using w(4) by (auto simp: service_phase_def Let_def split: prod.splits)
  then show ?thesis by (simp only:) (intro k(2) k(3) qy)
qed

section \<open>The report\<close>

lemma length_ascii [simp]: "length (ascii s) = length s"
  by (simp add: ascii_def)

lemma decimal_length: "n < 10 ^ k \<Longrightarrow> 0 < k \<Longrightarrow> length (decimal n) \<le> k"
proof (induction n arbitrary: k rule: decimal.induct)
  case (1 n)
  show ?case
  proof (cases "n < 10")
    case True
    then show ?thesis using "1.prems" by (subst decimal.simps) simp
  next
    case False
    then obtain j where j: "k = Suc j" "0 < j" using "1.prems" by (cases k; cases "k = 1") auto
    then have "n div 10 < 10 ^ j" using "1.prems"(1) by (simp add: less_mult_imp_div_less mult.commute)
    from "1.IH" [OF False this j(2)] False j(1) show ?thesis by (subst decimal.simps) simp
  qed
qed

lemma decimal_length_u32: "n < 2 ^ 32 \<Longrightarrow> length (decimal n) \<le> 10"
  by (rule decimal_length) simp_all

lemma decimal_length_u64: "length (decimal (unat (w :: u64))) \<le> 20"
proof (rule decimal_length)
  have "unat w < 2 ^ LENGTH(64)" by (rule unsigned_less)
  then show "unat w < 10 ^ 20" by simp
qed simp

lemma report_text_take: "report_text st = take 224 (concat (report_pieces st))"
  using write_pieces [of "\<lparr> bw_buf = replicate 224 0, bw_len = 0 \<rparr>" "report_pieces st"]
  by (simp add: report_text_def bufw_ok_def bw_text_def)

text \<open>The names of the steps at which the self-test can fail.\<close>

lemma enroll_steps:
  "enroll S s = (Inl e, s') \<Longrightarrow> e \<in> {''mcounter_init'', ''mcounter_get'', ''enroll-arm''}"
  by (auto simp: enroll_def split: prod.splits bool.splits option.splits)

lemma rt_steps: "fst (rt X P req a) = Fail e \<Longrightarrow> e = ''decode_response''"
  by (auto simp: rt_def split: prod.splits option.splits sum.splits)

lemma rt_then_steps:
  assumes "e \<noteq> ''decode_response''" and "\<And>v b. fst (f v b) \<noteq> Fail e"
  shows "fst (rt_then (rt X P req a) f) \<noteq> Fail e"
  using assms rt_steps [of X P req a e] by (auto simp: rt_then_def split: prod.splits outcome.splits)

lemma self_verify_steps: "self_verify dbg B relpb \<noteq> Fail e"
  by (auto simp: self_verify_def split: option.split sum.split outcome.split)

lemma self_test_steps:
  assumes "fst (self_test X dbg B S a) = Fail e"
  shows "e = ''decode_response''"
proof -
  have verify: "fst (rt_then (self_verify dbg B relpb, b) (\<lambda>v b. (Done (res v), b))) \<noteq> Fail e" for relpb b res
    using self_verify_steps [of dbg B relpb e] by (cases "self_verify dbg B relpb") (simp_all add: rt_then_def)
  show ?thesis
  proof (rule ccontr)
    assume ne: "e \<noteq> ''decode_response''"
    note step = rt_then_steps [OF ne]
    have "fst (self_test X dbg B S a) \<noteq> Fail e"
      unfolding self_test_def Let_def case_prod_beta
      by (rule step, rule step, rule step, rule step, rule step, rule verify)
    with assms show False by simp
  qed
qed

lemma self_test_outcome_steps:
  assumes "self_test_outcome X dbg B S s = Some (Inl e, s')"
  shows "e \<in> {''mcounter_init'', ''mcounter_get'', ''enroll-arm'', ''decode_response''}"
proof -
  obtain r v where r: "enroll S s = (r, v)" by (metis prod.collapse)
  show ?thesis
  proof (cases r)
    case (Inl e')
    with r assms have "enroll S s = (Inl e, s')" by (simp add: self_test_outcome_def)
    from enroll_steps [OF this] show ?thesis by blast
  next
    case (Inr hv)
    obtain t a where "self_test X dbg B S (appliance_new v hv GENESIS ANCHOR MD_SLOT) = (t, a)"
      by (metis prod.collapse)
    with r Inr assms self_test_steps [of X dbg B S "appliance_new v hv GENESIS ANCHOR MD_SLOT" e]
    show ?thesis by (simp add: self_test_outcome_def split: outcome.splits)
  qed
qed

text \<open>
  C40: the report is never cut. Whatever the self-test finds, on whatever chip, the text that is put
  together piece by piece in the 224-byte buffer is the complete report, for key and signature
  lengths of the 32-bit target.
\<close>

theorem report_never_cut:
  assumes outcome: "self_test_outcome X dbg B S s = Some (st, s')"
    and usize: "case st of Inl _ \<Rightarrow> True | Inr r \<Rightarrow> t_pk_len r < 2 ^ 32 \<and> t_sig_len r < 2 ^ 32"
  shows "report_text st = concat (report_pieces st) \<and> length (report_text st) \<le> 134"
proof -
  have "length (concat (report_pieces st)) \<le> 134"
  proof (cases st)
    case (Inl e)
    with outcome have "e \<in> {''mcounter_init'', ''mcounter_get'', ''enroll-arm'', ''decode_response''}"
      by (intro self_test_outcome_steps [of X dbg B S s e s']) simp
    with Inl show ?thesis by (auto simp: report_pieces_def crlf_def)
  next
    case (Inr r)
    have "unat (t_st_status r) < 2 ^ 32" using unat_u32_less [of "t_st_status r"] by simp
    note len = decimal_length_u32 [of "t_pk_len r"] decimal_length_u32 [of "t_sig_len r"]
      decimal_length_u32 [OF this] decimal_length_u64 [of "t_st_index r"]
    have "length (decimal (t_pk_len r)) + length (decimal (t_sig_len r)) +
        length (decimal (unat (t_st_status r))) + length (decimal (unat (t_st_index r))) \<le> 50"
      using len usize Inr by simp
    moreover have "length (bool_text (t_ops_ok r)) \<le> 5"
        "length (if self_test_pass r then ''PASS'' else ''FAIL'') = 4"
        "length (if t_verify_ok r then ''accepted'' else ''REJECTED'') = 8"
        "length (if t_frontier_match r then ''root ok'' else ''root MISMATCH'') \<le> 13"
      by (simp_all add: bool_text_def)
    ultimately show ?thesis
      by (simp add: Inr report_pieces_def crlf_def del: if_split)
  qed
  then show ?thesis by (simp add: report_text_take)
qed

text \<open>
  C31: what a good device reports. On an answering chip and a codec that returns the self-test's
  messages unchanged, the self-test that \<open>main\<close> runs on a newly enrolled appliance completes, and
  the text it reports is, to the byte, the line below.
\<close>

theorem passing_report:
  assumes rs: "reliable_session S live" and X: "carries_self_test X"
  shows "\<exists>r s'. self_test_outcome X dbg B S s = Some (Inr r, s') \<and> report_text (Inr r) =
    ascii ''[T5] PASS  ops_ok=true pk=32B sig=2144B status(idx=1,st=0) verify=accepted(root ok)'' @ crlf"
proof -
  obtain v where e: "enroll S s = (Inr ENROLL_H0, v)"
    using reliable_session.enroll_result [OF rs, of s] by blast
  then have boot: "boot_appliance S s = appliance_new v ENROLL_H0 GENESIS ANCHOR MD_SLOT"
    by (simp add: boot_appliance_def)
  obtain r a where r: "self_test X dbg B S (boot_appliance S s) = (Done r, a)" "self_test_pass r"
    using reliable_session.self_test_run [OF rs X] by blast
  have "self_test_outcome X dbg B S s = Some (Inr r, tropic a)"
    using e r(1) boot by (simp add: self_test_outcome_def)
  moreover have dec: "decimal 32 = ascii ''32''" "decimal 2144 = ascii ''2144''" "decimal 1 = ascii ''1''"
      "decimal 0 = ascii ''0''"
    by (simp_all add: decimal.simps ascii_def)
  have "concat (report_pieces (Inr r)) =
      ascii ''[T5] PASS  ops_ok=true pk=32B sig=2144B status(idx=1,st=0) verify=accepted(root ok)'' @ crlf"
    using r(2) dec
    by (simp add: report_pieces_def self_test_pass_def bool_text_def) (simp add: ascii_def crlf_def)
  then have "report_text (Inr r) =
      ascii ''[T5] PASS  ops_ok=true pk=32B sig=2144B status(idx=1,st=0) verify=accepted(root ok)'' @ crlf"
    by (simp add: report_text_take crlf_def)
  ultimately show ?thesis by blast
qed

section \<open>The first transfer after power-on\<close>

text \<open>
  C2: from power-on to an accepted transfer. When a device with an answering chip has booted and its
  host sends the prepare, commit and emit requests of a transition from the genesis root at index
  0, then recovery has accepted the genesis root, the bytes sent back are three framed responses,
  each ok, and the release in the last is accepted by a receiver that starts from the genesis
  root, pinned the firmware's anchor and enrolled counter, and reads the chip's counter itself.
\<close>

theorem power_on_transfer_accepted:
  assumes rs: "reliable_session S live"
    and boot: "boot_main X dbg B S D v = Some (rec, a, u)"
    and port: "usb_port D sent got" and nf: "never_fails D"
    and codec: "carries_requests X (transfer_requests t rc)"
    and t: "prev_root t = GENESIS" "anchor_counter t = 0" "next_anchor_counter t = 1" "transition_fits t"
    and run: "serve_turns n X (firmware_platform dbg B S) D ([], a, u) = Some (rx, a', u')"
    and got: "got u' = got u @ concat (map (framed \<circ> px_encode_request X) (transfer_requests t rc))"
    and ctx: "accepted_prev_root ctx = GENESIS" "pinned_anchor_id ctx = ANCHOR"
      "expected_receiver_challenge ctx = rc" "expected_policy_hash ctx = authority_policy_hash t"
      "enrolled_counter ctx = ucast ENROLL_H0" "1 \<le> exposure_cap_index ctx" "anchor_uncompromised ctx"
    and dsm: "root_commits_counter V GENESIS 0" "verify_transition V t" "delivers_to_receiver V t"
    and read: "ev_anchor_id ev = ANCHOR"
      "read_authentic_counter C ANCHOR ev = Some (ucast (live (tropic a')))"
  shows "rec = Accept GENESIS \<and> (\<exists>r1 r2 r3 msg rel.
    sent u' = sent u @ concat (map (framed \<circ> px_encode_response X) [r1, r2, r3]) \<and>
    rs_ok r1 \<and> rs_ok r2 \<and> rs_ok r3 \<and>
    rs_release r3 = Some msg \<and> to_release msg = Inr rel \<and> rel_transition rel = t \<and>
    accept_offline dbg B (wots_blake3 B) V C (rel\<lparr>rel_counter := ev\<rparr>) ctx = Done ())"
proof -
  obtain s where "boot_recover dbg B S s = (rec, a)" by (rule boot_main_SomeE [OF boot])
  then obtain s' where a: "rec = Accept GENESIS" "a = appliance_new s' ENROLL_H0 GENESIS ANCHOR MD_SLOT"
    "live s' = ENROLL_H0"
    using reliable_session.boot_recover_result [OF rs, of dbg B s] by auto
  have ra: "reliable_appliance (firmware_platform dbg B S) live"
    by (rule reliable_session.firmware_appliance [OF rs])
  have ready: "offline_ready live a" "advances t a"
    using a t by (simp_all add: offline_ready_def advances_def appliance_new_def ENROLL_H0_def)
  have ws: "wire_scheme (pf_sig (firmware_platform dbg B S))"
    by (simp add: wots_wire.wire_scheme_axioms)
  from usb_transfer [OF ra ws port nf codec ready t(4) run got, of ctx V ev C] a(1) show ?thesis
    using ctx dsm read t(1-3) by (simp add: a(2) appliance_new_def)
qed

end
