(* ===== verification/Host_Script_Properties.thy ===== *)
theory Host_Script_Properties
  imports Wire_Format Boot_Properties
begin

text \<open>
  The host script against the appliance: its hand-written requests are the bytes that prost gives
  for the same messages, and over a terminal that carries both directions it reports PASS.
\<close>

section \<open>Lengths on the wire\<close>

lemma length_varint: "n < 128 ^ k \<Longrightarrow> 0 < k \<Longrightarrow> length (varint n) \<le> k"
proof (induction n arbitrary: k rule: varint_induct)
  case (less n)
  then show ?case by (simp add: varint_eq)
next
  case (step n)
  then obtain j where k: "k = Suc j" by (cases k) auto
  with step.hyps step.prems have j: "0 < j" by (cases j) auto
  have "n div 128 < 128 ^ j" using step.prems(1) by (simp add: k less_mult_imp_div_less)
  from step.IH [OF this j] step.hyps show ?case by (simp add: varint_eq [of n] k)
qed

lemma length_wire_tag: "f \<le> 15 \<Longrightarrow> w < 8 \<Longrightarrow> length (wire_tag f w) \<le> 1"
proof -
  assume f: "f \<le> 15" and w: "w < 8"
  have "push_bit 3 f = 8 * f" by (simp add: push_bit_eq_mult)
  moreover have "take_bit 7 (push_bit 3 f) = push_bit 3 f" "take_bit 7 w = w"
    using f w by (simp_all add: take_bit_nat_eq_self_iff calculation)
  then have "take_bit 7 (push_bit 3 f OR w) = push_bit 3 f OR w" by simp
  with take_bit_nat_less_exp [of 7 "push_bit 3 f OR w"] have "push_bit 3 f OR w < 128 ^ 1" by simp
  then show ?thesis unfolding wire_tag_def by (rule length_varint) simp
qed

lemma length_opt_num: "f \<le> 15 \<Longrightarrow> length (encode_fields (opt_num f (w :: u64))) \<le> 11"
proof -
  assume f: "f \<le> 15"
  have "unat w < 2 ^ 64" using unsigned_less [of w] by simp
  then have "length (varint (unat w)) \<le> 10" by (intro length_varint) simp_all
  with length_wire_tag [OF f, of 0] show ?thesis by (simp add: opt_num_def uint_f_def)
qed

lemma length_opt_num32: "f \<le> 15 \<Longrightarrow> length (encode_fields (opt_num f (w :: u32))) \<le> 11"
proof -
  assume f: "f \<le> 15"
  have "unat w < 2 ^ 32" using unsigned_less [of w] by simp
  then have "length (varint (unat w)) \<le> 10" by (intro length_varint) simp_all
  with length_wire_tag [OF f, of 0] show ?thesis by (simp add: opt_num_def uint_f_def)
qed

lemma length_bytes_f:
  assumes "f \<le> 15" and "length bs < 2 ^ 28"
  shows "length (bytes_f f bs) \<le> 5 + length bs"
proof -
  have "length (varint (length bs)) \<le> 4" using assms(2) by (intro length_varint) simp_all
  with length_wire_tag [OF assms(1), of 2] show ?thesis by (simp add: bytes_f_def)
qed

lemma length_opt_bytes:
  "f \<le> 15 \<Longrightarrow> length bs \<le> m \<Longrightarrow> m < 2 ^ 28 \<Longrightarrow> length (encode_fields (opt_bytes f bs)) \<le> 5 + m"
  using length_bytes_f [of f bs] by (simp add: opt_bytes_def)

lemma length_opt_msg:
  "f \<le> 15 \<Longrightarrow> (\<And>y. x = Some y \<Longrightarrow> length (encode_fields (enc y)) \<le> m) \<Longrightarrow> m < 2 ^ 28 \<Longrightarrow>
    length (encode_fields (opt_msg f enc x)) \<le> 5 + m"
  using length_bytes_f [of f "encode_fields (enc (the x))"] by (cases x) (force simp: opt_msg_def)+

lemma sum_le: "length (xs :: 'a list) \<le> m \<Longrightarrow> length ys \<le> n \<Longrightarrow> length (xs @ ys) \<le> m + n"
  by simp

lemmas length_opt =
  sum_le length_opt_num length_opt_num32 length_opt_bytes length_opt_bytes [of _ _ 32, simplified]

lemma length_wire_transition:
  assumes "transition_fits t"
  shows "length (encode_fields (wire_transition (transition_to_pb t)))
    \<le> 344 + length (action_fields t) + length (old_leaf_proof t) + length (new_leaf_proof t)"
proof -
  have "length (encode_fields (wire_transition (transition_to_pb t))) \<le>
      37 + (37 + (37 + (37 + (37 + (37 + (11 + (11 + (11 + (5 + length (action_fields t) + (37 +
        (5 + length (old_leaf_proof t) + (5 + length (new_leaf_proof t) + 37))))))))))))"
    unfolding wire_transition_def encode_fields_simps
    using assms by (intro length_opt) (simp_all add: transition_to_pb_def transition_fits_def wire_bounds)
  then show ?thesis by simp
qed

lemma length_wire_cert:
  assumes "cert_fits c"
  shows "length (encode_fields (wire_cert (cert_to_pb c))) \<le> 302 + length (c_pk_hw c) + length (c_sigma c)"
proof -
  have "length (encode_fields (wire_cert (cert_to_pb c))) \<le>
      37 + (37 + (11 + (11 + (37 + (37 + (37 + (5 + length (c_pk_hw c) + (5 + length (c_sigma c) +
        (37 + (11 + 37))))))))))"
    unfolding wire_cert_def encode_fields_simps
    using assms by (intro length_opt) (simp_all add: cert_to_pb_def cert_fits_def wire_bounds)
  then show ?thesis by simp
qed

lemma length_wire_evidence:
  assumes "evidence_fits e"
  shows "length (encode_fields (wire_evidence (evidence_to_pb e))) \<le> 75 + length (ev_verifier_transcript e)"
proof -
  have "length (encode_fields (wire_evidence (evidence_to_pb e))) \<le>
      37 + (11 + (11 + (11 + (5 + length (ev_verifier_transcript e)))))"
    unfolding wire_evidence_def encode_fields_simps
    using assms by (intro length_opt) (simp_all add: evidence_to_pb_def evidence_fits_def wire_bounds)
  then show ?thesis by simp
qed

lemma length_wire_release:
  assumes "release_fits rel"
  shows "length (encode_fields (wire_release (release_to_pb rel))) \<le> 65536"
proof -
  note fits = assms [unfolded release_fits_def]
  have "length (encode_fields (wire_transition (transition_to_pb (rel_transition rel)))) \<le> 344 + 256 + 16384 + 16384"
    using length_wire_transition [of "rel_transition rel"] fits by (simp add: transition_fits_def wire_bounds)
  moreover have "length (encode_fields (wire_cert (cert_to_pb (rel_cert rel)))) \<le> 302 + 4096 + 16384"
    using length_wire_cert [of "rel_cert rel"] fits by (simp add: cert_fits_def wire_bounds)
  moreover have "length (encode_fields (wire_evidence (evidence_to_pb (rel_counter rel)))) \<le> 75 + 8192"
    using length_wire_evidence [of "rel_counter rel"] fits by (simp add: evidence_fits_def wire_bounds)
  ultimately have "length (encode_fields (wire_release (release_to_pb rel))) \<le>
      5 + (344 + 256 + 16384 + 16384) + (5 + (302 + 4096 + 16384) + (5 + (75 + 8192)))"
    unfolding wire_release_def encode_fields_simps
    by (intro sum_le length_opt_msg) (simp_all add: release_to_pb_def)
  then show ?thesis by simp
qed

lemma length_wire_response:
  assumes "\<And>m. rs_release r = Some m \<Longrightarrow> \<exists>rel. m = release_to_pb rel \<and> release_fits rel"
    and "length (rs_active_root r) \<le> 32"
  shows "length (encode_fields (wire_response r)) \<le> 65700"
proof -
  have rel: "length (encode_fields (wire_release m)) \<le> 65536" if "rs_release r = Some m" for m
    using assms(1) [OF that] length_wire_release by auto
  have "length (encode_fields (wire_response r)) \<le>
      11 + (11 + (11 + (5 + 65536 + (37 + (11 + 11)))))"
    unfolding wire_response_def encode_fields_simps
    using assms(2) rel by (intro length_opt length_opt_msg) simp_all
  then show ?thesis by simp
qed

lemma length_plain_request: "length (encode_fields (wire_request (plain_request x))) \<le> 16"
proof -
  have "length (encode_fields (wire_request (plain_request x))) \<le> 11 + (0 + 5)"
    unfolding wire_request_def encode_fields_simps
    by (intro sum_le length_opt_num) (simp_all add: plain_request_def opt_bytes_def opt_msg_def)
  then show ?thesis by simp
qed

lemma length_prepare_request: "length (encode_fields (wire_request prepare_request)) \<le> 500"
proof -
  have "length (encode_fields (wire_transition (transition_to_pb self_transition))) \<le> 426"
    using length_wire_transition [OF self_transition_fits(1)]
    by (simp add: self_transition_def T_AF_def LEAF_OLD_def LEAF_NEW_def)
  then have "length (encode_fields (wire_request prepare_request)) \<le> 11 + (5 + 426 + 37)"
    unfolding wire_request_def encode_fields_simps
    by (intro length_opt length_opt_msg) (simp_all add: prepare_request_eq)
  then show ?thesis by simp
qed

section \<open>The script's bytes\<close>

text \<open>The enum's numbers are at most 6: no sign to extend.\<close>

lemma wire_plain: "encode_fields (wire_request (plain_request x)) = (if x = OpUnspecified then [] else op_req (unat (op_number x)))"
  by (cases x) (simp_all add: wire_request_def plain_request_def opt_bytes_def opt_msg_def opt_num_def
      enum_u64_def op_number_def op_req_def)

lemma wire_prepare: "encode_fields (wire_request prepare_request) = prepare_req"
  by (simp add: wire_request_def prepare_request_def opt_msg_def wire_transition_def opt_bytes_def
      opt_num_def enum_u64_def op_number_def prepare_req_def Let_def build_params)

lemma op_req_status: "op_req (unat (op_number OpStatus)) = op_req 5"
  by (simp add: op_number_def)

section \<open>One exchange\<close>

text \<open>The two ways of writing a length.\<close>

lemma le_bytes4_eq: "n < 2 ^ 32 \<Longrightarrow> le_bytes4 n = Inr (u32_le (of_nat n))"
proof -
  assume n: "n < 2 ^ 32"
  have "bit n i \<Longrightarrow> i < 32" for i using n by (metis bit_take_bit_iff take_bit_nat_eq_self)
  then have "(of_nat (drop_bit (8 * k) n) :: byte) = ucast (drop_bit (8 * k) (of_nat n :: u32))" for k
    by (intro bit_word_eqI) (auto simp: bit_simps)
  with n show ?thesis by (simp add: le_bytes4_def u32_le_def to_le_bytes_def)
qed

lemma from_le_bytes_eq: "n < 2 ^ 32 \<Longrightarrow> from_le_bytes (u32_le (of_nat n)) = n"
proof -
  assume n: "n < 2 ^ 32"
  let ?w = "of_nat n :: u32"
  have w: "unat ?w = n" using n by (simp add: unsigned_of_nat take_bit_nat_eq_self)
  have "u32_le ?w = [u32_le ?w ! 0, u32_le ?w ! 1, u32_le ?w ! 2, u32_le ?w ! 3]"
    by (simp add: u32_le_def to_le_bytes_def upt_rec)
  moreover have "from_le_bytes [b0, b1, b2, b3] = unat b0 + 256 * (unat b1 + 256 * (unat b2 + 256 * unat b3))"
    for b0 b1 b2 b3 by (simp add: from_le_bytes_def)
  ultimately have "from_le_bytes (u32_le ?w) = unat (u32_le ?w ! 0) + 256 * (unat (u32_le ?w ! 1) +
      256 * (unat (u32_le ?w ! 2) + 256 * unat (u32_le ?w ! 3)))"
    by metis
  also have "\<dots> = n"
    using base256 [of n] n by (simp add: unat_u32_le_nth w algebra_simps)
  finally show ?thesis .
qed

text \<open>What the dispatcher answers to requests one after the other, all of them short.\<close>

inductive answers ::
    "'c platform \<Rightarrow> pb_request list \<Rightarrow> 'c appliance \<Rightarrow> pb_response list \<Rightarrow> 'c appliance \<Rightarrow> bool"
  for P :: "'c platform" where
  none: "answers P [] a [] a"
| request: "answers P (req # reqs) a (r # rs) a'"
  if "dispatch P req a = (Some r, b)" and "answers P reqs b rs a'"
    and "length (encode_fields (wire_request req)) + 63 \<le> MAX_RX_FRAME"
    and "length (encode_fields (wire_response r)) < 2 ^ 32"

text \<open>
  A terminal with the appliance behind it: a frame that is written is answered, and what can be read
  is the answers, in order. \<open>unread\<close> is what the device has sent and the script has not read yet.
\<close>

locale served_tty =
  fixes T :: "'d tty" and X :: prost and P :: "'c platform"
    and unread :: "'d \<Rightarrow> byte list" and app :: "'d \<Rightarrow> 'c appliance"
  assumes tty_written: "length body + 63 \<le> MAX_RX_FRAME \<Longrightarrow> handle X P body (app d) = (Some resp, a) \<Longrightarrow>
      unread (tty_write T (framed body) d) = unread d @ framed resp \<and> app (tty_write T (framed body) d) = a"
    and tty_clock: "unread (snd (tty_now T d)) = unread d \<and> app (snd (tty_now T d)) = app d"
    and tty_select: "unread (snd (tty_ready T d)) = unread d \<and> app (snd (tty_ready T d)) = app d \<and>
      (unread d \<noteq> [] \<longrightarrow> fst (tty_ready T d))"
    and tty_reads: "unread d \<noteq> [] \<Longrightarrow> 0 < n \<Longrightarrow>
      \<exists>got d'. tty_read T n d = (Some got, d') \<and> got \<noteq> [] \<and> length got \<le> n \<and>
        unread d = got @ unread d' \<and> app d' = app d"

text \<open>The run takes less than the five seconds that each read has.\<close>

definition in_time :: "'d tty \<Rightarrow> bool" where
  "in_time T \<longleftrightarrow> (\<exists>t0. \<forall>d. t0 \<le> fst (tty_now T d) \<and> fst (tty_now T d) < t0 + 5000)"

context served_tty
begin

lemma link_now: "tty_now T d = (t, d') \<Longrightarrow> unread d' = unread d \<and> app d' = app d"
  using tty_clock [of d] by simp

lemma link_ready: "tty_ready T d = (r, d') \<Longrightarrow> unread d' = unread d \<and> app d' = app d \<and> (unread d \<noteq> [] \<longrightarrow> r)"
  using tty_select [of d] by simp

lemma read_n_loop_reads:
  assumes "n - length buf \<le> length (unread d)" and time: "\<And>d. fst (tty_now T d) < dl"
  shows "\<exists>d'. read_n_loop T n dl buf d = Some (buf @ take (n - length buf) (unread d), d') \<and>
    unread d' = drop (n - length buf) (unread d) \<and> app d' = app d"
  using assms(1)
proof (induction "n - length buf" arbitrary: buf d rule: less_induct)
  case less
  show ?case
  proof (cases "length buf < n")
    case False
    then show ?thesis by (subst read_n_loop.simps) simp
  next
    case True
    obtain t d1 where now: "tty_now T d = (t, d1)" by (metis prod.collapse)
    obtain r d2 where ready: "tty_ready T d1 = (r, d2)" by (metis prod.collapse)
    note frame = link_now [OF now] link_ready [OF ready]
    have "unread d \<noteq> []" using True less.prems by auto
    then have "r" and "unread d2 \<noteq> []" using frame by auto
    obtain got d3 where read: "tty_read T (n - length buf) d2 = (Some got, d3)" "got \<noteq> []"
      "length got \<le> n - length buf" "unread d2 = got @ unread d3" "app d3 = app d2"
      using tty_reads [OF \<open>unread d2 \<noteq> []\<close>] True by (meson zero_less_diff)
    have t: "t < dl" using time [of d] now by simp
    have step: "read_n_loop T n dl buf d = read_n_loop T n dl (buf @ got) d3"
      using True t \<open>r\<close> read(1) by (subst read_n_loop.simps) (simp add: now ready)
    have eq: "unread d = got @ unread d3" "app d3 = app d" using frame read(4,5) by simp_all
    have len: "0 < length got" using read(2) by simp
    have "n - length (buf @ got) < n - length buf" unfolding length_append using True len by arith
    moreover have "n - length (buf @ got) \<le> length (unread d3)" using less.prems eq(1) by simp
    ultimately obtain d' where
      "read_n_loop T n dl (buf @ got) d3 = Some ((buf @ got) @ take (n - length (buf @ got)) (unread d3), d')"
      "unread d' = drop (n - length (buf @ got)) (unread d3)" "app d' = app d3"
      using less.hyps [of "buf @ got" d3] by blast
    then show ?thesis
      unfolding step using read(3) eq by (intro exI [of _ d']) simp
  qed
qed

lemma read_n_reads:
  assumes time: "in_time T" and "n \<le> length (unread d)"
  shows "\<exists>d'. read_n T n 5000 d = Some (take n (unread d), d') \<and>
    unread d' = drop n (unread d) \<and> app d' = app d"
proof -
  obtain t0 where t0: "\<And>d. t0 \<le> fst (tty_now T d) \<and> fst (tty_now T d) < t0 + 5000"
    using time unfolding in_time_def by blast
  obtain t d1 where now: "tty_now T d = (t, d1)" by (metis prod.collapse)
  have "fst (tty_now T d2) < t + 5000" for d2 using t0 [of d] t0 [of d2] now by simp
  from read_n_loop_reads [OF _ this, of n "[]" d1] assms(2) link_now [OF now] show ?thesis
    by (simp add: read_n_def now)
qed

lemma py_call_answered:
  assumes time: "in_time T" and h: "handle X P body (app d) = (Some resp, a)" and idle: "unread d = []"
    and len: "length body + 63 \<le> MAX_RX_FRAME" "length resp < 2 ^ 32"
  shows "\<exists>d'. py_call T body d = Some (parse resp, d') \<and> unread d' = [] \<and> app d' = a"
proof -
  let ?d = "tty_write T (framed body) d"
  have pre: "le_bytes4 (length body) = Inr pre \<longleftrightarrow> pre = u32_le (of_nat (length body))" for pre
    using len(1) le_bytes4_eq [of "length body"] by (auto simp: MAX_RX_FRAME_def)
  have w: "unread ?d = framed resp" "app ?d = a" using tty_written [OF len(1) h] idle by simp_all
  obtain d1 where d1: "read_n T 4 5000 ?d = Some (u32_le (of_nat (length resp)), d1)"
    "unread d1 = resp" "app d1 = a"
    using read_n_reads [OF time, of 4 ?d] w by (auto simp: framed_def)
  obtain d2 where d2: "read_n T (length resp) 5000 d1 = Some (resp, d2)" "unread d2 = []" "app d2 = a"
    using read_n_reads [OF time, of "length resp" d1] d1(2,3) by auto
  have "py_call T body d = Some (parse resp, d2)"
    using d1(1) d2(1) pre [of "u32_le (of_nat (length body))"] from_le_bytes_eq [OF len(2)]
    by (simp add: py_call_def framed_def)
  with d2 show ?thesis by blast
qed

text \<open>A list of requests, each answered by the dispatcher.\<close>

lemma py_calls_answered:
  assumes time: "in_time T" and codec: "writes_proto3 X"
    and "answers P reqs a rs a'" and "app d = a" and "unread d = []"
  shows "\<exists>d'. py_calls T (map (encode_fields \<circ> wire_request) reqs) d =
      Some (Inr (map (\<lambda>r. add_fields (wire_response r) Map.empty) rs), d') \<and>
    unread d' = [] \<and> app d' = a'"
  using assms(3-5)
proof (induction arbitrary: d rule: answers.induct)
  case (none a)
  then show ?case by simp
next
  case (request req a r b reqs rs a')
  let ?body = "encode_fields (wire_request req)" and ?resp = "encode_fields (wire_response r)"
  have "handle X P ?body (app d) = (Some ?resp, b)"
    using request.hyps request.prems
    by (simp add: handle_def decode_request_def encode_response_def writes_proto3D [OF codec]
        MAX_RX_FRAME_def MAX_FRAME_LEN_def)
  from py_call_answered [OF time this request.prems(2) request.hyps(3,4)] obtain d1 where
    d1: "py_call T ?body d = Some (parse ?resp, d1)" "unread d1 = []" "app d1 = b" by blast
  from request.IH [OF d1(3,2)] d1(1) show ?case by (auto simp: parse_fields)
qed

end

text \<open>
  The firmware's own loop keeps the promise: here the terminal passes what is written to
  \<open>serve_reads\<close> in packets of 64 bytes, and its clock advances by half a second at every reading, up to
  4.5 seconds.
\<close>

definition loop_tty :: "prost \<Rightarrow> 'c platform \<Rightarrow> (nat \<times> byte list \<times> 'c appliance) tty" where
  "loop_tty X P =
     \<lparr> tty_write = (\<lambda>bs (c, u, a).
         case serve_reads X P (map Some (packets_of bs)) [] a of
           None \<Rightarrow> (c, u, a)
         | Some (out, _, a) \<Rightarrow> (c, u @ concat out, a)),
       tty_ready = (\<lambda>(c, u, a). (u \<noteq> [], (c, u, a))),
       tty_read = (\<lambda>n (c, u, a). (Some (take n u), (c, drop n u, a))),
       tty_now = (\<lambda>(c, u, a). (int (min (500 * c) 4500), (Suc c, u, a))) \<rparr>"

lemma loop_tty_write:
  assumes "length body + 63 \<le> MAX_RX_FRAME" and "handle X P body a = (Some resp, a')"
  shows "tty_write (loop_tty X P) (framed body) (c, u, a) = (c, u @ framed resp, a')"
proof -
  have "serve_reads X P (map Some (packets_of (framed body))) [] a =
      (case serve_frames X P [body] a of None \<Rightarrow> None | Some (out, a') \<Rightarrow> Some (out, [], a'))"
    using assms(1) by (intro serve_whole_stream) (simp_all add: packets_of_ok)
  with assms(2) show ?thesis by (simp add: loop_tty_def framed_def [of resp])
qed

interpretation loop: served_tty "loop_tty X P" X P "fst \<circ> snd" "snd \<circ> snd" for X P
proof unfold_locales
  fix body :: "byte list" and d :: "nat \<times> byte list \<times> 'a appliance" and resp a
  assume "length body + 63 \<le> MAX_RX_FRAME" "handle X P body ((snd \<circ> snd) d) = (Some resp, a)"
  from loop_tty_write [OF this] show
    "(fst \<circ> snd) (tty_write (loop_tty X P) (framed body) d) = (fst \<circ> snd) d @ framed resp \<and>
     (snd \<circ> snd) (tty_write (loop_tty X P) (framed body) d) = a"
    by (cases d) simp
qed (auto simp: loop_tty_def)

lemma loop_in_time: "in_time (loop_tty X P)"
  unfolding in_time_def by (intro exI [of _ 0]) (auto simp: loop_tty_def)

section \<open>The verdict\<close>

text \<open>What the script looks at in a parsed response.\<close>

lemma get_response:
  fixes r :: pb_response
  defines "m \<equiv> add_fields (wire_response r) Map.empty"
  shows "get_int m 2 = VInt (if rs_ok r then 1 else 0)"
    and "get_int m 6 = VInt (unat (rs_active_index r))" and "get_int m 7 = VInt (unat (rs_status r))"
    and "get_bytes m 5 = VBytes (rs_active_root r)"
    and "get_bytes m 4 = VBytes (case rs_release r of None \<Rightarrow> [] | Some x \<Rightarrow> encode_fields (wire_release x))"
  by (auto simp: m_def get_int_def get_bytes_def wire_response_def add_opt_lookup split: option.split)

lemma release_not_Nil: "encode_fields (wire_release (release_to_pb rel)) \<noteq> []"
  by (simp add: wire_release_def release_to_pb_def opt_msg_def bytes_f_def)

lemma short_response:
  assumes "rs_release r = None" and "length (rs_active_root r) \<le> 32"
  shows "length (encode_fields (wire_response r)) < 2 ^ 32"
  using length_wire_response [of r] assms by simp

context reliable_session
begin

text \<open>The seven exchanges of the script, as the dispatcher answers them.\<close>

lemma script_answers:
  assumes "offline_ready live a" and "advances self_transition a" and "live (tropic a) = ENROLL_H0"
    and "act_u (active a) = 0"
  obtains rs1 rs2 b a' where
      "answers (firmware_platform dbg B S) [plain_request OpStatus, prepare_request, plain_request OpStatus,
        plain_request OpCommit, plain_request OpEmit] a rs1 b"
    and "answers (firmware_platform dbg B S) [plain_request OpFinalize, plain_request OpStatus] b rs2 a'"
    and "\<exists>release. get_bytes (last (map (\<lambda>r. add_fields (wire_response r) Map.empty) rs1)) 4 = VBytes release \<and>
      script_ok (map (\<lambda>r. add_fields (wire_response r) Map.empty) (rs1 @ rs2)) release"
    and "act_root (active a') = NEXT_ROOT" and "act_u (active a') = 1" and "act_status (active a') = Ready"
    and "unat (live (tropic a')) = 999"
proof -
  let ?P = "firmware_platform dbg B S"
  obtain a1 a2 rel a3 where r: "prepare ?P self_transition RCHAL a = (Done (), a1)"
      "commit ?P a1 = (Done (), a2)" "emit a2 = Inr rel"
    and st: "act_status (active a1) = Prepared" "act_root (active a3) = NEXT_ROOT" "act_u (active a3) = 1"
      "act_status (active a3) = Ready" "unat (live (tropic a3)) = 999"
    and d: "dispatch ?P prepare_request a = (Some (ok_response (op_number OpPrepare)), a1)"
      "dispatch ?P (plain_request OpCommit) a1 = (Some (ok_response (op_number OpCommit)), a2)"
      "dispatch ?P (plain_request OpEmit) a2 = (Some ((base_response (op_number OpEmit))
         \<lparr>rs_ok := True, rs_release := Some (release_to_pb rel)\<rparr>), a2)"
      "dispatch ?P (plain_request OpFinalize) a2 = (Some ((base_response (op_number OpFinalize))
         \<lparr>rs_ok := True, rs_active_root := bytes_of NEXT_ROOT\<rparr>), a3)"
    by (rule advance_dispatched [OF assms(1-3)])
  let ?emit = "(base_response (op_number OpEmit))\<lparr>rs_ok := True, rs_release := Some (release_to_pb rel)\<rparr>"
  let ?fin = "(base_response (op_number OpFinalize))\<lparr>rs_ok := True, rs_active_root := bytes_of NEXT_ROOT\<rparr>"
  let ?rs1 = "[status_response a, ok_response (op_number OpPrepare), status_response a1,
    ok_response (op_number OpCommit), ?emit]"
  have short: "length (encode_fields (wire_request (plain_request x))) + 63 \<le> MAX_RX_FRAME"
      "length (encode_fields (wire_request prepare_request)) + 63 \<le> MAX_RX_FRAME" for x
    using length_plain_request [of x] length_prepare_request by (simp_all add: MAX_RX_FRAME_def)
  have "release_fits rel"
    using transfer_release_fits [OF _ r self_transition_fits(1)] by (simp add: wots_wire.wire_scheme_axioms)
  then have "length (encode_fields (wire_response ?emit)) \<le> 65700"
    by (intro length_wire_response) (auto simp: response_defs)
  then have e: "length (encode_fields (wire_response ?emit)) < 2 ^ 32" by simp
  have resp: "length (encode_fields (wire_response (status_response x))) < 2 ^ 32"
      "length (encode_fields (wire_response (ok_response n))) < 2 ^ 32"
      "length (encode_fields (wire_response ?fin)) < 2 ^ 32" for x :: "'s appliance" and n
    by (rule short_response; simp add: status_response_def response_defs)+
  show thesis
  proof (rule that [of ?rs1 a2 "[?fin, status_response a3]" a3])
    show "answers ?P [plain_request OpStatus, prepare_request, plain_request OpStatus,
        plain_request OpCommit, plain_request OpEmit] a ?rs1 a2"
      by (rule answers.intros d status_dispatched short resp e)+
    show "answers ?P [plain_request OpFinalize, plain_request OpStatus] a2 [?fin, status_response a3] a3"
      by (rule answers.intros d status_dispatched short resp e)+
    show "\<exists>release. get_bytes (last (map (\<lambda>r. add_fields (wire_response r) Map.empty) ?rs1)) 4 = VBytes release \<and>
        script_ok (map (\<lambda>r. add_fields (wire_response r) Map.empty) (?rs1 @ [?fin, status_response a3])) release"
      using assms(1,4) st release_not_Nil [of rel]
      by (simp add: script_ok_def get_response status_response_def status_code_def offline_ready_def
          response_defs NEXT_ROOT_def)
  qed (use st in simp_all)
qed

end

text \<open>
  C23: the script and the firmware speak the same bytes. Whatever codec prost gives, as long as it
  writes proto3, the script's hand-written requests are the codec's encodings of the firmware's own
  request messages, so that the device decodes them as those, and the script's parser loses
  nothing of any response the device can encode.
\<close>

theorem script_speaks_proto3:
  assumes "writes_proto3 X"
  shows "px_decode_request X prepare_req = Some prepare_request \<and>
    (\<forall>x. x \<noteq> OpUnspecified \<longrightarrow> px_decode_request X (op_req (unat (op_number x))) = Some (plain_request x)) \<and>
    (\<forall>r. \<exists>m. parse (px_encode_response X r) = Inr m \<and> read_response m = r)"
proof (intro conjI allI impI)
  note codec = writes_proto3D [OF assms]
  show "px_decode_request X prepare_req = Some prepare_request"
    using codec(3) [of prepare_request] by (simp only: wire_prepare)
  show "px_decode_request X (op_req (unat (op_number x))) = Some (plain_request x)" if "x \<noteq> OpUnspecified" for x
    using codec(3) [of "plain_request x"] that by (simp add: wire_plain)
  show "\<exists>m. parse (px_encode_response X r) = Inr m \<and> read_response m = r" for r
    by (simp add: codec parse_fields read_response_fields)
qed

theorem script_speaks_proto3_witness:
  "px_decode_request proto3 prepare_req = Some prepare_request \<and>
    px_decode_request proto3 (op_req 5) = Some (plain_request OpStatus)"
  using script_speaks_proto3 [OF proto3_writes] by (metis op_req_status pb_op.distinct(9))

lemma script_passes:
  assumes rs: "reliable_session S live" and boot: "boot_recover dbg B S s = (rec, a)"
    and codec: "writes_proto3 X" and tty: "served_tty T X (firmware_platform dbg B S) unread app"
    and time: "in_time T" and log: "read_until_quiet T 30000 2500 d0 = Some (log, d)"
    and start: "unread d = []" "app d = a"
  shows "\<exists>d'. script_main T d0 = Some (Inr True, d') \<and> unread d' = [] \<and>
    act_root (active (app d')) = NEXT_ROOT \<and> act_u (active (app d')) = 1 \<and>
    act_status (active (app d')) = Ready \<and> live (tropic (app d')) = ENROLL_H0 - 1"
proof -
  let ?P = "firmware_platform dbg B S"
  obtain s' where a: "a = appliance_new s' ENROLL_H0 GENESIS ANCHOR MD_SLOT" "live s' = ENROLL_H0"
    using reliable_session.boot_recover_result [OF rs, of dbg B s] boot by auto
  have ready: "offline_ready live a" "advances self_transition a" "live (tropic a) = ENROLL_H0"
    "act_u (active a) = 0"
    using a by (simp_all add: offline_ready_def advances_def appliance_new_def ENROLL_H0_def self_transition_def)
  obtain rs1 rs2 b a' where ans: "answers ?P [plain_request OpStatus, prepare_request, plain_request OpStatus,
        plain_request OpCommit, plain_request OpEmit] a rs1 b"
      "answers ?P [plain_request OpFinalize, plain_request OpStatus] b rs2 a'"
    and ok: "\<exists>release. get_bytes (last (map (\<lambda>r. add_fields (wire_response r) Map.empty) rs1)) 4 = VBytes release \<and>
      script_ok (map (\<lambda>r. add_fields (wire_response r) Map.empty) (rs1 @ rs2)) release"
    and a': "act_root (active a') = NEXT_ROOT" "act_u (active a') = 1" "act_status (active a') = Ready"
      "unat (live (tropic a')) = 999"
    by (rule reliable_session.script_answers [OF rs ready])
  obtain d1 where d1: "py_calls T [op_req 5, prepare_req, op_req 5, op_req 2, op_req 3] d =
      Some (Inr (map (\<lambda>r. add_fields (wire_response r) Map.empty) rs1), d1)" "unread d1 = []" "app d1 = b"
    using served_tty.py_calls_answered [OF tty time codec ans(1) start(2,1)]
    by (auto simp: wire_plain wire_prepare op_number_def)
  obtain d2 where d2: "py_calls T [op_req 4, op_req 5] d1 =
      Some (Inr (map (\<lambda>r. add_fields (wire_response r) Map.empty) rs2), d2)" "unread d2 = []" "app d2 = a'"
    using served_tty.py_calls_answered [OF tty time codec ans(2) d1(3,2)]
    by (auto simp: wire_plain op_number_def)
  have "script_main T d0 = Some (Inr True, d2)"
    using ok by (auto simp: script_main_def log drive_advance_def d1(1) d2(1) simp del: py_calls.simps)
  moreover have "live (tropic a') = 999" using a'(4) by (simp add: word_unat_eq_iff)
  ultimately show ?thesis using d2(2,3) a'(1-3) by (intro exI [of _ d2]) (simp add: ENROLL_H0_def)
qed

text \<open>
  C13: the host script reports PASS. Over a device with an answering chip that has booted and a
  terminal that carries both directions within the script's deadlines, once the boot log has gone
  quiet the script's seven hand-encoded requests are answered such that its check succeeds, and the
  device is left ready at the next root with index 1 and a counter one lower.
\<close>

theorem host_script_passes:
  assumes rs: "reliable_session S live" and boot: "boot_recover dbg B S s = (rec, a)"
    and codec: "writes_proto3 X" and tty: "served_tty T X (firmware_platform dbg B S) unread app"
    and time: "in_time T" and log: "read_until_quiet T 30000 2500 d0 = Some (log, d)"
    and start: "unread d = []" "app d = a"
  shows "\<exists>d'. script_main T d0 = Some (Inr True, d') \<and> unread d' = [] \<and>
    act_root (active (app d')) = NEXT_ROOT \<and> act_u (active (app d')) = 1 \<and>
    act_status (active (app d')) = Ready \<and> live (tropic (app d')) = ENROLL_H0 - 1"
  using assms by (rule script_passes)

end
