(* ===== verification/Wots_Tests.thy ===== *)
theory Wots_Tests
  imports Wots
begin

text \<open>
  The unit tests of \<open>anchor-core/src/sig.rs\<close> as functions of the hash, and why they pass: the
  first and third for every hash function, the two that expect a rejection unless the hash itself
  collides at named inputs or a chain runs into a short cycle. The lemmas behind them hold of all
  seeds and digests: a signature on a digest is unique, and one cannot be carried over to another
  digest or key.
\<close>

section \<open>The tests\<close>

text \<open>
  A test is the conjunction of its assertions; a signature that panics fails it. \<open>set_byte\<close> is
  the assignment to one element of an array.
\<close>

definition set_byte :: "bytes32 \<Rightarrow> nat \<Rightarrow> byte \<Rightarrow> bytes32" where
  "set_byte d i b = to_bytes32 ((bytes_of d)[i := b])"

definition test_digest :: "blake3 \<Rightarrow> string \<Rightarrow> bytes32" where
  "test_digest B msg = hash_h B ''test/digest'' [as_bytes msg]"

definition sign_verify_roundtrip :: "blake3 \<Rightarrow> bool" where
  "sign_verify_roundtrip B =
     (let seed = fill32 7;
          (sk, pk) = wots_keygen B seed;
          d = test_digest B ''hello''
      in sk = bytes_of seed \<and> length pk = 32 \<and>
         (case wots_sign B sk d of
            None \<Rightarrow> False
          | Some sig \<Rightarrow> length sig = SIG_LEN \<and> wots_verify B pk d sig))"

definition rejects_wrong_digest_tampered_sig_and_pk :: "blake3 \<Rightarrow> bool" where
  "rejects_wrong_digest_tampered_sig_and_pk B =
     (let seed = fill32 9;
          (sk, pk) = wots_keygen B seed;
          d = test_digest B ''msg''
      in case wots_sign B sk d of
           None \<Rightarrow> False
         | Some sig \<Rightarrow>
             (let d2 = test_digest B ''other'';
                  sig_bad = sig[0 := sig ! 0 XOR 0xFF];
                  pk2 = snd (wots_keygen B (fill32 10))
              in \<not> wots_verify B pk d2 sig \<and>
                 \<not> wots_verify B pk d sig_bad \<and>
                 \<not> wots_verify B pk2 d sig \<and>
                 \<not> wots_verify B pk d (take (SIG_LEN - 1) sig) \<and>
                 \<not> wots_verify B (replicate 31 0) d sig))"

definition deterministic_from_seed :: "blake3 \<Rightarrow> bool" where
  "deterministic_from_seed B =
     (let seed = fill32 3;
          pk_a = snd (wots_keygen B seed);
          pk_b = snd (wots_keygen B seed);
          d = test_digest B ''x''
      in pk_a = pk_b \<and>
         (case (wots_sign B (bytes_of seed) d, wots_sign B (bytes_of seed) d) of
            (Some sig_a, Some sig_b) \<Rightarrow> sig_a = sig_b
          | _ \<Rightarrow> False))"

text \<open>
  The forgery advances the first chain of a signature by one step and claims a digest whose first
  digit is one higher.
\<close>

definition forge_first_chain :: "blake3 \<Rightarrow> byte list \<Rightarrow> byte list" where
  "forge_first_chain B sig = bytes_of (chain B (to_bytes32 (take WOTS_N sig)) 1) @ drop WOTS_N sig"

definition forged_digest :: "bytes32 \<Rightarrow> bytes32" where
  "forged_digest d =
     set_byte d 0 ((bytes_of d ! 0 AND 0x0f) OR push_bit 4 (drop_bit 4 (bytes_of d ! 0) + 1))"

definition forgery_to_a_higher_digit_is_rejected :: "blake3 \<Rightarrow> bool" where
  "forgery_to_a_higher_digit_is_rejected B =
     (let seed = fill32 1;
          pk = snd (wots_keygen B seed);
          d = test_digest B ''forge'';
          d = set_byte d 0 (bytes_of d ! 0 AND 0x0f)
      in case wots_sign B (bytes_of seed) d of
           None \<Rightarrow> False
         | Some sig \<Rightarrow> \<not> wots_verify B pk (forged_digest d) (forge_first_chain B sig))"

section \<open>One signature for one digest\<close>

lemma sig_chunks_inject:
  assumes len: "length sig = 2144" "length sig' = 2144"
    and eq: "\<forall>i < 67. sig_chunk sig i = sig_chunk sig' i"
  shows "sig = sig'"
proof (rule nth_equalityI)
  show "length sig = length sig'" using len by simp
  fix n
  assume "n < length sig"
  then have i: "n div 32 < 67" and n: "n = n div 32 * 32 + n mod 32"
    using len by (simp_all add: less_mult_imp_div_less)
  have chunk: "bytes_of (sig_chunk s (n div 32)) ! (n mod 32) = s ! n" if "length s = 2144" for s
  proof -
    have "n div 32 * 32 + 32 \<le> 2144" using i by linarith
    with that have "bytes_of (sig_chunk s (n div 32)) ! (n mod 32) = s ! (n div 32 * 32 + n mod 32)"
      by (simp add: sig_chunk_def wots_params)
    then show ?thesis by (simp only: n [symmetric])
  qed
  from eq i have "sig_chunk sig (n div 32) = sig_chunk sig' (n div 32)" by blast
  then show "sig ! n = sig' ! n" using chunk [OF len(1)] chunk [OF len(2)] by metis
qed

definition second_signature_collides :: "blake3 \<Rightarrow> bytes32 \<Rightarrow> byte list \<Rightarrow> byte list \<Rightarrow> bool" where
  "second_signature_collides B d sig sig' \<longleftrightarrow>
     collides B (pk_input (recomputed_tops B d sig')) (pk_input (recomputed_tops B d sig)) \<or>
     (\<exists>i < 67. \<exists>k < 15 - unat (digits d ! i).
        collides B (chain_input (chain_loop B (sig_chunk sig' i) k))
                   (chain_input (chain_loop B (sig_chunk sig i) k)))"

lemma same_digest_collides:
  assumes v: "wots_verify B pk d sig" and v': "wots_verify B pk d sig'"
  shows "sig' = sig \<or> second_signature_collides B d sig sig'"
proof (rule disjCI, rule ccontr)
  assume none: "\<not> second_signature_collides B d sig sig'" and "sig' \<noteq> sig"
  have tops: "recomputed_tops B d sig' = recomputed_tops B d sig"
    using same_key_tops [OF v v'] none by (auto simp: second_signature_collides_def)
  have "sig_chunk sig' i = sig_chunk sig i" if i: "i < 67" for i
  proof -
    have "chain_loop B (sig_chunk sig' i) (15 - unat (digits d ! i))
        = chain_loop B (sig_chunk sig i) (15 - unat (digits d ! i))"
      using tops i by (metis recomputed_tops_nth)
    from chain_loop_collides [OF this] none i show ?thesis
      by (auto simp: second_signature_collides_def)
  qed
  with sig_chunks_inject have "sig' = sig"
    using wots_verify_tops [OF v] wots_verify_tops [OF v'] by blast
  with \<open>sig' \<noteq> sig\<close> show False ..
qed

section \<open>A signature carried over to another digest\<close>

text \<open>
  Where the values of the two signatures on the lowered chains are the same, the value that the
  first digest needs is reached from itself: the chain has a cycle.
\<close>

definition chain_cycle :: "blake3 \<Rightarrow> bytes32 \<Rightarrow> nat \<Rightarrow> bool" where
  "chain_cycle B x n \<longleftrightarrow> 0 < n \<and> n < 16 \<and> chain_loop B x n = x"

definition carry_over_breaks :: "blake3 \<Rightarrow> bytes32 \<Rightarrow> byte list \<Rightarrow> bytes32 \<Rightarrow> byte list \<Rightarrow> bool" where
  "carry_over_breaks B d sig d' sig' \<longleftrightarrow>
     collides B (pk_input (recomputed_tops B d' sig')) (pk_input (recomputed_tops B d sig)) \<or>
     (\<exists>i < 67. let n = unat (digits d ! i) - unat (digits d' ! i); x = sig_chunk sig i in
        chain_cycle B x n \<or>
        (\<exists>k < 15 - unat (digits d ! i).
           collides B (chain_input (chain_loop B x (n + k))) (chain_input (chain_loop B x k))))"

lemma carry_over:
  assumes v: "wots_verify B pk d sig" and v': "wots_verify B pk d' sig'" and ne: "d \<noteq> d'"
    and same: "\<forall>i < 67. unat (digits d' ! i) < unat (digits d ! i) \<longrightarrow>
      sig_chunk sig' i = sig_chunk sig i"
  shows "carry_over_breaks B d sig d' sig'"
  using two_digests_give_away [OF v v' ne]
proof
  assume "collides B (pk_input (recomputed_tops B d' sig')) (pk_input (recomputed_tops B d sig))"
  then show ?thesis by (simp add: carry_over_breaks_def)
next
  assume "\<exists>i < 67. unat (digits d' ! i) < unat (digits d ! i) \<and>
       (let earlier = chain_loop B (sig_chunk sig' i) (unat (digits d ! i) - unat (digits d' ! i))
        in earlier = sig_chunk sig i \<or>
           (\<exists>k < 15 - unat (digits d ! i).
              collides B (chain_input (chain_loop B earlier k))
                         (chain_input (chain_loop B (sig_chunk sig i) k))))"
  then obtain i where i: "i < 67" and less: "unat (digits d' ! i) < unat (digits d ! i)"
    and given: "let earlier = chain_loop B (sig_chunk sig' i) (unat (digits d ! i) - unat (digits d' ! i))
        in earlier = sig_chunk sig i \<or>
           (\<exists>k < 15 - unat (digits d ! i).
              collides B (chain_input (chain_loop B earlier k))
                         (chain_input (chain_loop B (sig_chunk sig i) k)))"
    by blast
  have chunk: "sig_chunk sig' i = sig_chunk sig i" using same i less by blast
  have "0 < unat (digits d ! i) - unat (digits d' ! i)"
      and "unat (digits d ! i) - unat (digits d' ! i) < 16"
    using less digit_bound [OF i, of d] by linarith+
  with given i show ?thesis
    unfolding carry_over_breaks_def chain_cycle_def Let_def chunk chain_loop_add by blast
qed

section \<open>Keys of different seeds\<close>

definition key_tops :: "blake3 \<Rightarrow> bytes32 \<Rightarrow> bytes32 list" where
  "key_tops B seed = map (\<lambda>i. chain_loop B (chain_secret B seed i) 15) [0..<67]"

definition key_input :: "nat \<Rightarrow> byte list" where
  "key_input i = hasher_input WOTS_SK_V1 [u16_le (of_nat i)]"

definition same_key_breaks :: "blake3 \<Rightarrow> bytes32 \<Rightarrow> bytes32 \<Rightarrow> bool" where
  "same_key_breaks B seed seed' \<longleftrightarrow>
     collides B (pk_input (key_tops B seed)) (pk_input (key_tops B seed')) \<or>
     (\<forall>i < 67. b3_keyed B seed (key_input i) = b3_keyed B seed' (key_input i) \<or>
        (\<exists>k < 15. collides B (chain_input (chain_loop B (chain_secret B seed i) k))
                            (chain_input (chain_loop B (chain_secret B seed' i) k))))"

lemma wots_keygen_tops: "wots_keygen B seed = (bytes_of seed, bytes_of (compress B (key_tops B seed)))"
  by (simp add: wots_keygen_def key_tops_def wots_params chain_def)

lemma same_key:
  assumes "snd (wots_keygen B seed) = snd (wots_keygen B seed')"
  shows "same_key_breaks B seed seed'"
proof -
  have "compress B (key_tops B seed) = compress B (key_tops B seed')"
    using assms by (simp add: wots_keygen_tops)
  from compress_collides [OF this]
  consider "key_tops B seed = key_tops B seed'"
    | "collides B (pk_input (key_tops B seed)) (pk_input (key_tops B seed'))"
    by (auto simp: key_tops_def)
  then show ?thesis
  proof cases
    case 1
    have "b3_keyed B seed (key_input i) = b3_keyed B seed' (key_input i) \<or>
        (\<exists>k < 15. collides B (chain_input (chain_loop B (chain_secret B seed i) k))
                            (chain_input (chain_loop B (chain_secret B seed' i) k)))"
      if i: "i < 67" for i
    proof -
      have "key_tops B s ! i = chain_loop B (chain_secret B s i) 15" for s
        using i by (simp add: key_tops_def)
      with 1 have "chain_loop B (chain_secret B seed i) 15 = chain_loop B (chain_secret B seed' i) 15"
        by metis
      from chain_loop_collides [OF this] show ?thesis
        by (auto simp: chain_secret_def kdf_def key_input_def)
    qed
    then show ?thesis by (simp add: same_key_breaks_def)
  next
    case 2
    then show ?thesis by (simp add: same_key_breaks_def)
  qed
qed

section \<open>The tests pass\<close>

lemma bytes_of_set_byte [simp]: "bytes_of (set_byte d i b) = (bytes_of d)[i := b]"
  by (simp add: set_byte_def)

lemma sign_seed:
  obtains sig where "wots_sign B (bytes_of seed) d = Some sig" and "length sig = 2144"
    and "wots_verify B (snd (wots_keygen B seed)) d sig"
  using wots.sign_total [of B seed d] wots_sign_verify [of B seed d] wots_sign_length
  by (fastforce simp: wots_keygen_tops)

lemma xor_ff_changes: "(b :: byte) XOR 0xFF \<noteq> b"
proof
  assume "b XOR 0xFF = b"
  then have "b XOR (b XOR 0xFF) = b XOR b" by simp
  then show False by (simp add: xor.assoc [symmetric])
qed

lemma roundtrip_passes: "sign_verify_roundtrip B"
proof -
  obtain sig where "wots_sign B (bytes_of (fill32 7)) (test_digest B ''hello'') = Some sig"
    and "length sig = 2144"
    and "wots_verify B (snd (wots_keygen B (fill32 7))) (test_digest B ''hello'') sig"
    by (rule sign_seed)
  then show ?thesis
    by (simp add: sign_verify_roundtrip_def Let_def wots_keygen_tops wots_params)
qed

lemma deterministic_passes: "deterministic_from_seed B"
proof -
  obtain sig where "wots_sign B (bytes_of (fill32 3)) (test_digest B ''x'') = Some sig"
    by (rule sign_seed)
  then show ?thesis by (simp add: deterministic_from_seed_def)
qed

lemma test_digest_collides:
  "test_digest B m = test_digest B m' \<Longrightarrow> as_bytes m = as_bytes m' \<or>
     collides B (hasher_input ''test/digest'' [as_bytes m]) (hasher_input ''test/digest'' [as_bytes m'])"
  by (auto simp: test_digest_def hasher_input_eq dest: hash_h_eq_collides)

text \<open>What the hash would have to do for the second test to fail.\<close>

definition rejection_breaks :: "blake3 \<Rightarrow> bool" where
  "rejection_breaks B =
     (let d = test_digest B ''msg''; d2 = test_digest B ''other'';
          sig = the (wots_sign B (bytes_of (fill32 9)) d)
      in collides B (hasher_input ''test/digest'' [as_bytes ''msg''])
           (hasher_input ''test/digest'' [as_bytes ''other'']) \<or>
         carry_over_breaks B d sig d2 sig \<or>
         second_signature_collides B d sig (sig[0 := sig ! 0 XOR 0xFF]) \<or>
         same_key_breaks B (fill32 9) (fill32 10))"

lemma rejection_passes: "rejects_wrong_digest_tampered_sig_and_pk B \<or> rejection_breaks B"
proof (rule disjCI)
  assume none: "\<not> rejection_breaks B"
  let ?d = "test_digest B ''msg''" and ?d2 = "test_digest B ''other''"
  let ?pk = "snd (wots_keygen B (fill32 9))" and ?pk2 = "snd (wots_keygen B (fill32 10))"
  obtain sig where sig: "wots_sign B (bytes_of (fill32 9)) ?d = Some sig" and len: "length sig = 2144"
    and ok: "wots_verify B ?pk ?d sig"
    by (rule sign_seed)
  let ?bad = "sig[0 := sig ! 0 XOR 0xFF]"
  from none sig have safe:
      "\<not> collides B (hasher_input ''test/digest'' [as_bytes ''msg''])
           (hasher_input ''test/digest'' [as_bytes ''other''])"
      "\<not> carry_over_breaks B ?d sig ?d2 sig" "\<not> second_signature_collides B ?d sig ?bad"
      "\<not> same_key_breaks B (fill32 9) (fill32 10)"
    by (auto simp: rejection_breaks_def Let_def)
  have "as_bytes ''msg'' \<noteq> as_bytes ''other''" by code_simp
  with test_digest_collides [of B "''msg''" "''other''"] safe(1) have ne: "?d \<noteq> ?d2" by blast
  have "\<not> wots_verify B ?pk ?d2 sig"
    using carry_over [OF ok _ ne] safe(2) by blast
  moreover have "\<not> wots_verify B ?pk ?d ?bad"
  proof
    assume "wots_verify B ?pk ?d ?bad"
    from same_digest_collides [OF ok this] safe(3) have "?bad ! 0 = sig ! 0" by simp
    with len xor_ff_changes [of "sig ! 0"] show False by simp
  qed
  moreover have "\<not> wots_verify B ?pk2 ?d sig"
  proof
    assume "wots_verify B ?pk2 ?d sig"
    then have "?pk = ?pk2" using wots_verify_tops ok by metis
    with same_key [of B "fill32 9" "fill32 10"] safe(4) show False by blast
  qed
  ultimately show "rejects_wrong_digest_tampered_sig_and_pk B"
    using sig len
    by (auto simp: rejects_wrong_digest_tampered_sig_and_pk_def Let_def wots_keygen_tops
        wots_verify_def SIG_LEN_def WOTS_LEN_def WOTS_N_def LEN1_def LEN2_def)
qed

definition forgery_breaks :: "blake3 \<Rightarrow> bool" where
  "forgery_breaks B =
     (let d = test_digest B ''forge''; d = set_byte d 0 (bytes_of d ! 0 AND 0x0f);
          sig = the (wots_sign B (bytes_of (fill32 1)) d)
      in carry_over_breaks B d sig (forged_digest d) (forge_first_chain B sig))"

lemma forged_digits:
  assumes hi: "drop_bit 4 (bytes_of d ! 0) = 0"
  shows "unat (digits d ! 0) = 0" and "unat (digits (forged_digest d) ! 0) = 1"
proof -
  show "unat (digits d ! 0) = 0" using hi digits_nibbles(1) [of 0 d] nibble_hi [of "bytes_of d ! 0"] by simp
  have "drop_bit 4 ((b AND 0x0f) OR push_bit 4 1) = (1 :: byte)" for b
    by (rule bit_word_eqI) (auto simp: bit_simps)
  then show "unat (digits (forged_digest d) ! 0) = 1"
    using hi digits_nibbles(1) [of 0 "forged_digest d"] nibble_hi [of "bytes_of (forged_digest d) ! 0"]
    by (simp add: forged_digest_def)
qed

lemma forge_first_chain_chunk:
  assumes "0 < i" and "i < 67" and "length sig = 2144"
  shows "sig_chunk (forge_first_chain B sig) i = sig_chunk sig i"
proof -
  obtain j where "i = Suc j" using assms(1) by (cases i) auto
  with assms show ?thesis by (simp add: sig_chunk_def forge_first_chain_def wots_params add.commute)
qed

lemma forgery_fails:
  assumes hi: "drop_bit 4 (bytes_of d ! 0) = 0" and len: "length sig = 2144"
    and ok: "wots_verify B pk d sig"
    and forged: "wots_verify B pk (forged_digest d) (forge_first_chain B sig)"
  shows "carry_over_breaks B d sig (forged_digest d) (forge_first_chain B sig)"
proof (rule carry_over [OF ok forged])
  show "d \<noteq> forged_digest d" using forged_digits [OF hi] by (metis zero_neq_one)
  show "\<forall>i < 67. unat (digits (forged_digest d) ! i) < unat (digits d ! i) \<longrightarrow>
      sig_chunk (forge_first_chain B sig) i = sig_chunk sig i"
    using forge_first_chain_chunk [OF _ _ len] forged_digits [OF hi] by (metis gr0I not_less_zero)
qed

lemma forgery_passes: "forgery_to_a_higher_digit_is_rejected B \<or> forgery_breaks B"
proof -
  define d where "d = set_byte (test_digest B ''forge'') 0 (bytes_of (test_digest B ''forge'') ! 0 AND 0x0f)"
  have "bytes_of d ! 0 = bytes_of (test_digest B ''forge'') ! 0 AND 0x0f"
    by (simp add: d_def)
  then have hi: "drop_bit 4 (bytes_of d ! 0) = 0" by simp
  obtain sig where sig: "wots_sign B (bytes_of (fill32 1)) d = Some sig" and len: "length sig = 2144"
    and ok: "wots_verify B (snd (wots_keygen B (fill32 1))) d sig"
    by (rule sign_seed)
  from forgery_fails [OF hi len ok] sig show ?thesis
    by (auto simp: forgery_to_a_higher_digit_is_rejected_def forgery_breaks_def Let_def
        simp flip: d_def)
qed

section \<open>Properties\<close>

text \<open>
  C26: nobody can change a signature. Two signatures that verify under one key on one digest are
  the same bytes, or they exhibit a collision: of the compressing hash at their recomputed chain
  tops, or of the chain step at a named chain and position above the digit of the digest.
\<close>

theorem one_signature_per_digest:
  assumes "wots_verify B pk d sig" and "wots_verify B pk d sig'"
  shows "sig' = sig \<or>
     collides B (pk_input (recomputed_tops B d sig')) (pk_input (recomputed_tops B d sig)) \<or>
     (\<exists>i < 67. \<exists>k < 15 - unat (digits d ! i).
        collides B (chain_input (chain_loop B (sig_chunk sig' i) k))
                   (chain_input (chain_loop B (sig_chunk sig i) k)))"
  using same_digest_collides [OF assms] by (simp only: second_signature_collides_def)

theorem one_signature_per_digest_witness:
  "\<exists>sig. wots_verify sample_blake3 (snd (wots_keygen sample_blake3 (fill32 7))) (fill32 1) sig \<and>
     (\<forall>sig'. sig' = sig \<or>
        \<not> wots_verify sample_blake3 (snd (wots_keygen sample_blake3 (fill32 7))) (fill32 1) sig' \<or>
        second_signature_collides sample_blake3 (fill32 1) sig sig')"
proof -
  obtain sig where "wots_verify sample_blake3 (snd (wots_keygen sample_blake3 (fill32 7))) (fill32 1) sig"
    by (rule sign_seed)
  then show ?thesis
    using one_signature_per_digest [of sample_blake3 _ "fill32 1" sig]
    by (fastforce simp: second_signature_collides_def)
qed

text \<open>
  The unit tests of the signature pass. Whatever the hash function is, the tests of signing,
  verifying and determinism pass; the test of rejected digests, signatures and keys and the test
  of the forged digit pass too unless BLAKE3 does something at inputs that the test determines: a
  collision of two named inputs, a chain that returns to a revealed value in fewer than 16 steps,
  or, on every one of the 67 chains, equal secrets of two seeds or a collision of the chain step.
\<close>

lemma sig_tests_pass:
  "sign_verify_roundtrip B \<and> deterministic_from_seed B \<and>
   (rejects_wrong_digest_tampered_sig_and_pk B \<or> rejection_breaks B) \<and>
   (forgery_to_a_higher_digit_is_rejected B \<or> forgery_breaks B)"
  using roundtrip_passes deterministic_passes rejection_passes forgery_passes by blast

end
