(* ===== verification/Host_Tests.thy ===== *)
theory Host_Tests
  imports Host_Script_Properties Wots_Tests
begin

text \<open>
  The end-to-end tests of \<open>anchor-core/tests/integration.rs\<close> on the model, for every hash function
  and in debug and release builds. A test is the conjunction of its assertions; an \<open>unwrap\<close> of an
  error or a panic fails it.
\<close>

section \<open>Unwrapping\<close>

definition then_done :: "('e, 'a) outcome \<times> 's \<Rightarrow> ('s \<Rightarrow> bool) \<Rightarrow> bool" where
  "then_done r k = (case r of (Done _, s) \<Rightarrow> k s | _ \<Rightarrow> False)"

definition then_ok :: "'e + 'a \<Rightarrow> ('a \<Rightarrow> bool) \<Rightarrow> bool" where
  "then_ok r k = (case r of Inr v \<Rightarrow> k v | Inl _ \<Rightarrow> False)"

lemma then_simps [simp]:
  "then_done (Done x, s) k = k s" "then_done (Fail e, s) k = False" "then_done (Panic, s) k = False"
  "then_ok (Inr v) k' = k' v" "then_ok (Inl e) k' = False"
  by (simp_all add: then_done_def then_ok_def)

section \<open>The stand-in chip\<close>

abbreviation chip_at :: "u32 \<Rightarrow> mock_tropic" where
  "chip_at h \<equiv> \<lparr> mock_h = h, mock_secret = fill32 0xC0 \<rparr>"

lemma mock_live_index:
  "live_index (mock_platform dbg B) a =
     (case checked_sub (h0 a) (mock_h (tropic a)) of
        None \<Rightarrow> (Inl CounterMismatch, a)
      | Some u \<Rightarrow> (Inr (ucast u), a))"
  by (simp add: live_index_def mock_ops_def split: option.split)

text \<open>A state with a prepared transfer, and with its committed release.\<close>

definition prepared_state :: "prepared_record \<Rightarrow> 'c appliance \<Rightarrow> 'c appliance" where
  "prepared_state p a =
     a\<lparr>active := (active a)\<lparr>act_status := Prepared, act_record := RPrepared p\<rparr>\<rparr>"

definition committed_state ::
    "prepared_record \<Rightarrow> byte list \<Rightarrow> mock_tropic appliance \<Rightarrow> mock_tropic appliance" where
  "committed_state p sigma a =
     a\<lparr>tropic := (tropic a)\<lparr>mock_h := mock_h (tropic a) - 1\<rparr>,
       active := (active a)
         \<lparr>act_status := Committed,
          act_record := RCommitted ((candidate a p sigma (mock_h (tropic a)))\<lparr>cr_committed := True\<rparr>),
          act_u := next_anchor_counter (p_txn p)\<rparr>\<rparr>"

definition mock_prepared ::
    "bool \<Rightarrow> blake3 \<Rightarrow> mock_tropic appliance \<Rightarrow> transition \<Rightarrow> bytes32 \<Rightarrow> prepared_record" where
  "mock_prepared dbg B a t rc = prepared_for (mock_platform dbg B) a t rc
     (mock_mac B (mock_secret (tropic a)) (slot a)
       (witness_input B t (transition_digest B t) (anchor_id a) (slot a) rc))"

lemma p_txn_mock_prepared [simp]: "p_txn (mock_prepared dbg B a t rc) = t"
  by (simp add: mock_prepared_def)

lemma p_sk_hw_mock_prepared [simp]: "p_sk_hw (mock_prepared dbg B a t rc) \<noteq> []"
proof -
  obtain seed where "p_sk_hw (mock_prepared dbg B a t rc) = fst (wots_keygen B seed)"
    using prepared_for_keys [of "mock_platform dbg B" a t rc] by (auto simp: mock_prepared_def)
  with wots_keygen_lengths(1) [of B seed] show ?thesis by auto
qed

lemma mock_prepare:
  assumes "act_status (active a) = Ready" and "prev_root t = act_root (active a)"
    and "anchor_counter t = act_u (active a)" and "unat (next_anchor_counter t) = unat (anchor_counter t) + 1"
    and index: "unat (h0 a) = unat (mock_h (tropic a)) + unat (act_u (active a))"
    and "dbg \<longrightarrow> enc_fits t"
  shows "prepare (mock_platform dbg B) t rc a = (Done (), prepared_state (mock_prepared dbg B a t rc) a)"
proof -
  have "plus_u64 dbg (act_u (active a)) 1 = Some (next_anchor_counter t)"
    using assms(3,4) by (intro plus_u64_succ) simp
  moreover obtain u where "checked_sub (h0 a) (mock_h (tropic a)) = Some u" "ucast u = act_u (active a)"
    using u32_index_iff [of "h0 a" "mock_h (tropic a)" "act_u (active a)"] index by blast
  ultimately show ?thesis
    using assms
    by (auto simp: prepare_def mock_live_index mock_ops_def prepared_state_def mock_prepared_def
        prepared_for_def Let_def split: prod.split)
qed

lemma mock_commit:
  assumes rec: "act_record (active a) = RPrepared p" and p: "p = mock_prepared dbg B a0 t rc"
    and "prev_root t = act_root (active a)" and "mock_h (tropic a) \<noteq> 0"
    and index: "unat (h0 a) = unat (mock_h (tropic a)) + unat (anchor_counter t)"
  obtains sigma where "commit (mock_platform dbg B) a = (Done (), committed_state p sigma a)"
    and "wots_verify B (p_pk_hw p) (p_cert_message p) sigma" and "length sigma = 2144"
proof -
  obtain seed where sk: "p_sk_hw p = fst (wots_keygen B seed)" "p_pk_hw p = snd (wots_keygen B seed)"
    using prepared_for_keys [of "mock_platform dbg B" a0 t rc] by (auto simp: p mock_prepared_def)
  obtain sigma where s: "wots_sign B (p_sk_hw p) (p_cert_message p) = Some sigma"
    "wots_verify B (p_pk_hw p) (p_cert_message p) sigma" "length sigma = 2144"
    unfolding sk wots_keygen_tops fst_conv by (rule sign_seed [of B seed "p_cert_message p"]) (simp add: wots_keygen_tops)
  have ready: "commit_ready (mock_platform dbg B) a p (mock_h (tropic a)) (tropic a) sigma"
    using assms(3,4) index rec s(1) by (simp add: commit_ready_def mock_ops_def p)
  have "counter_update (pf_tropic (mock_platform dbg B)) (tropic a)
      = (Inr (), (tropic a)\<lparr>mock_h := mock_h (tropic a) - 1\<rparr>)"
    using assms(4) by (simp add: mock_ops_def)
  from commit_of_ready [OF ready this] have "commit (mock_platform dbg B) a = (Done (), committed_state p sigma a)"
    by (simp add: committed_state_def mark_committed_def store_candidate_def)
  then show thesis using s(2,3) by (rule that)
qed

section \<open>The three-state lifecycle\<close>

abbreviation ROOT0 :: bytes32 where "ROOT0 \<equiv> fill32 0x11"
abbreviation ROOT1 :: bytes32 where "ROOT1 \<equiv> fill32 0x22"
abbreviation test_rchal :: bytes32 where "test_rchal \<equiv> fill32 0x55"

definition full_lifecycle_prepare_commit_emit_finalize :: "bool \<Rightarrow> blake3 \<Rightarrow> bool" where
  "full_lifecycle_prepare_commit_emit_finalize dbg B =
     (let P = mock_platform dbg B; t = test_transition ROOT0 ROOT1 0 in
      then_done (prepare P t test_rchal (test_appliance 100)) (\<lambda>a.
        act_status (active a) = Prepared \<and> act_root (active a) = ROOT0 \<and>
      then_done (commit P a) (\<lambda>a.
        act_status (active a) = Committed \<and> act_u (active a) = 1 \<and> act_root (active a) = ROOT0 \<and>
      then_ok (emit a) (\<lambda>rel.
        c_next_root (rel_cert rel) = ROOT1 \<and> c_next_anchor_counter (rel_cert rel) = 1 \<and>
      (case finalize P a of (r, a) \<Rightarrow>
        r = Inr ROOT1 \<and> act_root (active a) = ROOT1 \<and> act_u (active a) = 1 \<and>
        act_status (active a) = Ready)))))"

definition two_sequential_transfers :: "bool \<Rightarrow> blake3 \<Rightarrow> bool" where
  "two_sequential_transfers dbg B =
     (let P = mock_platform dbg B; root2 = fill32 0x77 in
      then_done (prepare P (test_transition ROOT0 ROOT1 0) test_rchal (test_appliance 100)) (\<lambda>a.
      then_done (commit P a) (\<lambda>a.
      case finalize P a of (r, a) \<Rightarrow> then_ok r (\<lambda>_.
      then_done (prepare P (test_transition ROOT1 root2 1) test_rchal a) (\<lambda>a.
      then_done (commit P a) (\<lambda>a.
        act_u (active a) = 2 \<and> fst (finalize P a) = Inr root2))))))"

definition prepare_twice_is_rejected :: "bool \<Rightarrow> blake3 \<Rightarrow> bool" where
  "prepare_twice_is_rejected dbg B =
     (let P = mock_platform dbg B; t = test_transition ROOT0 ROOT1 0 in
      then_done (prepare P t test_rchal (test_appliance 100)) (\<lambda>a.
        fst (prepare P t test_rchal a) = Fail WrongState))"

definition commit_without_prepare_is_rejected :: "bool \<Rightarrow> blake3 \<Rightarrow> bool" where
  "commit_without_prepare_is_rejected dbg B =
     (fst (commit (mock_platform dbg B) (test_appliance 100)) = Fail WrongState)"

definition emit_without_commit_is_rejected :: bool where
  "emit_without_commit_is_rejected = (emit (test_appliance 100) = Inl NotCommitted)"

definition prepare_rejects_wrong_parent_and_bad_index :: "bool \<Rightarrow> blake3 \<Rightarrow> bool" where
  "prepare_rejects_wrong_parent_and_bad_index dbg B =
     (let P = mock_platform dbg B;
          (r, a) = prepare P (test_transition (fill32 0xEE) ROOT1 0) test_rchal (test_appliance 100);
          skip = (test_transition ROOT0 ROOT1 0)\<lparr>next_anchor_counter := 5\<rparr>
      in r = Fail PrevRootMismatch \<and> fst (prepare P skip test_rchal a) = Fail IndexMismatch)"

definition cancel_returns_to_ready_and_clears_record :: "bool \<Rightarrow> blake3 \<Rightarrow> bool" where
  "cancel_returns_to_ready_and_clears_record dbg B =
     then_done (prepare (mock_platform dbg B) (test_transition ROOT0 ROOT1 0) test_rchal (test_appliance 100)) (\<lambda>a.
       case cancel a of (r, a) \<Rightarrow> r = Inr () \<and> act_status (active a) = Ready \<and>
         act_record (active a) = REmpty \<and> fst (cancel a) = Inl WrongState)"

definition commit_on_exhausted_counter_exports_nothing :: "bool \<Rightarrow> blake3 \<Rightarrow> bool" where
  "commit_on_exhausted_counter_exports_nothing dbg B =
     (let P = mock_platform dbg B;
          a = test_appliance 0;
          a = a\<lparr>active := (active a)\<lparr>act_u := 100\<rparr>\<rparr>
      in then_done (prepare P (test_transition ROOT0 ROOT1 100) test_rchal a) (\<lambda>a.
         case commit P a of (r, a) \<Rightarrow> r = Fail CounterExhausted \<and> emit a = Inl NotCommitted))"

text \<open>What the tests start from: the first transfer, up to each of its states.\<close>

abbreviation first_prepared :: "bool \<Rightarrow> blake3 \<Rightarrow> prepared_record" where
  "first_prepared dbg B \<equiv> mock_prepared dbg B (test_appliance 100) (test_transition ROOT0 ROOT1 0) test_rchal"

lemma test_appliance_fields [simp]:
  "h0 (test_appliance h) = 100" "anchor_id (test_appliance h) = fill32 0xAA" "slot (test_appliance h) = 1"
  "tropic (test_appliance h) = chip_at h" "\<not> firmware_boundary_invalid (test_appliance h)"
  "\<not> rmemory_map_invalid (test_appliance h)"
  "active (test_appliance h) = \<lparr> act_root = ROOT0, act_u = 0, act_status = Ready, act_record = REmpty \<rparr>"
  by (simp_all add: test_appliance_def appliance_new_def)

lemma test_transition_fields [simp]:
  "prev_root (test_transition g h u) = g" "next_root (test_transition g h u) = h"
  "anchor_counter (test_transition g h u) = u" "next_anchor_counter (test_transition g h u) = u + 1"
  "authority_policy_hash (test_transition g h u) = fill32 0x33"
  by (simp_all add: test_transition_def)

lemma state_fields [simp]:
  "active (prepared_state p a) = (active a)\<lparr>act_status := Prepared, act_record := RPrepared p\<rparr>"
  "h0 (prepared_state p a) = h0 a" "anchor_id (prepared_state p a) = anchor_id a"
  "slot (prepared_state p a) = slot a" "tropic (prepared_state p a) = tropic a"
  "firmware_boundary_invalid (prepared_state p a) = firmware_boundary_invalid a"
  "rmemory_map_invalid (prepared_state p a) = rmemory_map_invalid a"
  "h0 (committed_state p sigma c) = h0 c"
  "tropic (committed_state p sigma c) = (tropic c)\<lparr>mock_h := mock_h (tropic c) - 1\<rparr>"
  "active (committed_state p sigma c) = (active c)
     \<lparr>act_status := Committed,
      act_record := RCommitted ((candidate c p sigma (mock_h (tropic c)))\<lparr>cr_committed := True\<rparr>),
      act_u := next_anchor_counter (p_txn p)\<rparr>"
  "firmware_boundary_invalid (committed_state p sigma c) = firmware_boundary_invalid c"
  "rmemory_map_invalid (committed_state p sigma c) = rmemory_map_invalid c"
  by (simp_all add: prepared_state_def committed_state_def)

lemma first_prepare [simp]:
  "prepare (mock_platform dbg B) (test_transition ROOT0 ROOT1 0) test_rchal (test_appliance 100)
     = (Done (), prepared_state (first_prepared dbg B) (test_appliance 100))"
  by (rule mock_prepare) (simp_all add: test_transition_fits)

lemma first_commit:
  obtains sigma where "commit (mock_platform dbg B) (prepared_state (first_prepared dbg B) (test_appliance 100))
      = (Done (), committed_state (first_prepared dbg B) sigma (prepared_state (first_prepared dbg B) (test_appliance 100)))"
    and "wots_verify B (p_pk_hw (first_prepared dbg B)) (p_cert_message (first_prepared dbg B)) sigma"
    and "length sigma = 2144"
proof -
  let ?a = "prepared_state (first_prepared dbg B) (test_appliance 100)"
  have "act_record (active ?a) = RPrepared (first_prepared dbg B)"
    and "prev_root (test_transition ROOT0 ROOT1 0) = act_root (active ?a)" and "mock_h (tropic ?a) \<noteq> 0"
    and "unat (h0 ?a) = unat (mock_h (tropic ?a)) + unat (anchor_counter (test_transition ROOT0 ROOT1 0))"
    by simp_all
  from mock_commit [OF this(1) refl this(2-)] that show thesis by blast
qed

text \<open>The states of the first transfer.\<close>

abbreviation first_committed :: "bool \<Rightarrow> blake3 \<Rightarrow> byte list \<Rightarrow> mock_tropic appliance" where
  "first_committed dbg B sigma \<equiv>
     committed_state (first_prepared dbg B) sigma (prepared_state (first_prepared dbg B) (test_appliance 100))"

definition first_finalized :: "bool \<Rightarrow> blake3 \<Rightarrow> byte list \<Rightarrow> mock_tropic appliance" where
  "first_finalized dbg B sigma = (first_committed dbg B sigma)
     \<lparr>active := \<lparr> act_root = ROOT1, act_u = 1, act_status = Ready, act_record = REmpty \<rparr>\<rparr>"

lemma first_finalized_fields [simp]:
  "h0 (first_finalized dbg B sigma) = 100" "tropic (first_finalized dbg B sigma) = chip_at 99"
  "active (first_finalized dbg B sigma) = \<lparr> act_root = ROOT1, act_u = 1, act_status = Ready, act_record = REmpty \<rparr>"
  "firmware_boundary_invalid (first_finalized dbg B sigma) = False"
  "rmemory_map_invalid (first_finalized dbg B sigma) = False"
  by (simp_all add: first_finalized_def)

definition first_release :: "bool \<Rightarrow> blake3 \<Rightarrow> byte list \<Rightarrow> offline_release" where
  "first_release dbg B sigma =
     commit_release (prepared_state (first_prepared dbg B) (test_appliance 100)) (first_prepared dbg B) sigma 100"

lemma first_release_fields [simp]:
  "rel_transition (first_release dbg B sigma) = test_transition ROOT0 ROOT1 0"
  "c_prev_root (rel_cert (first_release dbg B sigma)) = ROOT0"
  "c_next_root (rel_cert (first_release dbg B sigma)) = ROOT1"
  "c_anchor_counter (rel_cert (first_release dbg B sigma)) = 0"
  "c_next_anchor_counter (rel_cert (first_release dbg B sigma)) = 1"
  "c_sigma (rel_cert (first_release dbg B sigma)) = sigma"
  "c_anchor_id (rel_cert (first_release dbg B sigma)) = fill32 0xAA"
  "c_slot (rel_cert (first_release dbg B sigma)) = 1"
  "c_receiver_challenge (rel_cert (first_release dbg B sigma)) = test_rchal"
  "ev_anchor_id (rel_counter (first_release dbg B sigma)) = fill32 0xAA"
  "ev_live_counter_claim (rel_counter (first_release dbg B sigma)) = 99"
  "ev_derived_index_claim (rel_counter (first_release dbg B sigma)) = 1"
  by (simp_all add: first_release_def commit_release_def mock_prepared_def prepared_for_def Let_def)

lemma first_emit [simp]: "emit (first_committed dbg B sigma) = Inr (first_release dbg B sigma)"
  by (simp add: emit_def candidate_def first_release_def)

lemma first_finalize [simp]:
  "finalize (mock_platform dbg B) (first_committed dbg B sigma) = (Inr ROOT1, first_finalized dbg B sigma)"
  by (simp add: finalize_def mock_live_index checked_sub_def candidate_def first_finalized_def)

lemma lifecycle_passes: "full_lifecycle_prepare_commit_emit_finalize dbg B"
proof -
  obtain sigma where "commit (mock_platform dbg B) (prepared_state (first_prepared dbg B) (test_appliance 100))
      = (Done (), first_committed dbg B sigma)"
    by (rule first_commit)
  then show ?thesis by (simp add: full_lifecycle_prepare_commit_emit_finalize_def)
qed

lemma two_transfers_pass: "two_sequential_transfers dbg B"
proof -
  let ?P = "mock_platform dbg B" and ?root2 = "fill32 0x77 :: bytes32"
  let ?t = "test_transition ROOT1 ?root2 1"
  obtain sigma where c: "commit ?P (prepared_state (first_prepared dbg B) (test_appliance 100))
      = (Done (), first_committed dbg B sigma)"
    by (rule first_commit)
  let ?a = "first_finalized dbg B sigma"
  let ?p = "mock_prepared dbg B ?a ?t test_rchal"
  have p: "prepare ?P ?t test_rchal ?a = (Done (), prepared_state ?p ?a)"
    by (rule mock_prepare) (simp_all add: test_transition_fits)
  obtain sigma2 where c2: "commit ?P (prepared_state ?p ?a) = (Done (), committed_state ?p sigma2 (prepared_state ?p ?a))"
    using mock_commit [of "prepared_state ?p ?a" ?p dbg B ?a ?t test_rchal] by auto
  have "fst (finalize ?P (committed_state ?p sigma2 (prepared_state ?p ?a))) = Inr ?root2"
    by (simp add: finalize_def mock_live_index checked_sub_def candidate_def)
  with c p c2 show ?thesis by (simp add: two_sequential_transfers_def Let_def)
qed

lemma refused_operations_pass:
  "prepare_twice_is_rejected dbg B" "commit_without_prepare_is_rejected dbg B" "emit_without_commit_is_rejected"
  "prepare_rejects_wrong_parent_and_bad_index dbg B" "cancel_returns_to_ready_and_clears_record dbg B"
proof -
  show "prepare_twice_is_rejected dbg B"
    by (simp add: prepare_twice_is_rejected_def) (simp add: prepare_def)
  show "commit_without_prepare_is_rejected dbg B"
    by (simp add: commit_without_prepare_is_rejected_def commit_def commit_phase1_def)
  show "emit_without_commit_is_rejected"
    by (simp add: emit_without_commit_is_rejected_def emit_def)
  show "prepare_rejects_wrong_parent_and_bad_index dbg B"
    by (simp add: prepare_rejects_wrong_parent_and_bad_index_def prepare_def plus_u64_def checked_add_def)
  show "cancel_returns_to_ready_and_clears_record dbg B"
    by (simp add: cancel_returns_to_ready_and_clears_record_def cancel_def Let_def)
qed

lemma exhausted_passes: "commit_on_exhausted_counter_exports_nothing dbg B"
proof -
  let ?P = "mock_platform dbg B" and ?t = "test_transition ROOT0 ROOT1 100"
  let ?a = "(test_appliance 0)\<lparr>active := (active (test_appliance 0))\<lparr>act_u := 100\<rparr>\<rparr>"
  let ?p = "mock_prepared dbg B ?a ?t test_rchal"
  have p: "prepare ?P ?t test_rchal ?a = (Done (), prepared_state ?p ?a)"
    by (rule mock_prepare) (simp_all add: test_transition_fits)
  have "commit ?P (prepared_state ?p ?a) = (Fail CounterExhausted, prepared_state ?p ?a)"
    by (simp add: commit_def commit_phase1_def mock_ops_def)
  with p show ?thesis by (simp add: commit_on_exhausted_counter_exports_nothing_def emit_def)
qed

section \<open>The acceptance predicate\<close>

text \<open>\<open>valid_release\<close>: prepare, commit and emit on a fresh appliance; \<open>None\<close> is a failing \<open>unwrap\<close>.\<close>

definition valid_release :: "bool \<Rightarrow> blake3 \<Rightarrow> offline_release option" where
  "valid_release dbg B =
     (let P = mock_platform dbg B in
      case prepare P (test_transition ROOT0 ROOT1 0) test_rchal (test_appliance 100) of
        (Done _, a) \<Rightarrow>
          (case commit P a of
             (Done _, a) \<Rightarrow> (case emit a of Inr rel \<Rightarrow> Some rel | Inl _ \<Rightarrow> None)
           | _ \<Rightarrow> None)
      | _ \<Rightarrow> None)"

definition with_release :: "bool \<Rightarrow> blake3 \<Rightarrow> (offline_release \<Rightarrow> bool) \<Rightarrow> bool" where
  "with_release dbg B k = (case valid_release dbg B of None \<Rightarrow> False | Some rel \<Rightarrow> k rel)"

definition check_release ::
    "bool \<Rightarrow> blake3 \<Rightarrow> offline_release \<Rightarrow> verifier_context \<Rightarrow> (accept_error, unit) outcome" where
  "check_release dbg B rel c = accept_offline dbg B (wots_blake3 B) ok_dsm ok_counter rel c"

definition accept_valid_release :: "bool \<Rightarrow> blake3 \<Rightarrow> bool" where
  "accept_valid_release dbg B = with_release dbg B (\<lambda>rel. check_release dbg B rel test_ctx = Done ())"

definition accept_rejects_noncanonical_cert_disagreement :: "bool \<Rightarrow> blake3 \<Rightarrow> bool" where
  "accept_rejects_noncanonical_cert_disagreement dbg B = with_release dbg B (\<lambda>rel.
     check_release dbg B (rel\<lparr>rel_cert := (rel_cert rel)
       \<lparr>c_next_anchor_counter := c_next_anchor_counter (rel_cert rel) + 1\<rparr>\<rparr>) test_ctx = Fail NonCanonical)"

definition accept_rejects_unaccepted_parent_and_unpinned_anchor :: "bool \<Rightarrow> blake3 \<Rightarrow> bool" where
  "accept_rejects_unaccepted_parent_and_unpinned_anchor dbg B = with_release dbg B (\<lambda>rel.
     let other = fill32 0xFE in
     check_release dbg B rel (test_ctx\<lparr>accepted_prev_root := other\<rparr>) = Fail PrevRootNotAccepted \<and>
     check_release dbg B rel (test_ctx\<lparr>pinned_anchor_id := other\<rparr>) = Fail PrevRootNotAccepted)"

definition accept_rejects_wrong_challenge_and_policy :: "bool \<Rightarrow> blake3 \<Rightarrow> bool" where
  "accept_rejects_wrong_challenge_and_policy dbg B = with_release dbg B (\<lambda>rel.
     let other = fill32 0xFD in
     check_release dbg B rel (test_ctx\<lparr>expected_receiver_challenge := other\<rparr>) = Fail ChallengeMismatch \<and>
     check_release dbg B rel (test_ctx\<lparr>expected_policy_hash := other\<rparr>) = Fail PolicyMismatch)"

definition flip_first :: "bytes32 \<Rightarrow> bytes32" where
  "flip_first d = set_byte d 0 (bytes_of d ! 0 XOR 0xFF)"

definition accept_rejects_tampered_digest_input_pkhash_and_sig :: "bool \<Rightarrow> blake3 \<Rightarrow> bool" where
  "accept_rejects_tampered_digest_input_pkhash_and_sig dbg B = with_release dbg B (\<lambda>rel.
     let cert = rel_cert rel;
         outcome = (\<lambda>cert. check_release dbg B (rel\<lparr>rel_cert := cert\<rparr>) test_ctx)
     in outcome (cert\<lparr>c_transition_digest := flip_first (c_transition_digest cert)\<rparr>) = Fail DigestMismatch \<and>
        outcome (cert\<lparr>c_witness_input := flip_first (c_witness_input cert)\<rparr>) = Fail WitnessInputMismatch \<and>
        outcome (cert\<lparr>c_pk_hash := flip_first (c_pk_hash cert)\<rparr>) = Fail PkHashMismatch \<and>
        outcome (cert\<lparr>c_sigma := (c_sigma cert)[0 := c_sigma cert ! 0 XOR 0xFF]\<rparr>) = Fail WitnessSigInvalid)"

definition accept_rejects_dsm_proof_failures :: "bool \<Rightarrow> blake3 \<Rightarrow> bool" where
  "accept_rejects_dsm_proof_failures dbg B = with_release dbg B (\<lambda>rel.
     let outcome = (\<lambda>D. accept_offline dbg B (wots_blake3 B) D ok_counter rel test_ctx) in
     outcome (ok_dsm\<lparr>root_commits_counter := \<lambda>_ _. False\<rparr>) = Fail AnchorCounterUncommitted \<and>
     outcome (ok_dsm\<lparr>verify_transition := \<lambda>_. False\<rparr>) = Fail TransitionProofInvalid \<and>
     outcome (ok_dsm\<lparr>delivers_to_receiver := \<lambda>_. False\<rparr>) = Fail NotDeliveredToReceiver)"

definition accept_rejects_counter_evidence_problems :: "bool \<Rightarrow> blake3 \<Rightarrow> bool" where
  "accept_rejects_counter_evidence_problems dbg B = with_release dbg B (\<lambda>rel.
     let chip = (\<lambda>v. accept_offline dbg B (wots_blake3 B) ok_dsm
           \<lparr> read_authentic_counter = \<lambda>_ _. v \<rparr> rel test_ctx) in
     check_release dbg B (rel\<lparr>rel_counter := (rel_counter rel)
       \<lparr>ev_live_counter_claim := ev_live_counter_claim (rel_counter rel) + 1\<rparr>\<rparr>) test_ctx = Fail CounterEvidenceInvalid \<and>
     chip None = Fail CounterEvidenceInvalid \<and> chip (Some 42) = Fail CounterEvidenceInvalid)"

definition accept_rejects_exposure_cap_and_compromise :: "bool \<Rightarrow> blake3 \<Rightarrow> bool" where
  "accept_rejects_exposure_cap_and_compromise dbg B = with_release dbg B (\<lambda>rel.
     check_release dbg B rel (test_ctx\<lparr>exposure_cap_index := 0\<rparr>) = Fail ExposureCapExceeded \<and>
     check_release dbg B rel (test_ctx\<lparr>anchor_uncompromised := False\<rparr>) = Fail AnchorCompromised)"

text \<open>The valid release is what its transition and key determine.\<close>

lemma first_release_derived [simp]:
  "c_transition_digest (rel_cert (first_release dbg B sigma)) = transition_digest B (test_transition ROOT0 ROOT1 0)"
  "c_witness_input (rel_cert (first_release dbg B sigma)) = witness_input B (test_transition ROOT0 ROOT1 0)
     (transition_digest B (test_transition ROOT0 ROOT1 0)) (fill32 0xAA) 1 test_rchal"
  "c_pk_hash (rel_cert (first_release dbg B sigma)) = pk_hash B (p_pk_hw (first_prepared dbg B))"
  "c_pk_hw (rel_cert (first_release dbg B sigma)) = p_pk_hw (first_prepared dbg B)"
  by (simp_all add: first_release_def commit_release_def mock_prepared_def prepared_for_def Let_def)

text \<open>The message that is signed, and that the receiver recomputes.\<close>

lemma first_message:
  assumes "rel_transition rel = test_transition ROOT0 ROOT1 0" and "c_anchor_id (rel_cert rel) = fill32 0xAA"
    and "c_slot (rel_cert rel) = 1" and "c_receiver_challenge (rel_cert rel) = test_rchal"
    and "c_pk_hw (rel_cert rel) = p_pk_hw (first_prepared dbg B)"
  shows "release_message B rel = p_cert_message (first_prepared dbg B)"
  using assms by (simp add: release_message_def mock_prepared_def prepared_for_def Let_def)

lemma valid_released:
  obtains sigma where "valid_release dbg B = Some (first_release dbg B sigma)"
    and "wots_verify B (p_pk_hw (first_prepared dbg B)) (p_cert_message (first_prepared dbg B)) sigma"
    and "length sigma = 2144"
proof -
  obtain sigma where "commit (mock_platform dbg B) (prepared_state (first_prepared dbg B) (test_appliance 100))
      = (Done (), first_committed dbg B sigma)"
    and v: "wots_verify B (p_pk_hw (first_prepared dbg B)) (p_cert_message (first_prepared dbg B)) sigma"
      "length sigma = 2144"
    by (rule first_commit)
  then have "valid_release dbg B = Some (first_release dbg B sigma)" by (simp add: valid_release_def)
  then show thesis using v by (rule that)
qed

lemma flip_first_neq [simp]: "flip_first d \<noteq> d" "d \<noteq> flip_first d"
proof -
  have "bytes_of (flip_first d) ! 0 \<noteq> bytes_of d ! 0"
    using xor_ff_changes [of "bytes_of d ! 0"] by (simp add: flip_first_def)
  then show "flip_first d \<noteq> d" "d \<noteq> flip_first d" by metis+
qed

lemma checks_of:
  "rel_transition rel = test_transition ROOT0 ROOT1 0 \<Longrightarrow>
     accept_offline dbg B S D C rel ctx = first_failure (acceptance_checks B S D C rel ctx)"
  by (rule accept_offline_first_failure) (simp add: test_transition_fits)

lemmas acceptance_test_defs =
  with_release_def check_release_def acceptance_checks_def test_ctx_def ok_dsm_def ok_counter_def Let_def

lemma acceptance_pass:
  "accept_valid_release dbg B" "accept_rejects_noncanonical_cert_disagreement dbg B"
  "accept_rejects_unaccepted_parent_and_unpinned_anchor dbg B" "accept_rejects_wrong_challenge_and_policy dbg B"
  "accept_rejects_dsm_proof_failures dbg B" "accept_rejects_counter_evidence_problems dbg B"
  "accept_rejects_exposure_cap_and_compromise dbg B"
proof -
  obtain sigma where v: "valid_release dbg B = Some (first_release dbg B sigma)"
    and ok: "wots_verify B (p_pk_hw (first_prepared dbg B)) (p_cert_message (first_prepared dbg B)) sigma"
    by (rule valid_released)
  note m = first_message [where dbg = dbg and B = B]
  note simps = v ok checks_of m acceptance_test_defs
  show "accept_valid_release dbg B" by (simp add: accept_valid_release_def simps)
  show "accept_rejects_noncanonical_cert_disagreement dbg B"
    by (simp add: accept_rejects_noncanonical_cert_disagreement_def simps)
  show "accept_rejects_unaccepted_parent_and_unpinned_anchor dbg B"
    by (simp add: accept_rejects_unaccepted_parent_and_unpinned_anchor_def simps)
  show "accept_rejects_wrong_challenge_and_policy dbg B"
    by (simp add: accept_rejects_wrong_challenge_and_policy_def simps)
  show "accept_rejects_dsm_proof_failures dbg B"
    by (simp add: accept_rejects_dsm_proof_failures_def simps)
  show "accept_rejects_counter_evidence_problems dbg B"
    by (simp add: accept_rejects_counter_evidence_problems_def simps)
  show "accept_rejects_exposure_cap_and_compromise dbg B"
    by (simp add: accept_rejects_exposure_cap_and_compromise_def simps)
qed

text \<open>The changed signature is rejected unless the hash collides between the two signatures.\<close>

definition release_tampering_collides :: "bool \<Rightarrow> blake3 \<Rightarrow> bool" where
  "release_tampering_collides dbg B =
     (let rel = the (valid_release dbg B); sig = c_sigma (rel_cert rel)
      in second_signature_collides B (release_message B rel) sig (sig[0 := sig ! 0 XOR 0xFF]))"

lemma tampering_passes:
  "accept_rejects_tampered_digest_input_pkhash_and_sig dbg B \<or> release_tampering_collides dbg B"
proof -
  obtain sigma where v: "valid_release dbg B = Some (first_release dbg B sigma)"
    and ok: "wots_verify B (p_pk_hw (first_prepared dbg B)) (p_cert_message (first_prepared dbg B)) sigma"
    and len: "length sigma = 2144"
    by (rule valid_released)
  let ?bad = "sigma[0 := sigma ! 0 XOR 0xFF]"
  note m = first_message [where dbg = dbg and B = B]
  note simps = v ok checks_of m acceptance_test_defs
  have "?bad ! 0 \<noteq> sigma ! 0" using len xor_ff_changes by simp
  then have "?bad \<noteq> sigma" by metis
  with same_digest_collides [OF ok, of ?bad] consider
      "\<not> wots_verify B (p_pk_hw (first_prepared dbg B)) (p_cert_message (first_prepared dbg B)) ?bad"
    | "second_signature_collides B (p_cert_message (first_prepared dbg B)) sigma ?bad"
    by blast
  then show ?thesis
  proof cases
    case 1
    then have "accept_rejects_tampered_digest_input_pkhash_and_sig dbg B"
      by (simp add: accept_rejects_tampered_digest_input_pkhash_and_sig_def simps)
    then show ?thesis ..
  next
    case 2
    then show ?thesis by (simp add: release_tampering_collides_def v m Let_def)
  qed
qed

section \<open>Recovery\<close>

definition recover_ready_accepts_current_root :: "bool \<Rightarrow> blake3 \<Rightarrow> bool" where
  "recover_ready_accepts_current_root dbg B =
     (fst (recover (mock_platform dbg B) (test_appliance 100)) = Accept ROOT0)"

definition recover_committed_reemits_and_advances :: "bool \<Rightarrow> blake3 \<Rightarrow> bool" where
  "recover_committed_reemits_and_advances dbg B =
     (let P = mock_platform dbg B in
      then_done (prepare P (test_transition ROOT0 ROOT1 0) test_rchal (test_appliance 100)) (\<lambda>a.
      then_done (commit P a) (\<lambda>a.
      case recover P a of (r, a) \<Rightarrow> r = ReemitCommitted ROOT1 \<and>
      then_ok (emit a) (\<lambda>rel.
        c_next_root (rel_cert rel) = ROOT1 \<and> check_release dbg B rel test_ctx = Done () \<and>
      (case finalize P a of (r, a) \<Rightarrow> r = Inr ROOT1 \<and>
        act_root (active a) = ROOT1 \<and> act_status (active a) = Ready)))))"

definition recover_prepared_can_complete :: "bool \<Rightarrow> blake3 \<Rightarrow> bool" where
  "recover_prepared_can_complete dbg B =
     (let P = mock_platform dbg B in
      then_done (prepare P (test_transition ROOT0 ROOT1 0) test_rchal (test_appliance 100)) (\<lambda>a.
        fst (recover P a) = AcceptPreparedCanComplete))"

definition recover_prepared_downgrades_when_parent_diverged :: "bool \<Rightarrow> blake3 \<Rightarrow> bool" where
  "recover_prepared_downgrades_when_parent_diverged dbg B =
     (let P = mock_platform dbg B in
      then_done (prepare P (test_transition ROOT0 ROOT1 0) test_rchal (test_appliance 100)) (\<lambda>a.
        fst (recover P (a\<lparr>active := (active a)\<lparr>act_root := fill32 0x9E\<rparr>\<rparr>)) = DowngradeOnline))"

definition recover_ready_stale_downgrades_and_ahead_fails_closed :: "bool \<Rightarrow> blake3 \<Rightarrow> bool" where
  "recover_ready_stale_downgrades_and_ahead_fails_closed dbg B =
     (let P = mock_platform dbg B in
      then_done (prepare P (test_transition ROOT0 ROOT1 0) test_rchal (test_appliance 100)) (\<lambda>a.
      then_done (commit P a) (\<lambda>a.
      case finalize P a of (r, a) \<Rightarrow> then_ok r (\<lambda>_.
        fst (recover P (a\<lparr>active := (active a)\<lparr>act_u := 0\<rparr>\<rparr>)) = DowngradeOnline))) \<and>
      (let a = test_appliance 100 in
        fst (recover P (a\<lparr>active := (active a)\<lparr>act_u := 5\<rparr>\<rparr>)) = FailClosed))"

text \<open>A durable candidate whose counter step is not confirmed, over a chip at \<open>h\<close>.\<close>

definition candidate_at :: "u32 \<Rightarrow> offline_release \<Rightarrow> mock_tropic appliance" where
  "candidate_at h rel =
     (test_appliance h)\<lparr>active := (active (test_appliance h))
       \<lparr>act_status := Committed, act_u := 0,
        act_record := RCommitted
          \<lparr> cr_prev_root = ROOT0, cr_next_root = ROOT1, cr_anchor_counter = 0, cr_next_anchor_counter = 1,
            cr_release = rel, cr_committed = False \<rparr>\<rparr>\<rparr>"

definition recover_completes_durable_release_before_counter_commit :: "bool \<Rightarrow> blake3 \<Rightarrow> bool" where
  "recover_completes_durable_release_before_counter_commit dbg B = with_release dbg B (\<lambda>rel.
     let P = mock_platform dbg B in
     case recover P (candidate_at 100 rel) of (r, a) \<Rightarrow>
       r = ReemitCommitted ROOT1 \<and>
     (case live_index P a of (u, a) \<Rightarrow> u = Inr 1 \<and>
     then_ok (emit a) (\<lambda>_.
     case finalize P a of (r, a) \<Rightarrow> r = Inr ROOT1 \<and> act_status (active a) = Ready)))"

definition recover_marks_committed_when_counter_moved_but_flag_lost :: "bool \<Rightarrow> blake3 \<Rightarrow> bool" where
  "recover_marks_committed_when_counter_moved_but_flag_lost dbg B = with_release dbg B (\<lambda>rel.
     let P = mock_platform dbg B in
     case recover P (candidate_at 99 rel) of (r, a) \<Rightarrow>
       r = ReemitCommitted ROOT1 \<and>
     (case live_index P a of (u, a) \<Rightarrow> u = Inr 1 \<and>
     then_ok (emit a) (\<lambda>_. fst (finalize P a) = Inr ROOT1)))"

definition recover_downgrades_when_parent_diverged :: "bool \<Rightarrow> blake3 \<Rightarrow> bool" where
  "recover_downgrades_when_parent_diverged dbg B = with_release dbg B (\<lambda>rel.
     let P = mock_platform dbg B;
         a = candidate_at 100 rel;
         a = a\<lparr>active := (active a)\<lparr>act_root := fill32 0x9E\<rparr>\<rparr>
     in case recover P a of (r, a) \<Rightarrow> r = DowngradeOnline \<and> fst (live_index P a) = Inr 0)"

definition recover_downgrades_on_invalid_boundary :: "bool \<Rightarrow> blake3 \<Rightarrow> bool" where
  "recover_downgrades_on_invalid_boundary dbg B =
     (fst (recover (mock_platform dbg B) ((test_appliance 100)\<lparr>firmware_boundary_invalid := True\<rparr>))
        = DowngradeOnline)"

lemma recover_simple_pass:
  "recover_ready_accepts_current_root dbg B" "recover_prepared_can_complete dbg B"
  "recover_prepared_downgrades_when_parent_diverged dbg B"
  "recover_downgrades_on_invalid_boundary dbg B"
proof -
  note rec = recover_defs mock_live_index checked_sub_def
  show "recover_ready_accepts_current_root dbg B"
    by (simp add: recover_ready_accepts_current_root_def rec mock_ops_def)
  show "recover_prepared_can_complete dbg B"
    by (simp add: recover_prepared_can_complete_def Let_def) (simp add: rec)
  show "recover_prepared_downgrades_when_parent_diverged dbg B"
    by (simp add: recover_prepared_downgrades_when_parent_diverged_def Let_def) (simp add: rec)
  show "recover_downgrades_on_invalid_boundary dbg B"
    by (simp add: recover_downgrades_on_invalid_boundary_def rec)
qed

lemma recover_stale_passes: "recover_ready_stale_downgrades_and_ahead_fails_closed dbg B"
proof -
  obtain sigma where "commit (mock_platform dbg B) (prepared_state (first_prepared dbg B) (test_appliance 100))
      = (Done (), first_committed dbg B sigma)"
    by (rule first_commit)
  then show ?thesis
    by (simp add: recover_ready_stale_downgrades_and_ahead_fails_closed_def Let_def)
      (simp add: recover_defs mock_live_index checked_sub_def)
qed

lemma recover_first_committed:
  "recover (mock_platform dbg B) (first_committed dbg B sigma) = (ReemitCommitted ROOT1, first_committed dbg B sigma)"
  by (simp add: recover_defs mock_live_index checked_sub_def candidate_def)

lemma recover_reemits_passes: "recover_committed_reemits_and_advances dbg B"
proof -
  obtain sigma where c: "commit (mock_platform dbg B) (prepared_state (first_prepared dbg B) (test_appliance 100))
      = (Done (), first_committed dbg B sigma)"
    and "wots_verify B (p_pk_hw (first_prepared dbg B)) (p_cert_message (first_prepared dbg B)) sigma"
    by (rule first_commit)
  then have "check_release dbg B (first_release dbg B sigma) test_ctx = Done ()"
    by (simp add: checks_of first_message [where dbg = dbg] acceptance_test_defs)
  with c show ?thesis
    by (simp add: recover_committed_reemits_and_advances_def recover_first_committed Let_def)
qed

lemma candidate_at_fields [simp]:
  "h0 (candidate_at h rel) = 100" "tropic (candidate_at h rel) = chip_at h"
  "firmware_boundary_invalid (candidate_at h rel) = False" "rmemory_map_invalid (candidate_at h rel) = False"
  "active (candidate_at h rel) = \<lparr> act_root = ROOT0, act_u = 0, act_status = Committed, act_record = RCommitted
     \<lparr> cr_prev_root = ROOT0, cr_next_root = ROOT1, cr_anchor_counter = 0, cr_next_anchor_counter = 1,
       cr_release = rel, cr_committed = False \<rparr> \<rparr>"
  by (simp_all add: candidate_at_def)

lemma recover_candidate_pass:
  "recover_completes_durable_release_before_counter_commit dbg B"
  "recover_marks_committed_when_counter_moved_but_flag_lost dbg B"
  "recover_downgrades_when_parent_diverged dbg B"
proof -
  obtain sigma where v: "valid_release dbg B = Some (first_release dbg B sigma)" by (rule valid_released)
  note simps = v with_release_def Let_def recover_defs mock_live_index checked_sub_def mark_committed_def
    emit_def finalize_def
  show "recover_completes_durable_release_before_counter_commit dbg B"
    by (simp add: recover_completes_durable_release_before_counter_commit_def simps mock_ops_def)
  show "recover_marks_committed_when_counter_moved_but_flag_lost dbg B"
    by (simp add: recover_marks_committed_when_counter_moved_but_flag_lost_def simps)
  show "recover_downgrades_when_parent_diverged dbg B"
    by (simp add: recover_downgrades_when_parent_diverged_def simps)
qed

section \<open>The wire protocol\<close>

text \<open>A request sent as a frame and the response decoded, for the codec \<open>X\<close>.\<close>

definition exchange ::
    "prost \<Rightarrow> 'c platform \<Rightarrow> byte list \<Rightarrow> 'c appliance \<Rightarrow> (pb_response \<Rightarrow> 'c appliance \<Rightarrow> bool) \<Rightarrow> bool" where
  "exchange X P frame a k =
     (case handle X P frame a of
        (Some bytes, a) \<Rightarrow> then_ok (decode_response X bytes) (\<lambda>r. k r a)
      | (None, _) \<Rightarrow> False)"

definition proto_request_roundtrip :: "prost \<Rightarrow> bool" where
  "proto_request_roundtrip X =
     (let t = test_transition ROOT0 ROOT1 0;
          req = \<lparr> rq_op = op_number OpPrepare, rq_transition = Some (transition_to_pb t),
                  rq_receiver_challenge = bytes_of test_rchal \<rparr>
      in then_ok (decode_request X (encode_request X req)) (\<lambda>back.
           rq_op back = op_number OpPrepare \<and>
           (case rq_transition back of
              None \<Rightarrow> False
            | Some m \<Rightarrow> then_ok (to_owned_transition m) (\<lambda>owned.
                prev_root owned = ROOT0 \<and> next_root owned = ROOT1 \<and> next_anchor_counter owned = 1)) \<and>
           rq_receiver_challenge back = bytes_of test_rchal))"

definition proto_release_roundtrip :: "bool \<Rightarrow> blake3 \<Rightarrow> bool" where
  "proto_release_roundtrip dbg B = with_release dbg B (\<lambda>rel.
     then_ok (to_release (release_to_pb rel)) (\<lambda>back.
       c_sigma (rel_cert back) = c_sigma (rel_cert rel) \<and> c_pk_hw (rel_cert back) = c_pk_hw (rel_cert rel) \<and>
       c_slot (rel_cert back) = 1 \<and> ev_derived_index_claim (rel_counter back) = 1 \<and>
       next_root (rel_transition back) = ROOT1 \<and> check_release dbg B back test_ctx = Done ()))"

definition service_handle_full_flow :: "bool \<Rightarrow> blake3 \<Rightarrow> prost \<Rightarrow> bool" where
  "service_handle_full_flow dbg B X =
     (let P = mock_platform dbg B; send = (\<lambda>req. exchange X P (encode_request X req)) in
      send test_prepare_request (test_appliance 100) (\<lambda>r a. rs_ok r \<and>
      send (op_request OpCommit) a (\<lambda>r a. rs_ok r \<and>
      send (op_request OpEmit) a (\<lambda>r a. rs_ok r \<and>
        (case rs_release r of
           None \<Rightarrow> False
         | Some m \<Rightarrow> then_ok (to_release m) (\<lambda>rel. check_release dbg B rel test_ctx = Done ())) \<and>
      send (op_request OpFinalize) a (\<lambda>r a. rs_ok r \<and> rs_active_root r = bytes_of ROOT1 \<and>
      send (op_request OpStatus) a (\<lambda>r _.
        rs_active_root r = bytes_of ROOT1 \<and> rs_active_index r = 1 \<and> rs_status r = 0))))))"

definition service_rejects_oversized_and_malformed_frames :: "bool \<Rightarrow> blake3 \<Rightarrow> prost \<Rightarrow> bool" where
  "service_rejects_oversized_and_malformed_frames dbg B X =
     (let P = mock_platform dbg B in
      exchange X P (replicate (MAX_FRAME_LEN + 1) 0) (test_appliance 100) (\<lambda>r a.
        \<not> rs_ok r \<and> rs_error r = err_FRAME_TOO_LARGE \<and>
      exchange X P [0xFF, 0xFF, 0xFF] a (\<lambda>r _. \<not> rs_ok r)))"

lemma exchange_dispatch:
  assumes X: "writes_proto3 X" and len: "length (encode_fields (wire_request req)) \<le> MAX_FRAME_LEN"
    and d: "dispatch P req a = (Some resp, a')"
  shows "exchange X P (encode_request X req) a k = k resp a'"
  using len d
  by (simp add: exchange_def handle_def encode_request_def decode_request_def encode_response_def
      decode_response_def writes_proto3D [OF X])

lemma length_test_prepare: "length (encode_fields (wire_request test_prepare_request)) \<le> MAX_FRAME_LEN"
proof -
  have "length (encode_fields (wire_transition (transition_to_pb test_step0))) \<le> 427"
    using length_wire_transition [OF test_step0_fits] by (simp add: test_transition_def)
  then have "length (encode_fields (wire_request test_prepare_request)) \<le> 11 + (5 + 427 + 37)"
    unfolding wire_request_def encode_fields_simps
    by (intro length_opt length_opt_msg) (simp_all add: test_prepare_request_def)
  then show ?thesis by (simp add: MAX_FRAME_LEN_def)
qed

lemma length_op_request: "length (encode_fields (wire_request (op_request x))) \<le> MAX_FRAME_LEN"
  using length_plain_request [of x] by (simp add: op_request_def plain_request_def MAX_FRAME_LEN_def)

lemma first_release_fits:
  assumes "length sigma = 2144"
  shows "release_fits (first_release dbg B sigma)"
proof -
  have "length (p_pk_hw (first_prepared dbg B)) = 32"
    using prepared_for_keys [of "mock_platform dbg B"] by (auto simp: mock_prepared_def wots_keygen_lengths
        prepared_for_def Let_def)
  then show ?thesis
    using assms test_step0_fits
    by (simp add: release_fits_def cert_fits_def evidence_fits_def wire_bounds)
      (simp add: first_release_def commit_release_def)
qed

lemma wire_roundtrips_pass:
  assumes X: "writes_proto3 X"
  shows "proto_request_roundtrip X" and "proto_release_roundtrip dbg B"
proof -
  show "proto_request_roundtrip X"
    using transition_wire.roundtrip [OF test_step0_fits]
    by (simp add: proto_request_roundtrip_def encode_request_def decode_request_def writes_proto3D [OF X] Let_def)
  obtain sigma where v: "valid_release dbg B = Some (first_release dbg B sigma)"
    and ok: "wots_verify B (p_pk_hw (first_prepared dbg B)) (p_cert_message (first_prepared dbg B)) sigma"
    and len: "length sigma = 2144"
    by (rule valid_released)
  note m = first_message [where dbg = dbg and B = B]
  from release_wire.roundtrip [OF first_release_fits [OF len]] show "proto_release_roundtrip dbg B"
    by (simp add: proto_release_roundtrip_def v ok checks_of m acceptance_test_defs)
qed

lemma full_flow_passes:
  assumes X: "writes_proto3 X"
  shows "service_handle_full_flow dbg B X"
proof -
  let ?P = "mock_platform dbg B"
  obtain sigma where c: "commit ?P (prepared_state (first_prepared dbg B) (test_appliance 100))
      = (Done (), first_committed dbg B sigma)"
    and ok: "wots_verify B (p_pk_hw (first_prepared dbg B)) (p_cert_message (first_prepared dbg B)) sigma"
    and len: "length sigma = 2144"
    by (rule first_commit)
  have acc: "check_release dbg B (first_release dbg B sigma) test_ctx = Done ()"
    using ok by (simp add: checks_of first_message [where dbg = dbg] acceptance_test_defs)
  have d: "dispatch ?P test_prepare_request (test_appliance 100)
      = (Some (ok_response (op_number OpPrepare)), prepared_state (first_prepared dbg B) (test_appliance 100))"
    "dispatch ?P (op_request OpCommit) (prepared_state (first_prepared dbg B) (test_appliance 100))
      = (Some (ok_response (op_number OpCommit)), first_committed dbg B sigma)"
    "dispatch ?P (op_request OpEmit) (first_committed dbg B sigma) = (Some ((base_response (op_number OpEmit))
       \<lparr>rs_ok := True, rs_release := Some (release_to_pb (first_release dbg B sigma))\<rparr>), first_committed dbg B sigma)"
    "dispatch ?P (op_request OpFinalize) (first_committed dbg B sigma) = (Some ((base_response (op_number OpFinalize))
       \<lparr>rs_ok := True, rs_active_root := bytes_of ROOT1\<rparr>), first_finalized dbg B sigma)"
    "dispatch ?P (op_request OpStatus) (first_finalized dbg B sigma) = (Some ((base_response (op_number OpStatus))
       \<lparr>rs_ok := True, rs_active_root := bytes_of ROOT1, rs_active_index := 1, rs_status := 0\<rparr>),
       first_finalized dbg B sigma)"
    using c by (simp add: dispatch_test_prepare reply_def,
      simp_all add: reply_def dispatch_def Let_def op_request_def status_code_def)
  note x = exchange_dispatch [OF X length_test_prepare d(1)] exchange_dispatch [OF X length_op_request d(2)]
    exchange_dispatch [OF X length_op_request d(3)] exchange_dispatch [OF X length_op_request d(4)]
    exchange_dispatch [OF X length_op_request d(5)]
  show ?thesis
    using acc release_wire.roundtrip [OF first_release_fits [OF len]]
    by (simp add: service_handle_full_flow_def Let_def x)
qed

lemma rejected_frames_pass:
  assumes X: "writes_proto3 X" and bad: "px_decode_request X [0xFF, 0xFF, 0xFF] = None"
  shows "service_rejects_oversized_and_malformed_frames dbg B X"
proof -
  have "exchange X P [0xFF, 0xFF, 0xFF] a k = k (fail_response 0 err_BAD_PROTO) a"
    "exchange X P (replicate (MAX_FRAME_LEN + 1) 0) a k = k (fail_response 0 err_FRAME_TOO_LARGE) a"
    for P :: "mock_tropic platform" and a k
    by (simp_all add: exchange_def handle_def decode_request_def bad encode_response_def decode_response_def
        writes_proto3D [OF X] MAX_FRAME_LEN_def)
  then show ?thesis by (simp add: service_rejects_oversized_and_malformed_frames_def Let_def)
qed

section \<open>All tests\<close>

definition host_tests :: "bool \<Rightarrow> blake3 \<Rightarrow> prost \<Rightarrow> bool list" where
  "host_tests dbg B X =
     [full_lifecycle_prepare_commit_emit_finalize dbg B, two_sequential_transfers dbg B,
      prepare_twice_is_rejected dbg B, commit_without_prepare_is_rejected dbg B,
      emit_without_commit_is_rejected, prepare_rejects_wrong_parent_and_bad_index dbg B,
      cancel_returns_to_ready_and_clears_record dbg B, commit_on_exhausted_counter_exports_nothing dbg B,
      accept_valid_release dbg B, accept_rejects_noncanonical_cert_disagreement dbg B,
      accept_rejects_unaccepted_parent_and_unpinned_anchor dbg B,
      accept_rejects_wrong_challenge_and_policy dbg B, accept_rejects_dsm_proof_failures dbg B,
      accept_rejects_counter_evidence_problems dbg B, accept_rejects_exposure_cap_and_compromise dbg B,
      recover_ready_accepts_current_root dbg B, recover_committed_reemits_and_advances dbg B,
      recover_prepared_can_complete dbg B, recover_prepared_downgrades_when_parent_diverged dbg B,
      recover_ready_stale_downgrades_and_ahead_fails_closed dbg B,
      recover_completes_durable_release_before_counter_commit dbg B,
      recover_marks_committed_when_counter_moved_but_flag_lost dbg B,
      recover_downgrades_when_parent_diverged dbg B, recover_downgrades_on_invalid_boundary dbg B,
      proto_request_roundtrip X, proto_release_roundtrip dbg B, service_handle_full_flow dbg B X,
      service_rejects_oversized_and_malformed_frames dbg B X]"

text \<open>
  C38: the end-to-end tests pass. Whatever the hash function is, in debug and release builds, with
  any codec that writes proto3 and refuses a message that ends inside a varint, the 28 tests of the
  lifecycle, the acceptance predicate, the recovery and the wire protocol that do not tamper with
  hashes pass; and the test of tampered digests, keys and signatures passes unless the hash collides
  between the signature of the release and its copy with the first byte flipped.
\<close>

theorem host_tests_pass:
  assumes codec: "writes_proto3 X" "refuses_open_varints X"
  shows "list_all (\<lambda>passed. passed) (host_tests dbg B X) \<and>
    (accept_rejects_tampered_digest_input_pkhash_and_sig dbg B \<or> release_tampering_collides dbg B)"
proof -
  have "px_decode_request X [0xFF, 0xFF, 0xFF] = None"
    using codec(2) by (simp add: refuses_open_varints_def)
  from rejected_frames_pass [OF codec(1) this] show ?thesis
    by (simp add: host_tests_def lifecycle_passes two_transfers_pass refused_operations_pass exhausted_passes
        acceptance_pass tampering_passes recover_simple_pass recover_stale_passes recover_reemits_passes
        recover_candidate_pass wire_roundtrips_pass [OF codec(1)] full_flow_passes [OF codec(1)])
qed

theorem host_tests_pass_witness:
  "list_all (\<lambda>passed. passed) (host_tests True sample_blake3 proto3)"
  using host_tests_pass [OF proto3_writes proto3_refuses, of True sample_blake3] by blast

end
