(* ===== verification/Double_Spend.thy ===== *)
theory Double_Spend
  imports Service_Properties
begin

text \<open>
  The appliance and its receivers together: of the releases that one served appliance sends, no two
  that differ are accepted from the same parent root.
\<close>

section \<open>Accepted releases of one appliance\<close>

text \<open>A release message in a response of the run, as decoded by its receiver.\<close>

definition sent_release :: "pb_response list \<Rightarrow> offline_release \<Rightarrow> bool" where
  "sent_release log rel \<longleftrightarrow>
     (\<exists>resp\<in>set log. \<exists>m. rs_release resp = Some m \<and> to_release m = Inr rel)"

lemma sent_on_chain:
  assumes wire: "wire_appliance P live"
    and run: "(wire_step P live)\<^sup>*\<^sup>* (appliance_new c e g anc q, []) (a, log)"
  obtains chain where "numbered chain" and "\<forall>rel. sent_release log rel \<longrightarrow> rel \<in> set chain"
    and "length chain \<le> unat (h0 a) - unat (live (tropic a))"
proof -
  obtain out A where o: "released log = map release_to_pb out" "\<forall>r\<in>set out. release_fits r"
    and rep: "represents P live g (a, out) A"
    using wire_appliance.wire_reachable [OF wire run] by blast
  have inv: "numbered (a_chain A)" "set out \<subseteq> set (a_chain A)" "length (a_chain A) \<le> chip_index live a"
    using rep by (auto simp: represents_def anchor_inv_def)
  have "rel \<in> set (a_chain A)" if sent: "sent_release log rel" for rel
  proof -
    obtain resp m where m: "resp \<in> set log" "rs_release resp = Some m" "to_release m = Inr rel"
      using sent by (auto simp: sent_release_def)
    then have "m \<in> release_to_pb ` set out" using in_released [OF m(1,2)] o(1) by simp
    with o(2) m(3) inv(2) show ?thesis using release_wire.roundtrip by fastforce
  qed
  with inv(1,3) show thesis by (intro that) (auto simp: chip_index_def)
qed

lemma accepted_same_index:
  assumes "accept_offline dbg B S V C (rel\<lparr>rel_counter := ev\<rparr>) ctx = Done ()"
    and "accept_offline dbg' B' S' V' C' (rel'\<lparr>rel_counter := ev'\<rparr>) ctx' = Done ()"
    and "accepted_prev_root ctx = accepted_prev_root ctx'"
    and "\<And>h i j. root_commits_counter V h i \<Longrightarrow> root_commits_counter V' h j \<Longrightarrow> i = j"
  shows "rel_index rel = rel_index rel'"
proof -
  note x = accepted_expects [OF assms(1)] accepted_expects [OF assms(2)]
  have "anchor_counter (rel_transition rel) = anchor_counter (rel_transition rel')"
    using x(1,4) assms(3) by (intro assms(4)) (auto simp: receiver_expects_def Let_def)
  with x(3,6) show ?thesis by (simp add: rel_index_def)
qed

text \<open>
  C5: no double spend. Take any run of a served appliance, with power losses, recoveries and outside
  counter steps, and any two releases it sent. If two receivers that start from the same parent
  root accept them, each with its own verifiers, counter evidence and context, and a root commits
  at most one anchor counter, then it is one and the same release: both receivers' DSM verifiers
  found the same transition delivered to them, and the counter had moved past its index.
\<close>

theorem no_double_spend:
  assumes wire: "wire_appliance P live"
    and run: "(wire_step P live)\<^sup>*\<^sup>* (appliance_new c e g anc q, []) (a, log)"
    and sent: "sent_release log rel" "sent_release log rel'"
    and acc: "accept_offline dbg B S V C (rel\<lparr>rel_counter := ev\<rparr>) ctx = Done ()"
    and acc': "accept_offline dbg' B' S' V' C' (rel'\<lparr>rel_counter := ev'\<rparr>) ctx' = Done ()"
    and parent: "accepted_prev_root ctx = accepted_prev_root ctx'"
    and commits: "\<And>h i j. root_commits_counter V h i \<Longrightarrow> root_commits_counter V' h j \<Longrightarrow> i = j"
  shows "rel = rel' \<and> delivers_to_receiver V (rel_transition rel) \<and>
    delivers_to_receiver V' (rel_transition rel) \<and>
    unat (next_anchor_counter (rel_transition rel)) \<le> unat (h0 a) - unat (live (tropic a))"
proof -
  obtain chain where ch: "numbered chain" "\<forall>rel. sent_release log rel \<longrightarrow> rel \<in> set chain"
    "length chain \<le> unat (h0 a) - unat (live (tropic a))"
    by (rule sent_on_chain [OF wire run])
  have eq: "rel = rel'"
    by (rule numbered_unique [OF ch(1) ch(2) [rule_format, OF sent(1)] ch(2) [rule_format, OF sent(2)]
        accepted_same_index [OF acc acc' parent commits]])
  moreover have "rel_index rel \<le> length chain"
    by (rule numbered_bound(2) [OF ch(1) ch(2) [rule_format, OF sent(1)]])
  ultimately show ?thesis
    using accepted_expects(1) [OF acc] accepted_expects(1) [OF acc'] ch(3)
    by (simp add: receiver_expects_def Let_def rel_index_def)
qed

text \<open>The receiver of the host tests with a DSM tree in which every root commits index 0.\<close>

theorem no_double_spend_witness:
  "\<exists>(a :: mock_tropic appliance) log rel.
     (wire_step test_platform mock_h)\<^sup>*\<^sup>* (test_appliance 100, []) (a, log) \<and> sent_release log rel \<and>
     (\<forall>rel'. sent_release log rel' \<longrightarrow>
        accept_offline True sample_blake3 (wots_blake3 sample_blake3) (ok_dsm\<lparr>root_commits_counter := \<lambda>_ i. i = 0\<rparr>)
          ok_counter (rel'\<lparr>rel_counter := test_evidence 99\<rparr>) test_ctx = Done () \<longrightarrow> rel' = rel)"
proof -
  let ?V = "ok_dsm\<lparr>root_commits_counter := \<lambda>_ i. i = 0\<rparr>"
  obtain a1 a rel log resp where
    r: "prepare test_platform test_step0 (fill32 0x55) (test_appliance 100) = (Done (), a1)"
      "commit test_platform a1 = (Done (), a)" "mock_h (tropic a) = 99" "emit a = Inr rel"
    and run: "(wire_step test_platform mock_h)\<^sup>*\<^sup>* (test_appliance 100, []) (a, log)"
    and resp: "resp \<in> set log" "rs_release resp = Some (release_to_pb rel)"
    by (rule test_served)
  have "release_fits rel"
    by (rule transfer_release_fits [OF _ r(1,2,4) test_step0_fits]) (simp add: wots_wire.wire_scheme_axioms)
  then have sent: "sent_release log rel"
    using resp release_wire.roundtrip unfolding sent_release_def by blast
  have "\<exists>rel'. emit a = Inr rel' \<and> rel_transition rel' = test_step0 \<and>
      accept_offline (pf_debug test_platform) (pf_blake3 test_platform) (pf_sig test_platform)
        ?V ok_counter (rel'\<lparr>rel_counter := test_evidence 99\<rparr>) test_ctx = Done ()"
    by (rule honest_transfer [OF mock_app.appliance_chip_axioms _ r(1,2)])
      (simp_all add: wots.witness_scheme_axioms test_ctx_def ok_dsm_def ok_counter_def
        test_evidence_def test_appliance_def appliance_new_def test_transition_def r(3))
  then have acc: "accept_offline True sample_blake3 (wots_blake3 sample_blake3) ?V ok_counter
      (rel\<lparr>rel_counter := test_evidence 99\<rparr>) test_ctx = Done ()"
    using r(4) by simp
  have "rel' = rel" if "sent_release log rel'"
    "accept_offline True sample_blake3 (wots_blake3 sample_blake3) ?V ok_counter
      (rel'\<lparr>rel_counter := test_evidence 99\<rparr>) test_ctx = Done ()" for rel'
    using no_double_spend [OF mock_wire.wire_appliance_axioms run [unfolded test_appliance_def] that(1) sent that(2) acc]
    by simp
  with run sent show ?thesis by blast
qed

end
