(* ===== verification/Answers.thy ===== *)
theory Answers
  imports Serve
begin

text \<open>
  Induction over what the service loop sends: a statement about the appliance and the responses
  given so far that every answered frame keeps is kept by any number of turns of the loop, whatever
  the packets are.
\<close>

text \<open>What is handed to the writer: the responses, each behind its length prefix.\<close>

definition answers :: "byte list list \<Rightarrow> byte list list" where
  "answers rs = concat (map (\<lambda>r. [u32_le (of_nat (length r)), r]) rs)"

lemma answers_simps [simp]:
  "answers [] = []"
  "answers (r # rs) = u32_le (of_nat (length r)) # r # answers rs"
  "answers (rs @ rs') = answers rs @ answers rs'"
  by (simp_all add: answers_def)

lemma concat_answers: "concat (answers rs) = concat (map framed rs)"
  by (induction rs) (simp_all add: framed_def)

locale answer_invariant =
  fixes X :: prost and P :: "'c platform" and St :: "'c appliance \<Rightarrow> byte list list \<Rightarrow> bool"
  assumes handled: "St a rs \<Longrightarrow> length f \<le> MAX_RX_FRAME \<Longrightarrow> handle X P f a = (Some r, a') \<Longrightarrow>
    St a' (rs @ [r])"
begin

lemma drain_keeps:
  assumes "drain X P rx a = Some (out, rx', a')" and "St a rs"
  shows "\<exists>rs'. out = answers rs' \<and> St a' (rs @ rs')"
  using assms
proof (induction "length rx" arbitrary: rx a out rs rule: less_induct)
  case less
  show ?case
  proof (cases "has_frame rx")
    case False
    with less.prems show ?thesis by (intro exI [of _ "[]"]) (simp add: drain_eq)
  next
    case True
    with less.prems(1) obtain resp b rest where h: "handle X P (first_frame rx) a = (Some resp, b)"
      and d: "drain X P (after_frame rx) b = Some (rest, rx', a')"
      and out: "out = u32_le (of_nat (length resp)) # resp # rest"
      by (subst (asm) (2) drain_eq) (auto split: option.splits prod.splits)
    have "length (first_frame rx) \<le> MAX_RX_FRAME" using True by (simp add: has_frame_def min.coboundedI2)
    note step = handled [OF less.prems(2) this h]
    obtain rs' where "rest = answers rs'" "St a' ((rs @ [resp]) @ rs')"
      using less.hyps [OF after_frame_shorter [OF True] d step] by blast
    then show ?thesis by (intro exI [of _ "resp # rs'"]) (simp add: out)
  qed
qed

lemma serve_reads_keeps:
  assumes "serve_reads X P reads rx a = Some (out, rx', a')" and "St a rs"
  shows "\<exists>rs'. out = answers rs' \<and> St a' (rs @ rs')"
  using assms
proof (induction reads arbitrary: rx a out rs)
  case Nil
  then show ?case by (intro exI [of _ "[]"]) simp
next
  case (Cons r reads)
  show ?case
  proof (cases "r = None \<or> r = Some []")
    case True
    with Cons show ?thesis by auto
  next
    case False
    then obtain chunk where chunk: "r = Some chunk" "chunk \<noteq> []" by auto
    with Cons.prems obtain o1 rx1 a1 o2 where r: "receive X P chunk rx a = Some (o1, rx1, a1)"
      and rest: "serve_reads X P reads rx1 a1 = Some (o2, rx', a')"
      and out: "out = o1 @ o2"
      by (fastforce split: option.splits if_splits)
    obtain rs1 where o1: "o1 = answers rs1" "St a1 (rs @ rs1)"
      using drain_keeps [OF r [unfolded receive_def Let_def] Cons.prems(2)] by blast
    obtain rs2 where o2: "o2 = answers rs2" "St a' ((rs @ rs1) @ rs2)"
      using Cons.IH [OF rest o1(2)] by blast
    from o1 o2 show ?thesis by (intro exI [of _ "rs1 @ rs2"]) (simp add: out)
  qed
qed

lemma serve_turns_keeps:
  assumes port: "usb_port D sent got" and nf: "never_fails D"
    and run: "serve_turns n X P D (rx, a, u) = Some (rx', a', u')" and "St a rs"
  shows "\<exists>rs'. sent u' = sent u @ concat (map framed rs') \<and> St a' (rs @ rs')"
proof -
  obtain chunks out where "serve_reads X P (map Some chunks) rx a = Some (out, rx', a')"
    and "sent u' = sent u @ concat out"
    using serve_turns_reads [OF port nf run] by blast
  with serve_reads_keeps [OF _ assms(4)] show ?thesis by (metis concat_answers)
qed

end

end
