(* ===== verification/Response_Size.thy ===== *)
theory Response_Size
  imports Host_Script_Properties Answers
begin

text \<open>
  How long the firmware's answers can be. A transition that reached the device came in a frame of at
  most \<open>MAX_RX_FRAME\<close> bytes, so its opaque fields are that short together; keys and signatures have
  the sizes of the WOTS scheme; the transcript is empty. This bounds every response on any chip,
  and with it the buffers of the service loop, which share a heap of 64 KiB.
\<close>

section \<open>A decoded request is no longer than its frame\<close>

text \<open>What is asked of the decoder of prost: it does not invent bytes.\<close>

definition opaque_length :: "pb_transition \<Rightarrow> nat" where
  "opaque_length m =
     length (tp_action_fields m) + length (tp_old_leaf_proof m) + length (tp_new_leaf_proof m)"

definition decodes_within :: "prost \<Rightarrow> bool" where
  "decodes_within X \<longleftrightarrow>
     (\<forall>bs r m. px_decode_request X bs = Some r \<longrightarrow> rq_transition r = Some m \<longrightarrow> opaque_length m \<le> length bs)"

text \<open>The parser has this property: the bytes of different fields are different bytes of the input.\<close>

definition held :: "(nat \<rightharpoonup> field_value) \<Rightarrow> nat \<Rightarrow> nat" where
  "held m f = (case m f of Some (VBytes bs) \<Rightarrow> length bs | _ \<Rightarrow> 0)"

lemma held_bytes: "length (bytes_at f m) \<le> held m f"
  by (simp add: bytes_at_def held_def split: option.split field_value.split)

lemma held_update:
  assumes "finite S"
  shows "(\<Sum>f\<in>S. held (m(k \<mapsto> v)) f) \<le> (\<Sum>f\<in>S. held m f) + held [k \<mapsto> v] k"
proof (cases "k \<in> S")
  case True
  have "(\<Sum>f\<in>S - {k}. held (m(k \<mapsto> v)) f) = (\<Sum>f\<in>S - {k}. held m f)"
    by (rule sum.cong) (simp_all add: held_def)
  with assms True show ?thesis by (simp add: sum.remove [of S k] held_def)
next
  case False
  then have "(\<Sum>f\<in>S. held (m(k \<mapsto> v)) f) = (\<Sum>f\<in>S. held m f)"
    by (intro sum.cong) (auto simp: held_def)
  then show ?thesis by simp
qed

lemma parse_loop_held:
  assumes "finite S" and "parse_loop body i out = Inr m"
  shows "(\<Sum>f\<in>S. held m f) \<le> (\<Sum>f\<in>S. held out f) + (length body - i)"
  using assms(2)
proof (induction "length body - i" arbitrary: i out rule: less_induct)
  case less
  show ?case
  proof (cases "i < length body")
    case False
    with less.prems show ?thesis by (subst (asm) parse_loop.simps) simp
  next
    case True
    with less.prems obtain t j where t: "read_varint body i = Inr (t, j)"
      by (subst (asm) parse_loop.simps) (auto split: sum.splits)
    let ?field = "drop_bit 3 t"
    consider (int) v k where "read_varint body j = Inr (v, k)"
        "parse_loop body k (out(?field \<mapsto> VInt v)) = Inr m"
      | (bytes) ln k where "read_varint body j = Inr (ln, k)"
        "parse_loop body (k + ln) (out(?field \<mapsto> VBytes (take ln (drop k body)))) = Inr m"
      using less.prems True t
      by (subst (asm) (2) parse_loop.simps) (auto simp: Let_def split: sum.splits if_splits)
    then show ?thesis
    proof cases
      case int
      then have k: "i < k" "k \<le> length body"
        using read_varint_advances [OF t] read_varint_advances [OF int(1)] by simp_all
      with True have "length body - k < length body - i" by linarith
      from less.hyps [OF this int(2)] held_update [OF assms(1), of out ?field "VInt v"] k
      show ?thesis by (simp add: held_def [of "[_ \<mapsto> _]"])
    next
      case bytes
      let ?v = "VBytes (take ln (drop k body))"
      have k: "i < k" "k \<le> length body"
        using read_varint_advances [OF t] read_varint_advances [OF bytes(1)] by simp_all
      with True have "length body - (k + ln) < length body - i" by linarith
      note less.hyps [OF this bytes(2)]
      also have "(\<Sum>f\<in>S. held (out(?field \<mapsto> ?v)) f) + (length body - (k + ln)) \<le>
          (\<Sum>f\<in>S. held out f) + min ln (length body - k) + (length body - (k + ln))"
        using held_update [OF assms(1), of out ?field ?v] by (simp add: held_def [of "[_ \<mapsto> _]"] min.commute)
      finally show ?thesis using k by linarith
    qed
  qed
qed

lemma parse_held:
  assumes "finite S" and "parse bs = Inr m"
  shows "(\<Sum>f\<in>S. held m f) \<le> length bs"
  using parse_loop_held [OF assms(1) assms(2) [unfolded parse_def]] by (simp add: held_def)

lemma proto3_decodes_within: "decodes_within proto3"
  unfolding decodes_within_def
proof (intro allI impI)
  fix bs r m
  assume "px_decode_request proto3 bs = Some r" and m: "rq_transition r = Some m"
  then obtain f where f: "parse bs = Inr f" "r = read_request f"
    by (auto simp: proto3_def split: sum.splits)
  with m obtain sub g where sub: "f 2 = Some (VBytes sub)" "parse sub = Inr g" "m = read_transition g"
    by (auto simp: read_request_def msg_at_def split: option.splits field_value.splits sum.splits)
  have "opaque_length m \<le> (\<Sum>f\<in>{10, 12, 13}. held g f)"
    using held_bytes [of 10 g] held_bytes [of 12 g] held_bytes [of 13 g]
    by (simp add: opaque_length_def sub(3) read_transition_def)
  also have "\<dots> \<le> length sub" by (rule parse_held [OF _ sub(2)]) simp
  also have "\<dots> \<le> length bs" using parse_held [OF _ f(1), of "{2}"] sub(1) by (simp add: held_def)
  finally show "opaque_length m \<le> length bs" .
qed

section \<open>What the device stores\<close>

definition payload :: "owned_transition \<Rightarrow> nat" where
  "payload t = length (action_fields t) + length (old_leaf_proof t) + length (new_leaf_proof t)"

definition small_transition :: "owned_transition \<Rightarrow> bool" where
  "small_transition t \<longleftrightarrow> transition_fits t \<and> payload t \<le> MAX_RX_FRAME"

definition small_release :: "offline_release \<Rightarrow> bool" where
  "small_release r \<longleftrightarrow>
     small_transition (rel_transition r) \<and> length (c_pk_hw (rel_cert r)) = 32 \<and>
     length (c_sigma (rel_cert r)) = SIG_LEN \<and> ev_verifier_transcript (rel_counter r) = []"

lemma opaque_length_pb [simp]: "opaque_length (transition_to_pb t) = payload t"
  by (simp add: opaque_length_def payload_def transition_to_pb_def)

lemma firmware_contents:
  fixes S :: "'s session"
  shows "record_contents (firmware_platform dbg B S) small_transition small_release"
proof
  fix p :: prepared_record and seed sigma hv and a :: "'s appliance"
  assume "small_transition (p_txn p)"
    and "p_pk_hw p = snd (ws_keygen (pf_sig (firmware_platform dbg B S)) seed)"
    and "ws_sign (pf_sig (firmware_platform dbg B S)) (p_sk_hw p) (p_cert_message p) = Some sigma"
  then show "small_release (commit_release a p sigma hv)"
    by (simp add: small_release_def commit_release_def wots_keygen_lengths wots_sign_length wots_params)
qed

interpretation firmware: record_contents "firmware_platform dbg B S" small_transition small_release
  for dbg B S
  by (rule firmware_contents)

abbreviation small_record :: "'c platform \<Rightarrow> 'c appliance \<Rightarrow> bool" where
  "small_record P \<equiv> record_ok P small_transition small_release"

section \<open>The responses\<close>

definition MAX_RESPONSE :: nat where "MAX_RESPONSE = 11201"

lemma length_small_release:
  assumes "small_release rel"
  shows "length (encode_fields (wire_release (release_to_pb rel))) \<le> 11104"
proof -
  note small = assms [unfolded small_release_def small_transition_def payload_def MAX_RX_FRAME_def wots_params]
  have "length (encode_fields (wire_transition (transition_to_pb (rel_transition rel)))) \<le> 344 + 8192"
    using length_wire_transition [of "rel_transition rel"] small by simp
  moreover have "cert_fits (rel_cert rel)" "evidence_fits (rel_counter rel)"
    using small by (simp_all add: cert_fits_def evidence_fits_def wire_bounds)
  then have "length (encode_fields (wire_cert (cert_to_pb (rel_cert rel)))) \<le> 302 + 32 + 2144"
    "length (encode_fields (wire_evidence (evidence_to_pb (rel_counter rel)))) \<le> 75"
    using length_wire_cert [of "rel_cert rel"] length_wire_evidence [of "rel_counter rel"] small by simp_all
  ultimately have "length (encode_fields (wire_release (release_to_pb rel))) \<le>
      5 + (344 + 8192) + (5 + (302 + 32 + 2144) + (5 + 75))"
    unfolding wire_release_def encode_fields_simps
    by (intro sum_le length_opt_msg) (simp_all add: release_to_pb_def)
  then show ?thesis by simp
qed

lemma length_small_response:
  assumes "\<And>m. rs_release r = Some m \<Longrightarrow> \<exists>rel. m = release_to_pb rel \<and> small_release rel"
    and "length (rs_active_root r) \<le> 32"
  shows "length (encode_fields (wire_response r)) \<le> MAX_RESPONSE"
proof -
  have rel: "length (encode_fields (wire_release m)) \<le> 11104" if "rs_release r = Some m" for m
    using assms(1) [OF that] length_small_release by auto
  have "length (encode_fields (wire_response r)) \<le>
      11 + (11 + (11 + (5 + 11104 + (37 + (11 + 11)))))"
    unfolding wire_response_def encode_fields_simps
    using assms(2) rel by (intro length_opt length_opt_msg) simp_all
  then show ?thesis by (simp add: MAX_RESPONSE_def)
qed

lemma dispatch_active_root:
  "dispatch P req a = (Some resp, a') \<Longrightarrow> length (rs_active_root resp) \<le> 32"
  by (auto simp: dispatch_def dispatch_prepare_def reply_def response_defs Let_def
      split: option.splits pb_op.splits sum.splits prod.splits outcome.splits)

lemma dispatch_small:
  assumes small: "small_record P a" and d: "dispatch P req a = (Some resp, a')"
    and rel: "rs_release resp = Some m"
  shows "\<exists>rel. m = release_to_pb rel \<and> small_release rel"
proof (cases rule: dispatch_cases [of P req a])
  case (emit rel r)
  with d rel emit_record_ok [OF small emit(2)] show ?thesis by auto
qed (use d rel in \<open>auto simp: reply_def split: outcome.splits\<close>)

lemma handle_small:
  assumes X: "writes_proto3 X" "decodes_within X" and len: "length frame \<le> MAX_RX_FRAME"
    and small: "small_record (firmware_platform dbg B S) a"
    and h: "handle X (firmware_platform dbg B S) frame a = (Some b, a')"
  shows "length b \<le> MAX_RESPONSE" and "small_record (firmware_platform dbg B S) a'"
proof -
  let ?P = "firmware_platform dbg B S"
  have short: "length (encode_response X (fail_response x e)) \<le> MAX_RESPONSE" for x e
    using length_small_response [of "fail_response x e"]
    by (simp add: encode_response_def writes_proto3D [OF X(1)] response_defs)
  consider (refused) x e where "b = encode_response X (fail_response x e)" "a' = a"
    | (answered) req resp where "px_decode_request X frame = Some req" "dispatch ?P req a = (Some resp, a')"
      "b = encode_response X resp"
    using h by (auto simp: handle_def decode_request_def split: if_splits option.splits prod.splits)
  then have "length b \<le> MAX_RESPONSE \<and> small_record ?P a'"
  proof cases
    case refused
    with small short show ?thesis by simp
  next
    case (answered req resp)
    have "small_transition t" if "rq_transition req = Some (transition_to_pb t)" "transition_fits t" for t
    proof -
      have "opaque_length (transition_to_pb t) \<le> length frame"
        using X(2) answered(1) that(1) unfolding decodes_within_def by blast
      with len that(2) show ?thesis by (simp add: small_transition_def)
    qed
    from firmware.dispatch_record_ok [OF small answered(2) this]
      length_small_response [OF dispatch_small [OF small answered(2)] dispatch_active_root [OF answered(2)]]
    show ?thesis by (simp add: answered(3) encode_response_def writes_proto3D [OF X(1)])
  qed
  then show "length b \<le> MAX_RESPONSE" and "small_record ?P a'" by blast+
qed

section \<open>The service loop\<close>

text \<open>A state with a small record, and responses that are short.\<close>

definition small_so_far :: "'c platform \<Rightarrow> 'c appliance \<Rightarrow> byte list list \<Rightarrow> bool" where
  "small_so_far P a rs \<longleftrightarrow> small_record P a \<and> (\<forall>r\<in>set rs. length r \<le> MAX_RESPONSE)"

lemma small_answer_invariant:
  assumes "writes_proto3 X" "decodes_within X"
  shows "answer_invariant X (firmware_platform dbg B S) (small_so_far (firmware_platform dbg B S))"
  using handle_small [OF assms] by unfold_locales (auto simp: small_so_far_def)

lemma boot_small: "small_record (firmware_platform dbg B S) (snd (boot_recover dbg B S s))"
  unfolding boot_recover_def boot_appliance_def
  by (rule recover_record_ok) (simp split: prod.split sum.split)

lemma boot_main_small:
  assumes "boot_main X dbg B S D u0 = Some (rec, a, u)"
  shows "small_record (firmware_platform dbg B S) a"
proof -
  obtain s where "boot_recover dbg B S s = (rec, a)" by (rule boot_main_SomeE [OF assms])
  with boot_small [of dbg B S s] show ?thesis by simp
qed

text \<open>
  C25: the answers of the device are short. From power-on, on any chip and whatever the host sends,
  the bytes written by the service loop are a sequence of responses of at most 11201 bytes, each
  behind a prefix that gives its length, which those four bytes can hold; and the receive buffer
  holds at most one maximal request with its prefix. The two together leave more than two thirds of
  the 64 KiB heap.
\<close>

theorem responses_bounded:
  assumes X: "writes_proto3 X" "decodes_within X"
    and boot: "boot_main X dbg B S D u0 = Some (rec, a, u)"
    and port: "usb_port D sent got" and nf: "never_fails D"
    and run: "serve_turns n X (firmware_platform dbg B S) D ([], a, u) = Some (rx, a', u')"
  shows "length rx \<le> MAX_RX_FRAME + 4 \<and> MAX_RX_FRAME + 4 + MAX_RESPONSE < HEAP_SIZE div 3 \<and>
    (\<exists>rs. sent u' = sent u @ concat (map framed rs) \<and>
       (\<forall>r\<in>set rs. length r \<le> MAX_RESPONSE \<and> from_le_bytes (take 4 (framed r)) = length r))"
proof -
  have start: "small_so_far (firmware_platform dbg B S) a []"
    using boot_main_small [OF boot] by (simp add: small_so_far_def)
  obtain rs where "sent u' = sent u @ concat (map framed rs)" "\<forall>r\<in>set rs. length r \<le> MAX_RESPONSE"
    using answer_invariant.serve_turns_keeps [OF small_answer_invariant [OF X] port nf run start]
    by (auto simp: small_so_far_def)
  moreover have "from_le_bytes (take 4 (framed r)) = length r" if "length r \<le> MAX_RESPONSE" for r
    using that from_le_bytes_eq [of "length r"] by (simp add: framed_def MAX_RESPONSE_def)
  moreover have "length rx \<le> MAX_RX_FRAME + 4"
    using serve_turns_reads [OF port nf run] serve_reads_bounded by fastforce
  ultimately show ?thesis by (auto simp: MAX_RX_FRAME_def MAX_RESPONSE_def HEAP_SIZE_def)
qed

end
