(* ===== verification/Boot_Examples.thy ===== *)
theory Boot_Examples
  imports Response_Size
begin

text \<open>
  Closed examples for the properties of the boot: a board whose clock ticks at every reading, the
  stand-in chip, and a first transfer.
\<close>

abbreviation test_session :: "mock_tropic session" where
  "test_session \<equiv> mock_session (mock_mac sample_blake3)"

lemma packet_clock: "clock_runs packet_board"
proof -
  let ?rest = "\<lambda>until (u :: packets). unat (until :: u64) - fst u"
  have below: "c < unat until" if "of_nat (min c 18446744073709551615) < (until :: u64)" for c until
  proof -
    have "min c 18446744073709551615 < 2 ^ LENGTH(64)" by simp
    then have "unat (of_nat (min c 18446744073709551615) :: u64) = min c 18446744073709551615"
      by (simp only: unsigned_of_nat take_bit_nat_eq_self of_nat_id)
    with that have "min c 18446744073709551615 < unat until" by (simp add: word_less_nat_alt)
    moreover have "unat until < 2 ^ LENGTH(64)" by (rule unsigned_less)
    ultimately show ?thesis by simp
  qed
  have "?rest until (snd (bd_ticks packet_board u)) \<le> ?rest until u \<and>
     (fst (bd_ticks packet_board u) < until \<longrightarrow> ?rest until (snd (bd_ticks packet_board u)) < ?rest until u) \<and>
     ?rest until (pt_poll packet_board u) \<le> ?rest until u \<and>
     ?rest until (pt_flush packet_board u) \<le> ?rest until u \<and>
     (\<forall>data. ?rest until (snd (pt_write packet_board data u)) \<le> ?rest until u \<and>
        ?rest until (bd_spi_transfer packet_board data u) \<le> ?rest until u)" for until u
    using below [of "fst u" until] by (cases u) (auto simp: packet_board_def)
  then show ?thesis unfolding clock_runs_def by (intro exI [of _ ?rest]) blast
qed

lemma packet_boot_keeps: "boot_keeps packet_board (\<lambda>(c, ps, s, g). ps = ps0 \<and> g = g0)"
  by (auto simp: boot_keeps_def packet_board_def)

lemma proto3_carries: "carries_self_test proto3"
proof -
  have "length (encode_fields (wire_request req)) \<le> MAX_FRAME_LEN" if "req \<in> set self_requests" for req
    using that length_prepare_request length_plain_request [THEN le_trans, of "64 * 1024"]
    by (auto simp: self_requests_def MAX_FRAME_LEN_def)
  then show ?thesis by (simp add: carries_self_test_def writes_proto3D [OF proto3_writes])
qed

lemma packet_setup [simp]: "run_setup (bd_hal packet_board) calls u = Some u"
  by (induction calls) (simp_all add: packet_board_def)

theorem boot_serves_iff_witness:
  "\<forall>X B u. \<exists>rec a u'. boot_main X False B test_session packet_board u = Some (rec, a, u')"
proof (intro allI)
  fix X B u
  obtain eh v where k: "ephemeral_key packet_board u = (eh, v)" by (metis prod.collapse)
  have "bd_session_start packet_board eh 0 (linked packet_board v)
      = (Some \<lparr> mock_h = 3, mock_secret = fill32 0xC0 \<rparr>, linked packet_board v)"
    by (simp add: packet_board_def)
  with k have "\<exists>u1 eh v u2 s z. run_setup (bd_hal packet_board) early_setup u = Some u1 \<and>
      ephemeral_key packet_board u1 = (eh, v) \<and> run_setup (bd_hal packet_board) late_setup v = Some u2 \<and>
      deadline_fits False (fst (bd_ticks packet_board u2)) 3000000 \<and>
      bd_session_start packet_board eh 0 (linked packet_board u2) = (Some s, z) \<and>
      deadline_fits False (fst (bd_ticks packet_board (report_start packet_board z))) 4000000"
    by - (rule exI [of _ u], rule exI [of _ eh], rule exI [of _ v], rule exI [of _ v],
        rule exI [of _ "\<lparr> mock_h = 3, mock_secret = fill32 0xC0 \<rparr>"],
        rule exI [of _ "linked packet_board v"], simp add: deadline_fits_def)
  with boot_serves_iff [OF mock_sess.chip_session_axioms packet_clock, where dbg = False and X = X and B = B and u = u]
  show "\<exists>rec a u'. boot_main X False B test_session packet_board u = Some (rec, a, u')" by blast
qed

theorem passing_report_witness:
  "\<exists>r s'. self_test_outcome proto3 True sample_blake3 test_session \<lparr> mock_h = 3, mock_secret = fill32 0xC0 \<rparr>
      = Some (Inr r, s') \<and> length (report_text (Inr r)) = 85"
  using passing_report [OF mock_sess.reliable_session_axioms [of "mock_mac sample_blake3"] proto3_carries,
      where s = "\<lparr> mock_h = 3, mock_secret = fill32 0xC0 \<rparr>" and dbg = True and B = sample_blake3]
  by (auto simp: crlf_def)

theorem report_never_cut_witness:
  "\<exists>r s'. self_test_outcome proto3 True sample_blake3 test_session \<lparr> mock_h = 3, mock_secret = fill32 0xC0 \<rparr>
      = Some (Inr r, s') \<and> length (report_text (Inr r)) \<le> 134"
proof -
  let ?s = "\<lparr> mock_h = 3, mock_secret = fill32 0xC0 \<rparr>"
  obtain v where e: "enroll test_session ?s = (Inr ENROLL_H0, v)"
    using mock_sess.enroll_result [of "mock_mac sample_blake3" ?s] by blast
  obtain r a where r: "self_test proto3 True sample_blake3 test_session (boot_appliance test_session ?s) = (Done r, a)"
    "self_test_pass r"
    using mock_sess.self_test_run [OF proto3_carries] by blast
  have o1: "self_test_outcome proto3 True sample_blake3 test_session ?s = Some (Inr r, tropic a)"
    using e r(1) by (simp add: self_test_outcome_def boot_appliance_def)
  have "case Inr r :: string + self_test_result of Inl _ \<Rightarrow> True | Inr r \<Rightarrow> t_pk_len r < 2 ^ 32 \<and> t_sig_len r < 2 ^ 32"
    using r(2) by (simp add: self_test_pass_def)
  from report_never_cut [OF o1 this] o1 show ?thesis by blast
qed

text \<open>The host's packets: the prepare request of the self-test's transition, then commit and emit.\<close>

lemma first_requests: "transfer_requests self_transition RCHAL = [prepare_request, plain_request OpCommit, plain_request OpEmit]"
  by (simp add: transfer_requests_def prepare_request_eq plain_request_def op_request_def)

abbreviation first_frames :: "byte list list" where
  "first_frames \<equiv> map (px_encode_request proto3) (transfer_requests self_transition RCHAL)"

abbreviation first_packets :: "byte list list" where
  "first_packets \<equiv> packets_of (concat (map framed first_frames))"

lemma first_carried: "carries_requests proto3 (transfer_requests self_transition RCHAL)"
  using length_prepare_request length_plain_request [of OpCommit] length_plain_request [of OpEmit]
  by (simp add: carries_requests_def first_requests writes_proto3D [OF proto3_writes] MAX_RX_FRAME_def)

text \<open>The board boots, whatever its host has queued.\<close>

lemma packet_boots:
  obtains a c log where "boot_main X False B (mock_session (mock_mac B)) packet_board (0, ps, [], [])
      = Some (Accept GENESIS, a, (c, ps, log, []))"
    and "\<exists>s. boot_recover False B (mock_session (mock_mac B)) s = (Accept GENESIS, a)"
proof -
  let ?S = "mock_session (mock_mac B)" and ?u0 = "(0, ps, [], []) :: packets"
  obtain eh v where k: "ephemeral_key packet_board ?u0 = (eh, v)" by (metis prod.collapse)
  obtain w where l: "link_phase False packet_board v = Some w"
    using link_phase_ends [OF packet_clock] by blast
  obtain z where ss: "bd_session_start packet_board eh 0 w = (Some \<lparr> mock_h = 3, mock_secret = fill32 0xC0 \<rparr>, z)"
    by (simp add: packet_board_def)
  obtain rec a u where boot: "boot_main X False B ?S packet_board ?u0 = Some (rec, a, u)"
    using boot_main_starts [OF mock_sess.chip_session_axioms packet_clock packet_setup packet_setup k l ss] by blast
  obtain c log where u: "u = (c, ps, log, [])"
    using boot_main_keeps [OF packet_boot_keeps [of ps "[]"] boot] by (cases u) auto
  obtain s where s: "boot_recover False B ?S s = (rec, a)" by (rule boot_main_SomeE [OF boot])
  with mock_sess.boot_recover_result [of False B "mock_mac B" s] have "rec = Accept GENESIS" by auto
  with boot s show thesis by (intro that [of a c log]) (auto simp: u)
qed

text \<open>It is then ready for a first transfer, which is served.\<close>

lemma first_boot:
  obtains a c s where "boot_main proto3 False sample_blake3 test_session packet_board (0, first_packets, [], [])
      = Some (Accept GENESIS, a, (c, first_packets, s, []))"
    and "offline_ready mock_h a" and "advances self_transition a"
proof -
  obtain a c log m where boot: "boot_main proto3 False sample_blake3 test_session packet_board (0, first_packets, [], [])
      = Some (Accept GENESIS, a, (c, first_packets, log, []))"
    and "boot_recover False sample_blake3 test_session m = (Accept GENESIS, a)"
    using packet_boots [of proto3 sample_blake3 first_packets] by metis
  then obtain m' where a: "a = appliance_new m' ENROLL_H0 GENESIS ANCHOR MD_SLOT" "mock_h m' = ENROLL_H0"
    using mock_sess.boot_recover_result [of False sample_blake3 "mock_mac sample_blake3" m] by auto
  have "prev_root self_transition = GENESIS" "anchor_counter self_transition = 0"
    "next_anchor_counter self_transition = 1"
    by (simp_all add: self_transition_def)
  with a have "offline_ready mock_h a" "advances self_transition a"
    by (simp_all add: offline_ready_def advances_def appliance_new_def ENROLL_H0_def)
  with that boot show thesis by blast
qed

lemma first_served:
  assumes "offline_ready mock_h a" and "advances self_transition a"
  obtains a' s' where "serve_turns (length first_packets) proto3 (firmware_platform False sample_blake3 test_session)
      packet_board ([], a, (c, first_packets, s, []))
    = Some ([], a', (c, [], s', concat (map framed first_frames)))"
proof -
  let ?P = "firmware_platform False sample_blake3 test_session"
  obtain a1 a2 rel where r: "prepare ?P self_transition RCHAL a = (Done (), a1)" "commit ?P a1 = (Done (), a2)"
    "emit a2 = Inr rel"
    using mock_sess.app.root_advance [OF assms, where dbg = False and B = sample_blake3 and rc = RCHAL]
      self_transition_fits(2) by metis
  note h = transfer_handled [OF first_carried r self_transition_fits(1)]
  obtain out where "serve_frames proto3 ?P first_frames a = Some (out, a2)"
    using h by (simp add: transfer_requests_def)
  moreover have "\<forall>f\<in>set first_frames. length f + 63 \<le> MAX_RX_FRAME"
    using first_carried by (simp add: carries_requests_def)
  ultimately have "serve_turns (length first_packets) proto3 ?P packet_board ([], a, (c, first_packets, s, [])) =
      Some ([], a2, (c, [], s @ concat out, [] @ concat (map framed first_frames)))"
    by (intro packets_served)
  with that show thesis by simp
qed

theorem power_on_transfer_accepted_witness:
  "\<exists>a u a' u' msg rel ev. boot_main proto3 False sample_blake3 test_session packet_board (0, first_packets, [], [])
      = Some (Accept GENESIS, a, u) \<and>
    serve_turns (length first_packets) proto3 (firmware_platform False sample_blake3 test_session) packet_board ([], a, u)
      = Some ([], a', u') \<and>
    to_release msg = Inr rel \<and> rel_transition rel = self_transition \<and>
    accept_offline False sample_blake3 (wots_blake3 sample_blake3) trivial_dsm self_counter
      (rel\<lparr>rel_counter := ev\<rparr>) self_test_ctx = Done ()"
proof -
  obtain a c s where boot: "boot_main proto3 False sample_blake3 test_session packet_board (0, first_packets, [], [])
      = Some (Accept GENESIS, a, (c, first_packets, s, []))"
    and ready: "offline_ready mock_h a" "advances self_transition a"
    by (rule first_boot)
  obtain a2 s2 where run: "serve_turns (length first_packets) proto3 (firmware_platform False sample_blake3 test_session)
      packet_board ([], a, (c, first_packets, s, []))
    = Some ([], a2, (c, [], s2, concat (map framed first_frames)))"
    by (rule first_served [OF ready])
  let ?ev = "\<lparr> ev_anchor_id = ANCHOR, ev_enrolled_counter = 1000, ev_live_counter_claim = ucast (mock_h (tropic a2)),
      ev_derived_index_claim = 1, ev_verifier_transcript = [] \<rparr>"
  have t: "prev_root self_transition = GENESIS" "anchor_counter self_transition = 0"
    "next_anchor_counter self_transition = 1" "transition_fits self_transition"
    by (simp_all add: self_transition_def self_transition_fits(1) [unfolded self_transition_def])
  note p = power_on_transfer_accepted [OF mock_sess.reliable_session_axioms boot packet_board_ok
      packet_board_never_fails first_carried t run, of self_test_ctx trivial_dsm ?ev self_counter]
  have "host_sent (c, [], s2, concat (map framed first_frames))
      = host_sent (c, first_packets, s, []) @
        concat (map (framed \<circ> px_encode_request proto3) (transfer_requests self_transition RCHAL))"
    by simp
  note p = p [OF this]
  have "\<exists>msg rel. to_release msg = Inr rel \<and> rel_transition rel = self_transition \<and>
      accept_offline False sample_blake3 (wots_blake3 sample_blake3) trivial_dsm self_counter
        (rel\<lparr>rel_counter := ?ev\<rparr>) self_test_ctx = Done ()"
    using p by (simp add: self_test_ctx_def trivial_dsm_def self_counter_def self_transition_def ENROLL_H0_def)
      blast
  with boot run show ?thesis by blast
qed

theorem responses_bounded_witness:
  "\<exists>a c s a' s'. boot_main proto3 False sample_blake3 test_session packet_board (0, first_packets, [], [])
      = Some (Accept GENESIS, a, (c, first_packets, s, [])) \<and>
    serve_turns (length first_packets) proto3 (firmware_platform False sample_blake3 test_session) packet_board
      ([], a, (c, first_packets, s, [])) = Some ([], a', (c, [], s', concat (map framed first_frames))) \<and>
    (\<exists>rs. s' = s @ concat (map framed rs) \<and> list_all (\<lambda>r. length r \<le> MAX_RESPONSE) rs)"
proof -
  obtain a c s where boot: "boot_main proto3 False sample_blake3 test_session packet_board (0, first_packets, [], [])
      = Some (Accept GENESIS, a, (c, first_packets, s, []))"
    and ready: "offline_ready mock_h a" "advances self_transition a"
    by (rule first_boot)
  obtain a2 s2 where run: "serve_turns (length first_packets) proto3 (firmware_platform False sample_blake3 test_session)
      packet_board ([], a, (c, first_packets, s, []))
    = Some ([], a2, (c, [], s2, concat (map framed first_frames)))"
    by (rule first_served [OF ready])
  from responses_bounded [OF proto3_writes proto3_decodes_within boot packet_board_ok packet_board_never_fails run]
    boot run
  show ?thesis by (auto simp: list_all_iff)
qed

text \<open>The script against the booted stand-in: its terminal first shows the end of the boot log.\<close>

lemma loop_quiet:
  "read_until_quiet (loop_tty X P) 30000 2500 (0, [80, 65, 83, 83], a) = Some ([80, 65, 83, 83], (9, [], a))"
proof -
  let ?T = "loop_tty X P" and ?log = "[80, 65, 83, 83] :: byte list"
  have "quiet_loop ?T 30000 2500 [] 500 (2, ?log, a) = quiet_loop ?T 30000 2500 ?log 1500 (5, [], a)"
    by (subst quiet_loop.simps) (simp add: loop_tty_def read_some_def)
  also have "\<dots> = quiet_loop ?T 30000 2500 ?log 1500 (7, [], a)"
    by (subst quiet_loop.simps) (simp add: loop_tty_def)
  also have "\<dots> = Some (?log, (9, [], a))"
    by (subst quiet_loop.simps) (simp add: loop_tty_def)
  finally show ?thesis by (simp add: read_until_quiet_def) (simp add: loop_tty_def numeral_2_eq_2)
qed

theorem host_script_passes_witness:
  "\<exists>a d. boot_recover False sample_blake3 test_session \<lparr> mock_h = 3, mock_secret = fill32 0xC0 \<rparr> = (Accept GENESIS, a) \<and>
    script_main (loop_tty proto3 (firmware_platform False sample_blake3 test_session)) (0, [80, 65, 83, 83], a)
      = Some (Inr True, d) \<and> mock_h (tropic (snd (snd d))) = 999"
proof -
  let ?s = "\<lparr> mock_h = 3, mock_secret = fill32 0xC0 \<rparr>"
  obtain a where boot: "boot_recover False sample_blake3 test_session ?s = (Accept GENESIS, a)"
    using mock_sess.boot_recover_result [of False sample_blake3 "mock_mac sample_blake3" ?s] by blast
  show ?thesis
    using host_script_passes [OF mock_sess.reliable_session_axioms boot proto3_writes loop.served_tty_axioms
        loop_in_time loop_quiet] boot
    by (force simp: ENROLL_H0_def)
qed

end
