(* ===== verification/Whole_System.thy ===== *)
theory Whole_System
  imports Boot_Examples
begin

text \<open>
  The host script against the device as a whole: the firmware boots on the board of the closed
  examples, the script reads the boot log until it is quiet, and then every frame it writes goes in
  packets through the port to the service loop, whose answers it reads.
\<close>

section \<open>A terminal over the USB port\<close>

text \<open>
  The state: a clock, what the device has sent and the script has not read, the appliance, and the
  board without its queue of packets. A write puts its packets into the queue and lets the service
  loop take as many turns. The clock stands still while there is something to read, and then moves by
  half a second at every reading, up to 4.5 seconds.
\<close>

type_synonym 'c usb_link = "nat \<times> byte list \<times> 'c appliance \<times> nat \<times> byte list \<times> byte list"

definition usb_tty :: "prost \<Rightarrow> 'c platform \<Rightarrow> 'c usb_link tty" where
  "usb_tty X P =
     \<lparr> tty_write = (\<lambda>bs (k, r, a, c, s, g).
         case serve_turns (length (packets_of bs)) X P packet_board ([], a, (c, packets_of bs, s, g)) of
           None \<Rightarrow> (k, r, a, c, s, g)
         | Some (_, a, (c, _, s', g)) \<Rightarrow> (k, r @ drop (length s) s', a, c, s', g)),
       tty_ready = (\<lambda>(k, r, u). (r \<noteq> [], (k, r, u))),
       tty_read = (\<lambda>n (k, r, u). (Some (take n r), (k, drop n r, u))),
       tty_now = (\<lambda>(k, r, u). (int (min (500 * k) 4500), (if r = [] then Suc k else k, r, u))) \<rparr>"

lemma usb_tty_write:
  assumes "length body + 63 \<le> MAX_RX_FRAME" and "handle X P body a = (Some resp, a')"
  shows "tty_write (usb_tty X P) (framed body) (k, r, a, c, s, g)
    = (k, r @ framed resp, a', c, s @ framed resp, g @ framed body)"
  using packets_served [of "[body]" X P a _ a' c s g] assms
  by (simp add: usb_tty_def framed_def [of resp])

interpretation usb: served_tty "usb_tty X P" X P "fst \<circ> snd" "fst \<circ> snd \<circ> snd" for X P
proof unfold_locales
  fix body :: "byte list" and d :: "'a usb_link" and resp a
  obtain k r b c s g where d: "d = (k, r, b, c, s, g)" by (metis prod.collapse)
  assume "length body + 63 \<le> MAX_RX_FRAME" "handle X P body ((fst \<circ> snd \<circ> snd) d) = (Some resp, a)"
  with usb_tty_write [of body X P b resp a] show
    "(fst \<circ> snd) (tty_write (usb_tty X P) (framed body) d) = (fst \<circ> snd) d @ framed resp \<and>
     (fst \<circ> snd \<circ> snd) (tty_write (usb_tty X P) (framed body) d) = a"
    by (simp add: d)
qed (auto simp: usb_tty_def)

lemma usb_in_time: "in_time (usb_tty X P)"
  unfolding in_time_def by (intro exI [of _ 0]) (auto simp: usb_tty_def)

section \<open>The log is read until it is quiet\<close>

lemma usb_silence:
  "quiet_loop (usb_tty X P) 30000 2500 buf 0 (2, [], u) = Some (buf, (6, [], u))"
proof -
  let ?T = "usb_tty X P"
  have "quiet_loop ?T 30000 2500 buf 0 (2, [], u) = quiet_loop ?T 30000 2500 buf 0 (4, [], u)"
    by (subst quiet_loop.simps) (simp add: usb_tty_def)
  also have "\<dots> = Some (buf, (6, [], u))"
    by (subst quiet_loop.simps) (simp add: usb_tty_def)
  finally show ?thesis .
qed

lemma usb_log_read:
  assumes "r \<noteq> []"
  shows "quiet_loop (usb_tty X P) 30000 2500 buf 0 (0, r, u) = Some (buf @ r, (6, [], u))"
  using assms
proof (induction "length r" arbitrary: r buf rule: less_induct)
  case less
  let ?T = "usb_tty X P"
  show ?case
  proof (cases "length r \<le> 1024")
    case True
    have "quiet_loop ?T 30000 2500 buf 0 (0, r, u) = quiet_loop ?T 30000 2500 (buf @ r) 0 (2, [], u)"
      using True less.prems by (subst quiet_loop.simps) (simp add: usb_tty_def read_some_def numeral_2_eq_2)
    then show ?thesis by (simp add: usb_silence)
  next
    case False
    then have "drop 1024 r \<noteq> []" "length (drop 1024 r) < length r" by simp_all
    note ih = less.hyps [OF this(2,1), of "buf @ take 1024 r"]
    have "quiet_loop ?T 30000 2500 buf 0 (0, r, u) =
        quiet_loop ?T 30000 2500 (buf @ take 1024 r) 0 (0, drop 1024 r, u)"
      using False less.prems by (subst quiet_loop.simps) (simp add: usb_tty_def read_some_def)
    with ih show ?thesis by simp
  qed
qed

lemma usb_log_quiet:
  "\<exists>k. read_until_quiet (usb_tty X P) 30000 2500 (0, r, u) = Some (r, (k, [], u))"
proof (cases "r = []")
  case True
  let ?T = "usb_tty X P"
  have "quiet_loop ?T 30000 2500 [] 500 (2, [], u) = quiet_loop ?T 30000 2500 [] 500 (4, [], u)"
    by (subst quiet_loop.simps) (simp add: usb_tty_def)
  also have "\<dots> = quiet_loop ?T 30000 2500 [] 500 (6, [], u)"
    by (subst quiet_loop.simps) (simp add: usb_tty_def)
  also have "\<dots> = Some ([], (8, [], u))"
    by (subst quiet_loop.simps) (simp add: usb_tty_def)
  finally show ?thesis using True
    by (simp add: read_until_quiet_def) (simp add: usb_tty_def numeral_2_eq_2)
next
  case False
  from usb_log_read [OF this, of X P "[]" u] False show ?thesis
    by (simp add: read_until_quiet_def) (simp add: usb_tty_def)
qed

section \<open>From power-on to PASS\<close>

text \<open>
  C3: the whole program, from power-on to PASS. For every hash function, with proto3 on the wire: the
  firmware boots on a board with a running clock and the stand-in chip and accepts the genesis root;
  the host script reads the boot log to its end, its seven requests go through the USB port and the
  service loop, and it reports PASS. The device is then ready at the next root with index 1, its
  counter one below the enrolled value, and nothing it sent is unread.
\<close>

theorem power_on_script_passes:
  "\<exists>a c log k a' c' s' g'.
    boot_main proto3 False B (mock_session (mock_mac B)) packet_board (0, [], [], [])
      = Some (Accept GENESIS, a, (c, [], log, [])) \<and>
    script_main (usb_tty proto3 (firmware_platform False B (mock_session (mock_mac B)))) (0, log, a, c, log, [])
      = Some (Inr True, (k, [], a', c', s', g')) \<and>
    act_root (active a') = NEXT_ROOT \<and> act_u (active a') = 1 \<and> act_status (active a') = Ready \<and>
    mock_h (tropic a') = 999"
proof -
  let ?S = "mock_session (mock_mac B)"
  obtain a c log s where boot: "boot_main proto3 False B ?S packet_board (0, [], [], [])
      = Some (Accept GENESIS, a, (c, [], log, []))"
    and s: "boot_recover False B ?S s = (Accept GENESIS, a)"
    using packet_boots [of proto3 B "[]"] by metis
  obtain k where quiet: "read_until_quiet (usb_tty proto3 (firmware_platform False B ?S)) 30000 2500
      (0, log, a, c, log, []) = Some (log, (k, [], a, c, log, []))"
    using usb_log_quiet by blast
  obtain d where d: "script_main (usb_tty proto3 (firmware_platform False B ?S)) (0, log, a, c, log, [])
      = Some (Inr True, d)" "fst (snd d) = []" "act_root (active (fst (snd (snd d)))) = NEXT_ROOT"
      "act_u (active (fst (snd (snd d)))) = 1" "act_status (active (fst (snd (snd d)))) = Ready"
      "mock_h (tropic (fst (snd (snd d)))) = ENROLL_H0 - 1"
    using script_passes [OF mock_sess.reliable_session_axioms s proto3_writes usb.served_tty_axioms
        usb_in_time quiet] by auto
  obtain k' r a' c' s' g' where "d = (k', r, a', c', s', g')" by (metis prod.collapse)
  with boot d show ?thesis by (auto simp: ENROLL_H0_def)
qed

end
