(* ===== verification/Key_Memory.thy ===== *)
theory Key_Memory
  imports Appliance_Facts
begin

text \<open>
  The witness key in memory. In \<open>Appliance\<close> the secret key \<open>sk_hw\<close> is a value, which a function can
  forget; in the program it is a \<open>Vec\<close> whose buffer keeps its bytes after the vector is cleared and
  after it is freed. Here the operations of \<open>appliance.rs\<close> run over an explicit heap, with
  \<open>zeroize_vec\<close> and the \<open>Drop\<close> of a prepared record as writes to it. They do to the values what
  \<open>Appliance\<close> and \<open>Recovery\<close> say, and no key byte is left in a buffer that is not the key in use.

  The heap holds the buffers of secret keys and nothing else; other vectors stay values. Local
  variables are outside it: \<open>w\<close> and \<open>k\<close> of \<open>prepare\<close>, which it overwrites before it returns, and the
  copy of the seed in \<open>WotsBlake3::sign\<close>, which stays on the stack.
\<close>

section \<open>The heap\<close>

text \<open>
  A buffer is a region: its bytes and whether it is allocated. Freeing does not change the bytes,
  and no address is used twice, so a region records all that was ever written there last: the worst
  case for what an allocator leaves behind. A \<open>Vec\<close> is an address and a length.
\<close>

record region =
  rg_bytes :: "byte list"
  rg_live :: bool

record key_vec =
  kv_at :: nat
  kv_len :: nat

definition vec_new :: "byte list \<Rightarrow> region list \<Rightarrow> key_vec \<times> region list" where
  "vec_new bs m = (\<lparr> kv_at = length m, kv_len = length bs \<rparr>, m @ [\<lparr> rg_bytes = bs, rg_live = True \<rparr>])"

definition vec_read :: "region list \<Rightarrow> key_vec \<Rightarrow> byte list" where
  "vec_read m v = take (kv_len v) (rg_bytes (m ! kv_at v))"

definition vec_free :: "key_vec \<Rightarrow> region list \<Rightarrow> region list" where
  "vec_free v m = m[kv_at v := (m ! kv_at v)\<lparr>rg_live := False\<rparr>]"

text \<open>\<open>zeroize\<close> writes the elements of the slice it is given, not the capacity behind them.\<close>

definition slice_zeroize :: "key_vec \<Rightarrow> region list \<Rightarrow> region list" where
  "slice_zeroize v m =
     m[kv_at v := (m ! kv_at v)
         \<lparr>rg_bytes := zeroize (vec_read m v) @ drop (kv_len v) (rg_bytes (m ! kv_at v))\<rparr>]"

definition mem_zeroize_vec :: "key_vec \<Rightarrow> region list \<Rightarrow> key_vec \<times> region list" where
  "mem_zeroize_vec v m = (let m' = slice_zeroize v m in (v\<lparr>kv_len := 0\<rparr>, m'))"

section \<open>State\<close>

record mem_prepared =
  mp_txn :: owned_transition
  mp_digest :: bytes32
  mp_witness_input :: bytes32
  mp_cert_message :: bytes32
  mp_pk_hw :: "byte list"
  mp_p_hw :: bytes32
  mp_sk_hw :: key_vec
  mp_receiver_challenge :: bytes32

datatype mem_record =
    MEmpty
  | MPrepared mem_prepared
  | MCommitted committed_record

record mem_active =
  ma_root :: bytes32
  ma_u :: u64
  ma_status :: status
  ma_record :: mem_record

record 'c mem_appliance =
  m_h0 :: u32
  m_anchor_id :: bytes32
  m_slot :: u16
  m_active :: mem_active
  m_firmware_boundary_invalid :: bool
  m_rmemory_map_invalid :: bool
  m_tropic :: 'c

type_synonym 'c mem_state = "'c mem_appliance \<times> region list"

definition mem_new :: "'c \<Rightarrow> u32 \<Rightarrow> bytes32 \<Rightarrow> bytes32 \<Rightarrow> u16 \<Rightarrow> 'c mem_appliance" where
  "mem_new trp enrolled active_root anchor q =
     \<lparr> m_h0 = enrolled,
       m_anchor_id = anchor,
       m_slot = q,
       m_active = \<lparr> ma_root = active_root, ma_u = 0, ma_status = Ready, ma_record = MEmpty \<rparr>,
       m_firmware_boundary_invalid = False,
       m_rmemory_map_invalid = False,
       m_tropic = trp \<rparr>"

section \<open>Dropping a record\<close>

text \<open>
  Dropping a prepared record runs its \<open>Drop\<close>, which wipes the key, and then drops the fields, which
  frees the buffer of the key. Replacing \<open>active.record\<close> drops the record that was there.
\<close>

definition drop_prepared :: "mem_prepared \<Rightarrow> region list \<Rightarrow> region list" where
  "drop_prepared p m = vec_free (mp_sk_hw p) (slice_zeroize (mp_sk_hw p) m)"

definition drop_record :: "mem_record \<Rightarrow> region list \<Rightarrow> region list" where
  "drop_record r m = (case r of MPrepared p \<Rightarrow> drop_prepared p m | _ \<Rightarrow> m)"

definition drop_appliance :: "'c mem_state \<Rightarrow> region list" where
  "drop_appliance s = drop_record (ma_record (m_active (fst s))) (snd s)"

section \<open>Operations\<close>

definition mem_live_index ::
    "'c platform \<Rightarrow> 'c mem_appliance \<Rightarrow> (appliance_error + u64) \<times> 'c mem_appliance" where
  "mem_live_index P a =
     (case counter_get (pf_tropic P) (m_tropic a) of
        (Inl e, c) \<Rightarrow> (Inl (TropicErr e), a\<lparr>m_tropic := c\<rparr>)
      | (Inr hv, c) \<Rightarrow>
          (case checked_sub (m_h0 a) hv of
             None \<Rightarrow> (Inl CounterMismatch, a\<lparr>m_tropic := c\<rparr>)
           | Some u \<Rightarrow> (Inr (ucast u), a\<lparr>m_tropic := c\<rparr>)))"

definition mem_prepare ::
    "'c platform \<Rightarrow> transition \<Rightarrow> bytes32 \<Rightarrow> 'c mem_state \<Rightarrow>
     (appliance_error, unit) outcome \<times> 'c mem_state" where
  "mem_prepare P t rc s =
     (let (a, m) = s in
      if ma_status (m_active a) \<noteq> Ready then (Fail WrongState, a, m)
      else if \<not> ct_eq_32 (ma_root (m_active a)) (prev_root t) then (Fail PrevRootMismatch, a, m)
      else if anchor_counter t \<noteq> ma_u (m_active a) then (Fail IndexMismatch, a, m)
      else case plus_u64 (pf_debug P) (anchor_counter t) 1 of
        None \<Rightarrow> (Panic, a, m)
      | Some succ \<Rightarrow>
        if next_anchor_counter t \<noteq> succ then (Fail IndexMismatch, a, m)
        else case mem_live_index P a of
          (Inl e, a) \<Rightarrow> (Fail e, a, m)
        | (Inr live_u, a) \<Rightarrow>
          if ma_u (m_active a) \<noteq> live_u then (Fail CounterMismatch, a, m)
          else if pf_debug P \<and> \<not> enc_fits t then (Panic, a, m)
          else
            let d = transition_digest (pf_blake3 P) t;
                x = witness_input (pf_blake3 P) t d (m_anchor_id a) (m_slot a) rc
            in case mac_and_destroy (pf_tropic P) (m_slot a) x (m_tropic a) of
                 (Inl e, c) \<Rightarrow> (Fail (TropicErr e), a\<lparr>m_tropic := c\<rparr>, m)
               | (Inr w, c) \<Rightarrow>
                   let k = witness_key_material (pf_blake3 P) w x t (m_anchor_id a) (m_slot a);
                       (sk, pk_hw) = ws_keygen (pf_sig P) k;
                       (sk_hw, m) = vec_new sk m;
                       p_hw = pk_hash (pf_blake3 P) pk_hw;
                       msg = cert_message (pf_blake3 P) t d x p_hw (m_anchor_id a) (m_slot a) rc;
                       m = drop_record (ma_record (m_active a)) m
                   in (Done (),
                       a\<lparr>m_tropic := c,
                         m_active := (m_active a)
                           \<lparr>ma_status := Prepared,
                            ma_record := MPrepared
                              \<lparr> mp_txn = owned_from t, mp_digest = d, mp_witness_input = x,
                                mp_cert_message = msg, mp_pk_hw = pk_hw, mp_p_hw = p_hw,
                                mp_sk_hw = sk_hw, mp_receiver_challenge = rc \<rparr>\<rparr>\<rparr>, m))"

definition mem_release ::
    "'c mem_appliance \<Rightarrow> mem_prepared \<Rightarrow> byte list \<Rightarrow> u32 \<Rightarrow> offline_release" where
  "mem_release a p sigma hv =
     \<lparr> rel_transition = owned_from (as_transition (mp_txn p)),
       rel_cert =
         \<lparr> c_prev_root = prev_root (mp_txn p),
           c_next_root = next_root (mp_txn p),
           c_anchor_counter = anchor_counter (mp_txn p),
           c_next_anchor_counter = next_anchor_counter (mp_txn p),
           c_transition_digest = mp_digest p,
           c_witness_input = mp_witness_input p,
           c_pk_hash = mp_p_hw p,
           c_pk_hw = mp_pk_hw p,
           c_sigma = sigma,
           c_anchor_id = m_anchor_id a,
           c_slot = m_slot a,
           c_receiver_challenge = mp_receiver_challenge p \<rparr>,
       rel_counter =
         \<lparr> ev_anchor_id = m_anchor_id a,
           ev_enrolled_counter = ucast (m_h0 a),
           ev_live_counter_claim = ucast (hv - 1),
           ev_derived_index_claim = next_anchor_counter (mp_txn p),
           ev_verifier_transcript = [] \<rparr> \<rparr>"

text \<open>
  \<open>commit\<close>: the key is read from its buffer to sign, wiped, and the prepared record is then dropped
  by the assignment of the candidate.
\<close>

definition mem_commit_phase1 ::
    "'c platform \<Rightarrow> 'c mem_state \<Rightarrow> (appliance_error, unit) outcome \<times> 'c mem_state" where
  "mem_commit_phase1 P s =
     (let (a, m) = s in
      case ma_record (m_active a) of
        MPrepared p \<Rightarrow>
          if kv_len (mp_sk_hw p) = 0 then (Fail WitnessKeyLost, a, m)
          else if \<not> ct_eq_32 (prev_root (mp_txn p)) (ma_root (m_active a)) then
            (Fail PrevRootMismatch, a, m)
          else (case counter_get (pf_tropic P) (m_tropic a) of
            (Inl e, c) \<Rightarrow> (Fail (TropicErr e), a\<lparr>m_tropic := c\<rparr>, m)
          | (Inr hv, c) \<Rightarrow>
            let a = a\<lparr>m_tropic := c\<rparr> in
            if hv = 0 then (Fail CounterExhausted, a, m)
            else (case checked_sub (m_h0 a) hv of
              None \<Rightarrow> (Fail CounterMismatch, a, m)
            | Some u \<Rightarrow>
              if ucast u \<noteq> anchor_counter (mp_txn p) then (Fail CounterMismatch, a, m)
              else (case ws_sign (pf_sig P) (vec_read m (mp_sk_hw p)) (mp_cert_message p) of
                None \<Rightarrow> (Panic, a, m)
              | Some sigma \<Rightarrow>
                let (sk_hw, m) = mem_zeroize_vec (mp_sk_hw p) m;
                    m = drop_record (MPrepared (p\<lparr>mp_sk_hw := sk_hw\<rparr>)) m
                in (Done (),
                    a\<lparr>m_active := (m_active a)
                      \<lparr>ma_status := Committed,
                       ma_record := MCommitted
                         \<lparr> cr_prev_root = prev_root (mp_txn p),
                           cr_next_root = next_root (mp_txn p),
                           cr_anchor_counter = anchor_counter (mp_txn p),
                           cr_next_anchor_counter = next_anchor_counter (mp_txn p),
                           cr_release = mem_release a p sigma hv,
                           cr_committed = False \<rparr>\<rparr>\<rparr>, m))))
      | _ \<Rightarrow> (Fail WrongState, a, m))"

definition mem_commit_phase2 ::
    "'c platform \<Rightarrow> 'c mem_appliance \<Rightarrow> (appliance_error, unit) outcome \<times> 'c mem_appliance" where
  "mem_commit_phase2 P a =
     (case counter_update (pf_tropic P) (m_tropic a) of
        (Inl e, c) \<Rightarrow> (Fail CounterExhausted, a\<lparr>m_tropic := c\<rparr>)
      | (Inr _, c) \<Rightarrow> (Done (), a\<lparr>m_tropic := c\<rparr>))"

definition mem_mark_committed :: "u64 \<Rightarrow> 'c mem_appliance \<Rightarrow> 'c mem_appliance" where
  "mem_mark_committed u a =
     a\<lparr>m_active := (m_active a)
       \<lparr>ma_record := (case ma_record (m_active a) of
           MCommitted c \<Rightarrow> MCommitted (c\<lparr>cr_committed := True\<rparr>)
         | r \<Rightarrow> r),
        ma_u := u\<rparr>\<rparr>"

definition mem_commit ::
    "'c platform \<Rightarrow> 'c mem_state \<Rightarrow> (appliance_error, unit) outcome \<times> 'c mem_state" where
  "mem_commit P s =
     (case mem_commit_phase1 P s of
        (Done _, a1, m1) \<Rightarrow>
          (case mem_commit_phase2 P a1 of
             (Done _, a2) \<Rightarrow>
               (Done (),
                mem_mark_committed
                  (case ma_record (m_active (fst s)) of
                     MPrepared p \<Rightarrow> next_anchor_counter (mp_txn p)
                   | _ \<Rightarrow> ma_u (m_active (fst s))) a2, m1)
           | (r, a2) \<Rightarrow> (r, a2, m1))
      | r \<Rightarrow> r)"

definition mem_emit :: "'c mem_appliance \<Rightarrow> appliance_error + offline_release" where
  "mem_emit a =
     (case ma_record (m_active a) of
        MCommitted c \<Rightarrow> if cr_committed c then Inr (cr_release c) else Inl NotCommitted
      | _ \<Rightarrow> Inl NotCommitted)"

text \<open>\<open>finalize\<close> replaces the whole active state, and so drops its record.\<close>

definition mem_finalize ::
    "'c platform \<Rightarrow> 'c mem_state \<Rightarrow> (appliance_error + bytes32) \<times> 'c mem_state" where
  "mem_finalize P s =
     (let (a, m) = s in
      case ma_record (m_active a) of
        MCommitted c \<Rightarrow>
          if cr_committed c then
            (case mem_live_index P a of
               (Inl e, a) \<Rightarrow> (Inl e, a, m)
             | (Inr live_u, a) \<Rightarrow>
                 if ma_u (m_active a) \<noteq> live_u then (Inl CounterMismatch, a, m)
                 else (Inr (cr_next_root c),
                       a\<lparr>m_active := \<lparr> ma_root = cr_next_root c, ma_u = ma_u (m_active a),
                                       ma_status = Ready, ma_record = MEmpty \<rparr>\<rparr>,
                       drop_record (ma_record (m_active a)) m))
          else (Inl NotCommitted, a, m)
      | _ \<Rightarrow> (Inl NotCommitted, a, m))"

definition mem_cancel :: "'c mem_state \<Rightarrow> (appliance_error + unit) \<times> 'c mem_state" where
  "mem_cancel s =
     (let (a, m) = s in
      case ma_record (m_active a) of
        MPrepared p \<Rightarrow>
          let (sk_hw, m) = mem_zeroize_vec (mp_sk_hw p) m;
              m = drop_record (MPrepared (p\<lparr>mp_sk_hw := sk_hw\<rparr>)) m
          in (Inr (), a\<lparr>m_active := (m_active a)\<lparr>ma_status := Ready, ma_record := MEmpty\<rparr>\<rparr>, m)
      | _ \<Rightarrow> (Inl WrongState, a, m))"

text \<open>\<open>recover\<close> looks at the length of the key and at nothing else of it; it drops no record.\<close>

definition mem_recover_committed ::
    "'c platform \<Rightarrow> u64 \<Rightarrow> committed_record \<Rightarrow> 'c mem_appliance \<Rightarrow>
     recover_outcome \<times> 'c mem_appliance" where
  "mem_recover_committed P live_u c a =
     (let rec_u = cr_next_anchor_counter c in
      if cr_committed c then
        (if rec_u \<noteq> live_u then (DowngradeOnline, a)
         else (ReemitCommitted (cr_next_root c), a\<lparr>m_active := (m_active a)\<lparr>ma_u := rec_u\<rparr>\<rparr>))
      else if rec_u = live_u + 1 then
        (if \<not> ct_eq_32 (cr_prev_root c) (ma_root (m_active a)) then (DowngradeOnline, a)
         else (case counter_update (pf_tropic P) (m_tropic a) of
             (Inl _, ch) \<Rightarrow> (DowngradeOnline, a\<lparr>m_tropic := ch\<rparr>)
           | (Inr _, ch) \<Rightarrow>
               (ReemitCommitted (cr_next_root c), mem_mark_committed rec_u (a\<lparr>m_tropic := ch\<rparr>))))
      else if rec_u = live_u then
        (ReemitCommitted (cr_next_root c), mem_mark_committed rec_u a)
      else (DowngradeOnline, a))"

definition mem_recover_prepared ::
    "u64 \<Rightarrow> 'c mem_appliance \<Rightarrow> recover_outcome \<times> 'c mem_appliance" where
  "mem_recover_prepared live_u a =
     (if ma_u (m_active a) \<noteq> live_u then (DowngradeOnline, a)
      else
        let parent_ok = (case ma_record (m_active a) of
              MPrepared p \<Rightarrow> ct_eq_32 (prev_root (mp_txn p)) (ma_root (m_active a))
            | _ \<Rightarrow> False)
        in if \<not> parent_ok then (DowngradeOnline, a)
           else
             let key_present = (case ma_record (m_active a) of
                   MPrepared p \<Rightarrow> kv_len (mp_sk_hw p) \<noteq> 0
                 | _ \<Rightarrow> False)
             in if key_present then (AcceptPreparedCanComplete, a)
                else (OnlineCancelOrResolve, a))"

definition mem_recover_ready ::
    "'c platform \<Rightarrow> u64 \<Rightarrow> 'c mem_appliance \<Rightarrow> recover_outcome \<times> 'c mem_appliance" where
  "mem_recover_ready P live_u a =
     (if ma_u (m_active a) < live_u then (DowngradeOnline, a)
      else if ma_u (m_active a) > live_u then (FailClosed, a)
      else (case counter_get (pf_tropic P) (m_tropic a) of
          (Inl _, ch) \<Rightarrow> (DowngradeOnline, a\<lparr>m_tropic := ch\<rparr>)
        | (Inr hv, ch) \<Rightarrow>
            if hv = 0 then (ExhaustedOnlineOnly, a\<lparr>m_tropic := ch\<rparr>)
            else (Accept (ma_root (m_active a)), a\<lparr>m_tropic := ch\<rparr>)))"

definition mem_recover ::
    "'c platform \<Rightarrow> 'c mem_appliance \<Rightarrow> recover_outcome \<times> 'c mem_appliance" where
  "mem_recover P a =
     (if m_firmware_boundary_invalid a \<or> m_rmemory_map_invalid a then (DowngradeOnline, a)
      else case mem_live_index P a of
        (Inl _, a) \<Rightarrow> (DowngradeOnline, a)
      | (Inr live_u, a) \<Rightarrow>
          (case ma_status (m_active a) of
             Committed \<Rightarrow>
               (case ma_record (m_active a) of
                  MCommitted c \<Rightarrow> mem_recover_committed P live_u c a
                | _ \<Rightarrow> (DowngradeOnline, a))
           | Prepared \<Rightarrow> mem_recover_prepared live_u a
           | Ready \<Rightarrow> mem_recover_ready P live_u a))"

lemmas mem_recover_defs =
  mem_recover_def mem_recover_committed_def mem_recover_prepared_def mem_recover_ready_def

end
