(* ===== verification/Key_Erasure.thy ===== *)
theory Key_Erasure
  imports Key_Memory
begin

text \<open>
  The operations over memory against those over values, for any sequence of calls on any chip: the
  same replies and the same state, and at every moment one buffer with key bytes while a transfer
  is prepared and none otherwise.
\<close>

section \<open>What memory holds\<close>

text \<open>A region is wiped when it is freed and holds nothing but zeros.\<close>

definition wiped :: "region \<Rightarrow> bool" where
  "wiped r \<longleftrightarrow> \<not> rg_live r \<and> list_all (\<lambda>b. b = 0) (rg_bytes r)"

text \<open>The addresses of the regions that are not.\<close>

definition residue :: "region list \<Rightarrow> nat list" where
  "residue m = filter (\<lambda>i. \<not> wiped (m ! i)) [0..<length m]"

definition record_view :: "region list \<Rightarrow> mem_record \<Rightarrow> active_record" where
  "record_view m r =
     (case r of
        MEmpty \<Rightarrow> REmpty
      | MPrepared p \<Rightarrow> RPrepared
          \<lparr> p_txn = mp_txn p, p_digest = mp_digest p, p_witness_input = mp_witness_input p,
            p_cert_message = mp_cert_message p, p_pk_hw = mp_pk_hw p, p_p_hw = mp_p_hw p,
            p_sk_hw = vec_read m (mp_sk_hw p), p_receiver_challenge = mp_receiver_challenge p \<rparr>
      | MCommitted c \<Rightarrow> RCommitted c)"

definition key_view :: "'c mem_state \<Rightarrow> 'c appliance" where
  "key_view s =
     (let (a, m) = s in
      \<lparr> h0 = m_h0 a, anchor_id = m_anchor_id a, slot = m_slot a,
        active = \<lparr> act_root = ma_root (m_active a), act_u = ma_u (m_active a),
                   act_status = ma_status (m_active a), act_record = record_view m (ma_record (m_active a)) \<rparr>,
        firmware_boundary_invalid = m_firmware_boundary_invalid a,
        rmemory_map_invalid = m_rmemory_map_invalid a,
        tropic = m_tropic a \<rparr>)"

text \<open>
  The layout that every operation keeps. Buffers are allocated one after the other, so the key of a
  prepared record is in the last region.
\<close>

definition key_layout :: "mem_record \<Rightarrow> region list \<Rightarrow> bool" where
  "key_layout r m =
     (case r of
        MPrepared p \<Rightarrow>
          (\<exists>xs bs. m = xs @ [\<lparr> rg_bytes = bs, rg_live = True \<rparr>] \<and> list_all wiped xs \<and>
             mp_sk_hw p = \<lparr> kv_at = length xs, kv_len = length bs \<rparr>)
      | _ \<Rightarrow> list_all wiped m)"

lemma residue_wiped: "list_all wiped m \<Longrightarrow> residue m = []"
  by (auto simp: residue_def list_all_length intro!: filter_False)

lemma residue_snoc:
  "list_all wiped xs \<Longrightarrow> \<not> wiped r \<Longrightarrow> residue (xs @ [r]) = [length xs]"
  by (auto simp: residue_def list_all_length nth_append intro!: filter_False)

lemma residue_layout:
  "key_layout r m \<Longrightarrow> residue m = (case r of MPrepared p \<Rightarrow> [kv_at (mp_sk_hw p)] | _ \<Rightarrow> [])"
  by (auto simp: key_layout_def wiped_def [where r = "_ \<lparr>rg_live := True\<rparr>"] intro: residue_wiped
      split: mem_record.splits) (subst residue_snoc; simp add: wiped_def)

section \<open>Wiping the key\<close>

lemma vec_read_last [simp]:
  "vec_read (xs @ \<lparr> rg_bytes = bs, rg_live = l \<rparr> # ys) \<lparr> kv_at = length xs, kv_len = length bs \<rparr> = bs"
  by (simp add: vec_read_def nth_append)

lemma zeroize_wipes [simp]: "list_all (\<lambda>b. b = 0) (zeroize bs)"
  by (simp add: zeroize_def list_all_iff)

lemma drop_prepared_wipes:
  assumes "mp_sk_hw p = \<lparr> kv_at = length xs, kv_len = length bs \<rparr>"
  shows "drop_prepared p (xs @ \<lparr> rg_bytes = bs, rg_live = l \<rparr> # ys) =
    xs @ \<lparr> rg_bytes = zeroize bs, rg_live = False \<rparr> # ys"
  using assms
  by (simp add: drop_prepared_def slice_zeroize_def vec_free_def nth_append list_update_append)

lemma zeroized_drop_wipes:
  assumes "mp_sk_hw p = \<lparr> kv_at = length xs, kv_len = length bs \<rparr>"
    and "mem_zeroize_vec (mp_sk_hw p) (xs @ [\<lparr> rg_bytes = bs, rg_live = l \<rparr>]) = (v, m)"
  shows "drop_prepared (p\<lparr>mp_sk_hw := v\<rparr>) m = xs @ [\<lparr> rg_bytes = zeroize bs, rg_live = False \<rparr>]"
  using assms
  by (auto simp: drop_prepared_def mem_zeroize_vec_def slice_zeroize_def vec_free_def vec_read_def
      nth_append list_update_append zeroize_def)

lemma drop_record_wipes:
  assumes "key_layout r m"
  shows "list_all wiped (drop_record r m)" and "drop_record r (m @ ys) = drop_record r m @ ys"
  using assms
  by (auto simp: key_layout_def drop_record_def drop_prepared_wipes wiped_def split: mem_record.splits)

text \<open>Both ways that \<open>commit\<close> and \<open>cancel\<close> take: wipe the key, clear it, drop the record.\<close>

lemma wipe_and_drop:
  assumes "key_layout (MPrepared p) m" and "mem_zeroize_vec (mp_sk_hw p) m = (v, m')"
  shows "list_all wiped (drop_record (MPrepared (p\<lparr>mp_sk_hw := v\<rparr>)) m')"
  using assms by (auto simp: key_layout_def drop_record_def zeroized_drop_wipes wiped_def)

lemma layout_empty_key:
  "key_layout (MPrepared p) m \<Longrightarrow> kv_len (mp_sk_hw p) = 0 \<longleftrightarrow> vec_read m (mp_sk_hw p) = []"
  by (auto simp: key_layout_def vec_read_def nth_append)

section \<open>Each operation\<close>

text \<open>What the fields of the view are.\<close>

lemma key_view_simps [simp]:
  "h0 (key_view (a, m)) = m_h0 a"
  "anchor_id (key_view (a, m)) = m_anchor_id a"
  "slot (key_view (a, m)) = m_slot a"
  "tropic (key_view (a, m)) = m_tropic a"
  "firmware_boundary_invalid (key_view (a, m)) = m_firmware_boundary_invalid a"
  "rmemory_map_invalid (key_view (a, m)) = m_rmemory_map_invalid a"
  "act_root (active (key_view (a, m))) = ma_root (m_active a)"
  "act_u (active (key_view (a, m))) = ma_u (m_active a)"
  "act_status (active (key_view (a, m))) = ma_status (m_active a)"
  "act_record (active (key_view (a, m))) = record_view m (ma_record (m_active a))"
  "(key_view (a, m))\<lparr>tropic := c\<rparr> = key_view (a\<lparr>m_tropic := c\<rparr>, m)"
  by (simp_all add: key_view_def)

lemma record_view_simps [simp]:
  "record_view m MEmpty = REmpty"
  "record_view m (MCommitted c) = RCommitted c"
  by (simp_all add: record_view_def)

lemma layout_simps [simp]:
  "key_layout MEmpty m = list_all wiped m"
  "key_layout (MCommitted c) m = list_all wiped m"
  by (simp_all add: key_layout_def)

lemma mem_live_index_view:
  "live_index P (key_view (a, m)) = map_prod id (\<lambda>a'. key_view (a', m)) (mem_live_index P a)"
  by (simp add: live_index_def mem_live_index_def split: prod.split sum.split option.split)

lemma mem_live_index_active [simp]:
  "mem_live_index P a = (r, a') \<Longrightarrow> m_active a' = m_active a"
  "mem_live_index P a = (r, a') \<Longrightarrow> m_slot a' = m_slot a"
  by (auto simp: mem_live_index_def split: prod.splits sum.splits option.splits)

lemma layout_alloc:
  assumes "key_layout r m" and "vec_new sk m = (v, m')"
  shows "mp_sk_hw p = v \<Longrightarrow> key_layout (MPrepared p) (drop_record r m')"
    and "vec_read (drop_record r m') v = sk"
proof -
  have "length (drop_record r m) = length m"
    by (simp add: drop_record_def drop_prepared_def vec_free_def slice_zeroize_def split: mem_record.split)
  then show "mp_sk_hw p = v \<Longrightarrow> key_layout (MPrepared p) (drop_record r m')"
      "vec_read (drop_record r m') v = sk"
    using assms drop_record_wipes [OF assms(1)] vec_read_last [of "drop_record r m" sk True "[]"]
    by (auto simp: vec_new_def key_layout_def)
qed

lemma mem_prepare_correct:
  assumes lay: "key_layout (ma_record (m_active a)) m"
  shows "prepare P t rc (key_view (a, m)) = map_prod id key_view (mem_prepare P t rc (a, m)) \<and>
    key_layout (ma_record (m_active (fst (snd (mem_prepare P t rc (a, m))))))
      (snd (snd (mem_prepare P t rc (a, m))))"
proof -
  obtain r a1 where li: "mem_live_index P a = (r, a1)" by (metis prod.collapse)
  note same = mem_live_index_active [OF li]
  let ?x = "witness_input (pf_blake3 P) t (transition_digest (pf_blake3 P) t) (m_anchor_id a1) (m_slot a1) rc"
  obtain w ch where mac: "mac_and_destroy (pf_tropic P) (m_slot a1) ?x (m_tropic a1) = (w, ch)"
    by (metis prod.collapse)
  show ?thesis
  proof (cases "\<exists>u k. r = Inr u \<and> w = Inr k")
    case False
    then show ?thesis
      using lay li mac same
      by (cases r; cases w)
        (simp_all add: prepare_def mem_prepare_def mem_live_index_view Let_def split: option.split)
  next
    case True
    then obtain u k where r: "r = Inr u" "w = Inr k" by blast
    obtain sk pk where keys: "ws_keygen (pf_sig P)
        (witness_key_material (pf_blake3 P) k ?x t (m_anchor_id a1) (m_slot a1)) = (sk, pk)"
      by (metis prod.collapse)
    obtain v m' where new: "vec_new sk m = (v, m')" by (metis prod.collapse)
    note vec = layout_alloc [OF lay new]
    show ?thesis
      using lay li mac same r keys new vec
      by (simp add: prepare_def mem_prepare_def mem_live_index_view Let_def split: option.split)
        (simp add: key_view_def record_view_def)
  qed
qed

lemma mem_commit_phase1_correct:
  assumes lay: "key_layout (ma_record (m_active a)) m"
  shows "commit_phase1 P (key_view (a, m)) = map_prod id key_view (mem_commit_phase1 P (a, m)) \<and>
    key_layout (ma_record (m_active (fst (snd (mem_commit_phase1 P (a, m))))))
      (snd (snd (mem_commit_phase1 P (a, m))))"
proof (cases "ma_record (m_active a)")
  case (MPrepared p)
  note empty = layout_empty_key [OF lay [unfolded MPrepared]]
  obtain g ch where get: "counter_get (pf_tropic P) (m_tropic a) = (g, ch)" by (metis prod.collapse)
  obtain v m' where wipe: "mem_zeroize_vec (mp_sk_hw p) m = (v, m')" by (metis prod.collapse)
  note gone = wipe_and_drop [OF lay [unfolded MPrepared] wipe]
  show ?thesis
    using lay MPrepared empty get wipe gone
    by (cases g) (auto simp: commit_phase1_def mem_commit_phase1_def Let_def record_view_def key_view_def
        commit_release_def mem_release_def split: option.split)
qed (use lay in \<open>simp_all add: commit_phase1_def mem_commit_phase1_def\<close>)

lemma mem_mark_committed_view [simp]:
  "mark_committed u (key_view (a, m)) = key_view (mem_mark_committed u a, m)"
  by (simp add: mark_committed_def mem_mark_committed_def key_view_def record_view_def split: mem_record.split)

lemma mem_mark_committed_layout [simp]:
  "key_layout (ma_record (m_active (mem_mark_committed u a))) m = key_layout (ma_record (m_active a)) m"
  by (simp add: mem_mark_committed_def split: mem_record.split)

lemma mem_commit_phase2_correct:
  "commit_phase2 P (key_view (a, m)) = map_prod id (\<lambda>a'. key_view (a', m)) (mem_commit_phase2 P a)"
  "m_active (snd (mem_commit_phase2 P a)) = m_active a"
  by (simp_all add: commit_phase2_def mem_commit_phase2_def split: prod.split sum.split)

lemma mem_commit_correct:
  assumes lay: "key_layout (ma_record (m_active a)) m"
  shows "commit P (key_view (a, m)) = map_prod id key_view (mem_commit P (a, m)) \<and>
    key_layout (ma_record (m_active (fst (snd (mem_commit P (a, m)))))) (snd (snd (mem_commit P (a, m))))"
proof -
  obtain r1 a1 m1 where p1: "mem_commit_phase1 P (a, m) = (r1, a1, m1)" by (metis prod.collapse)
  obtain r2 a2 where p2: "mem_commit_phase2 P a1 = (r2, a2)" by (metis prod.collapse)
  have "(case record_view m (ma_record (m_active a)) of
      RPrepared p \<Rightarrow> next_anchor_counter (p_txn p) | _ \<Rightarrow> act_u (active (key_view (a, m)))) =
    (case ma_record (m_active a) of
      MPrepared p \<Rightarrow> next_anchor_counter (mp_txn p) | _ \<Rightarrow> ma_u (m_active (fst (a, m))))"
    by (simp add: record_view_def split: mem_record.split)
  then show ?thesis
    using mem_commit_phase1_correct [OF lay, of P] mem_commit_phase2_correct(1) [of P a1 m1]
      mem_commit_phase2_correct(2) [of P a1] p1 p2
    by (cases r1; cases r2) (simp_all add: commit_def mem_commit_def)
qed

lemma mem_emit_correct: "emit (key_view (a, m)) = mem_emit a"
  by (simp add: emit_def mem_emit_def record_view_def split: mem_record.split)

lemma mem_finalize_correct:
  assumes lay: "key_layout (ma_record (m_active a)) m"
  shows "finalize P (key_view (a, m)) = map_prod id key_view (mem_finalize P (a, m)) \<and>
    key_layout (ma_record (m_active (fst (snd (mem_finalize P (a, m)))))) (snd (snd (mem_finalize P (a, m))))"
proof -
  obtain r a1 where li: "mem_live_index P a = (r, a1)" by (metis prod.collapse)
  show ?thesis
    using lay li mem_live_index_active [OF li]
    by (cases r; cases "ma_record (m_active a)")
      (auto simp: finalize_def mem_finalize_def mem_live_index_view drop_record_def record_view_def)
qed

lemma mem_cancel_correct:
  assumes lay: "key_layout (ma_record (m_active a)) m"
  shows "cancel (key_view (a, m)) = map_prod id key_view (mem_cancel (a, m)) \<and>
    key_layout (ma_record (m_active (fst (snd (mem_cancel (a, m)))))) (snd (snd (mem_cancel (a, m))))"
proof (cases "ma_record (m_active a)")
  case (MPrepared p)
  obtain v m' where wipe: "mem_zeroize_vec (mp_sk_hw p) m = (v, m')" by (metis prod.collapse)
  show ?thesis
    using MPrepared wipe wipe_and_drop [OF lay [unfolded MPrepared] wipe]
    by (simp add: cancel_def mem_cancel_def record_view_def key_view_def Let_def)
qed (use lay in \<open>simp_all add: cancel_def mem_cancel_def\<close>)

lemma view_index:
  "(key_view (a, m))\<lparr>active := (active (key_view (a, m)))\<lparr>act_u := u\<rparr>\<rparr> =
     key_view (a\<lparr>m_active := (m_active a)\<lparr>ma_u := u\<rparr>\<rparr>, m)"
  by (simp add: key_view_def)

lemma mem_recover_correct:
  assumes lay: "key_layout (ma_record (m_active a)) m"
  shows "recover P (key_view (a, m)) = map_prod id (\<lambda>a'. key_view (a', m)) (mem_recover P a) \<and>
    key_layout (ma_record (m_active (snd (mem_recover P a)))) m"
proof -
  obtain r a1 where li: "mem_live_index P a = (r, a1)" by (metis prod.collapse)
  note same = mem_live_index_active [OF li]
  show ?thesis
  proof (cases "ma_status (m_active a)")
    case Ready
    then show ?thesis using lay li same
      by (cases r) (auto simp: recover_def mem_recover_def recover_ready_def mem_recover_ready_def
          mem_live_index_view split: prod.split sum.split)
  next
    case Prepared
    then show ?thesis using lay li same layout_empty_key
      by (cases r; cases "ma_record (m_active a)") (auto simp: recover_def mem_recover_def
          recover_prepared_def mem_recover_prepared_def mem_live_index_view record_view_def Let_def)
  next
    case Committed
    then show ?thesis using lay li same
      by (cases r; cases "ma_record (m_active a)") (auto simp: recover_def mem_recover_def
          recover_committed_def mem_recover_committed_def mem_live_index_view record_view_def Let_def
          view_index split: prod.split sum.split)
  qed
qed

section \<open>Sequences of calls\<close>

text \<open>
  The calls a client can make, any change of the chip and of the two validity flags in between, and
  what each call returns. A run goes on after a panic, which stops the firmware: the theorems hold
  of more runs than there are.
\<close>

datatype 'c key_call =
    CallPrepare transition bytes32
  | CallCommit
  | CallEmit
  | CallFinalize
  | CallCancel
  | CallRecover
  | SetChip 'c
  | SetFlags bool bool

datatype reply =
    ReplyDone "(appliance_error, unit) outcome"
  | ReplyRelease "appliance_error + offline_release"
  | ReplyRoot "appliance_error + bytes32"
  | ReplyCancel "appliance_error + unit"
  | ReplyRecover recover_outcome
  | NoReply

primrec value_call :: "'c platform \<Rightarrow> 'c key_call \<Rightarrow> 'c appliance \<Rightarrow> reply \<times> 'c appliance" where
  "value_call P (CallPrepare t rc) a = map_prod ReplyDone id (prepare P t rc a)"
| "value_call P CallCommit a = map_prod ReplyDone id (commit P a)"
| "value_call P CallEmit a = (ReplyRelease (emit a), a)"
| "value_call P CallFinalize a = map_prod ReplyRoot id (finalize P a)"
| "value_call P CallCancel a = map_prod ReplyCancel id (cancel a)"
| "value_call P CallRecover a = map_prod ReplyRecover id (recover P a)"
| "value_call P (SetChip c) a = (NoReply, a\<lparr>tropic := c\<rparr>)"
| "value_call P (SetFlags f r) a =
     (NoReply, a\<lparr>firmware_boundary_invalid := f, rmemory_map_invalid := r\<rparr>)"

primrec mem_call :: "'c platform \<Rightarrow> 'c key_call \<Rightarrow> 'c mem_state \<Rightarrow> reply \<times> 'c mem_state" where
  "mem_call P (CallPrepare t rc) s = map_prod ReplyDone id (mem_prepare P t rc s)"
| "mem_call P CallCommit s = map_prod ReplyDone id (mem_commit P s)"
| "mem_call P CallEmit s = (ReplyRelease (mem_emit (fst s)), s)"
| "mem_call P CallFinalize s = map_prod ReplyRoot id (mem_finalize P s)"
| "mem_call P CallCancel s = map_prod ReplyCancel id (mem_cancel s)"
| "mem_call P CallRecover s = map_prod ReplyRecover (\<lambda>a. (a, snd s)) (mem_recover P (fst s))"
| "mem_call P (SetChip c) s = (NoReply, (fst s)\<lparr>m_tropic := c\<rparr>, snd s)"
| "mem_call P (SetFlags f r) s =
     (NoReply, (fst s)\<lparr>m_firmware_boundary_invalid := f, m_rmemory_map_invalid := r\<rparr>, snd s)"

text \<open>The replies in order and the final state.\<close>

primrec run_calls :: "('k \<Rightarrow> 's \<Rightarrow> 'r \<times> 's) \<Rightarrow> 'k list \<Rightarrow> 's \<Rightarrow> 'r list \<times> 's" where
  "run_calls f [] s = ([], s)"
| "run_calls f (k # ks) s = (let (r, s) = f k s; (rs, s) = run_calls f ks s in (r # rs, s))"

definition layout_ok :: "'c mem_state \<Rightarrow> bool" where
  "layout_ok s = key_layout (ma_record (m_active (fst s))) (snd s)"

text \<open>
  The interface between the two levels: a view of the concrete state under which every call returns
  the same reply, and an invariant that every call keeps.
\<close>

locale call_refinement =
  fixes conc :: "'k \<Rightarrow> 's \<Rightarrow> 'r \<times> 's"
    and abst :: "'k \<Rightarrow> 't \<Rightarrow> 'r \<times> 't"
    and view :: "'s \<Rightarrow> 't"
    and inv :: "'s \<Rightarrow> bool"
  assumes call_view: "inv s \<Longrightarrow> abst k (view s) = map_prod id view (conc k s)"
    and call_inv: "inv s \<Longrightarrow> inv (snd (conc k s))"
begin

lemma run_view: "inv s \<Longrightarrow> map_prod id view (run_calls conc ks s) = run_calls abst ks (view s)"
  using call_inv
  by (induction ks arbitrary: s) (simp_all add: call_view split_beta prod_eq_iff)

lemma run_inv: "inv s \<Longrightarrow> inv (snd (run_calls conc ks s))"
  using call_inv by (induction ks arbitrary: s) (simp_all add: split_beta)

end

interpretation key: call_refinement "mem_call P" "value_call P" key_view layout_ok for P
proof
  fix s :: "'a mem_state" and k :: "'a key_call"
  obtain a m where s: "s = (a, m)" by (cases s)
  assume "layout_ok s"
  then have lay: "key_layout (ma_record (m_active a)) m" by (simp add: layout_ok_def s)
  show "value_call P k (key_view s) = map_prod id key_view (mem_call P k s)"
    using mem_prepare_correct [OF lay, of P] mem_commit_correct [OF lay, of P] mem_emit_correct [of a m]
      mem_finalize_correct [OF lay, of P] mem_cancel_correct [OF lay] mem_recover_correct [OF lay, of P]
    by (cases k) (simp_all add: s prod.map_comp o_def id_def key_view_def)
  show "layout_ok (snd (mem_call P k s))"
    using lay mem_prepare_correct [OF lay, of P] mem_commit_correct [OF lay, of P]
      mem_finalize_correct [OF lay, of P] mem_cancel_correct [OF lay] mem_recover_correct [OF lay, of P]
    by (cases k) (simp_all add: s layout_ok_def)
qed

lemma layout_ok_new: "layout_ok (mem_new c e g anc q, [])"
  by (simp add: layout_ok_def mem_new_def)

lemma key_view_new: "key_view (mem_new c e g anc q, []) = appliance_new c e g anc q"
  by (simp add: key_view_def mem_new_def appliance_new_def)

lemma residue_ok:
  "layout_ok s \<Longrightarrow> residue (snd s) =
     (case ma_record (m_active (fst s)) of MPrepared p \<Rightarrow> [kv_at (mp_sk_hw p)] | _ \<Rightarrow> [])"
  by (simp add: layout_ok_def residue_layout)

lemma residue_dropped: "layout_ok s \<Longrightarrow> residue (drop_appliance s) = []"
  by (simp add: layout_ok_def drop_appliance_def drop_record_wipes residue_wiped)

section \<open>Properties\<close>

text \<open>
  Over an explicit heap, with keys read from their buffers and records dropped where the program
  drops them, every sequence of calls gives the replies and the state of the value-level model.
\<close>

lemma key_memory_refines:
  "map_prod id key_view (run_calls (mem_call P) ks (mem_new c e g anc q, [])) =
     run_calls (value_call P) ks (appliance_new c e g anc q)"
  using key.run_view [OF layout_ok_new, where P = P and ks = ks] by (simp add: key_view_new)

text \<open>
  C18: no key is left behind: after any sequence of calls, on any chip, the only buffer that is
  allocated or holds a non-zero byte is the key of the transfer that is prepared, if one is; and
  dropping the appliance, at any moment, leaves none.
\<close>

theorem no_key_left:
  "let s = snd (run_calls (mem_call P) ks (mem_new c e g anc q, []))
   in residue (snd s) =
        (case ma_record (m_active (fst s)) of MPrepared p \<Rightarrow> [kv_at (mp_sk_hw p)] | _ \<Rightarrow> []) \<and>
      residue (drop_appliance s) = []"
  using key.run_inv [OF layout_ok_new, where P = P and ks = ks]
  by (simp add: Let_def residue_ok residue_dropped)

end
