(* ===== verification/Device_Safety.thy ===== *)
theory Device_Safety
  imports Boot_Examples
begin

text \<open>
  The safety of the wire carried to the device: what a booted device sends over USB, whatever the
  chip answers within its contract and whatever bytes the host sends.
\<close>

section \<open>A log of the responses\<close>

text \<open>
  The frames that are answered without looking at the appliance leave it alone and release nothing;
  every other response is one of a run of requests.
\<close>

definition logged ::
    "prost \<Rightarrow> 'c platform \<Rightarrow> ('c \<Rightarrow> u32) \<Rightarrow> 'c appliance \<Rightarrow> 'c appliance \<Rightarrow> byte list list \<Rightarrow> bool" where
  "logged X P live a0 a rs \<longleftrightarrow>
     (\<exists>resps log. rs = map (encode_response X) resps \<and> (wire_step P live)\<^sup>*\<^sup>* (a0, []) (a, log) \<and>
        (\<forall>resp\<in>set resps. rs_release resp = None \<or> resp \<in> set log))"

lemma logged_start: "wire_reached P live a0 a \<Longrightarrow> logged X P live a0 a []"
  unfolding wire_reached_def logged_def by force

lemma handle_logged:
  assumes "logged X P live a0 a rs" and h: "handle X P f a = (Some b, a')"
  shows "logged X P live a0 a' (rs @ [b])"
proof -
  obtain resps log where run: "rs = map (encode_response X) resps" "(wire_step P live)\<^sup>*\<^sup>* (a0, []) (a, log)"
      "\<forall>resp\<in>set resps. rs_release resp = None \<or> resp \<in> set log"
    using assms(1) by (auto simp: logged_def)
  consider (refused) x e where "b = encode_response X (fail_response x e)" "a' = a"
    | (answered) req resp where "dispatch P req a = (Some resp, a')" "b = encode_response X resp"
    using h by (auto simp: handle_def split: if_splits sum.splits prod.splits)
  then show ?thesis
  proof cases
    case (refused x e)
    with run show ?thesis
      unfolding logged_def by (intro exI [of _ "resps @ [fail_response x e]"] exI [of _ log]) (simp add: response_defs)
  next
    case (answered req resp)
    from rtranclp_snoc2 [OF run(2) wire_step.serve [OF serve_step.request [OF answered(1)]]] run(1,3) answered(2)
    show ?thesis unfolding logged_def by (intro exI [of _ "resps @ [resp]"] exI [of _ "log @ [resp]"]) auto
  qed
qed

interpretation log: answer_invariant X P "logged X P live a0" for X P live a0
  by unfold_locales (rule handle_logged)

text \<open>The appliance that enters the service loop is a new one that has run its recovery.\<close>

lemma boot_reached:
  assumes "boot_main X dbg B S D u0 = Some (rec, a, u)"
  obtains c e where "wire_reached (firmware_platform dbg B S) live (appliance_new c e GENESIS ANCHOR MD_SLOT) a"
proof -
  let ?P = "firmware_platform dbg B S"
  obtain s where "boot_recover dbg B S s = (rec, a)" by (rule boot_main_SomeE [OF assms])
  moreover obtain r v where "enroll S s = (r, v)" by (metis prod.collapse)
  then obtain c e where "boot_appliance S s = appliance_new c e GENESIS ANCHOR MD_SLOT"
    by (cases r) (simp_all add: boot_appliance_def)
  ultimately have "a = snd (recover ?P (appliance_new c e GENESIS ANCHOR MD_SLOT))"
    by (simp add: boot_recover_def)
  then have "wire_reached ?P live (appliance_new c e GENESIS ANCHOR MD_SLOT) a"
    unfolding wire_reached_def using wire_step.boot [of ?P live] by blast
  with that show thesis .
qed

text \<open>
  C4: a device never forks the state it guards between two boots. From power-on, over any chip that
  keeps its contract, with any codec, and whatever bytes the host sends in whatever packets, the
  bytes the device sends are framed responses, and there is one root-linked, consecutively numbered
  chain from the genesis root such that every release in any of them decodes to a member of it.
\<close>

theorem device_never_forks:
  assumes chip: "chip_session S live"
    and boot: "boot_main X dbg B S D u0 = Some (rec, a, u)"
    and port: "usb_port D sent got" and nf: "never_fails D"
    and run: "serve_turns n X (firmware_platform dbg B S) D ([], a, u) = Some (rx, a', u')"
  shows "\<exists>resps chain h. sent u' = sent u @ concat (map (framed \<circ> encode_response X) resps) \<and>
    path GENESIS chain h \<and> map rel_index chain = [1 ..< Suc (length chain)] \<and>
    (\<forall>resp\<in>set resps. \<forall>m. rs_release resp = Some m \<longrightarrow> (\<exists>r\<in>set chain. to_release m = Inr r))"
proof -
  let ?P = "firmware_platform dbg B S"
  obtain c e where "wire_reached ?P live (appliance_new c e GENESIS ANCHOR MD_SLOT) a"
    by (rule boot_reached [OF boot])
  from log.serve_turns_keeps [OF port nf run logged_start [OF this]]
  obtain rs where "sent u' = sent u @ concat (map framed rs)"
    and "logged X ?P live (appliance_new c e GENESIS ANCHOR MD_SLOT) a' rs" by auto
  then obtain resps log where "sent u' = sent u @ concat (map (framed \<circ> encode_response X) resps)"
    and w: "(wire_step ?P live)\<^sup>*\<^sup>* (appliance_new c e GENESIS ANCHOR MD_SLOT, []) (a', log)"
    and "\<forall>resp\<in>set resps. rs_release resp = None \<or> resp \<in> set log"
    by (auto simp: logged_def)
  moreover obtain chain h where "path GENESIS chain h" "map rel_index chain = [1 ..< Suc (length chain)]"
    and "\<forall>resp\<in>set log. \<forall>m. rs_release resp = Some m \<longrightarrow> (\<exists>r\<in>set chain. to_release m = Inr r)"
    using wire_releases_on_one_chain [OF chip_session_wire [OF chip] w] by blast
  ultimately show ?thesis by (intro exI [of _ resps] exI [of _ chain] exI [of _ h]) fastforce
qed

text \<open>The stand-in device, booted, with a prepare, a commit and an emit request queued by its host.\<close>

theorem device_never_forks_witness:
  "\<exists>a c s a' s' resps chain h.
    boot_main proto3 False sample_blake3 test_session packet_board (0, first_packets, [], [])
      = Some (Accept GENESIS, a, (c, first_packets, s, [])) \<and>
    serve_turns (length first_packets) proto3 (firmware_platform False sample_blake3 test_session) packet_board
      ([], a, (c, first_packets, s, [])) = Some ([], a', (c, [], s', concat (map framed first_frames))) \<and>
    s' = s @ concat (map (framed \<circ> encode_response proto3) resps) \<and> path GENESIS chain h"
proof -
  obtain a c s where boot: "boot_main proto3 False sample_blake3 test_session packet_board (0, first_packets, [], [])
      = Some (Accept GENESIS, a, (c, first_packets, s, []))"
    and ready: "offline_ready mock_h a" "advances self_transition a"
    by (rule first_boot)
  obtain a2 s2 where run: "serve_turns (length first_packets) proto3 (firmware_platform False sample_blake3 test_session)
      packet_board ([], a, (c, first_packets, s, []))
    = Some ([], a2, (c, [], s2, concat (map framed first_frames)))"
    by (rule first_served [OF ready])
  from device_never_forks [OF mock_sess.chip_session_axioms boot packet_board_ok packet_board_never_fails run]
  obtain resps chain h where "s2 = s @ concat (map (framed \<circ> encode_response proto3) resps)" "path GENESIS chain h"
    by auto
  with boot run show ?thesis by blast
qed

end
