(* ===== verification/Spec2Isabelle.thy ===== *)
theory Spec2Isabelle
  imports System_Properties Well_Typed Recovery_Spec One_Time_Keys Host_Tests Double_Spend Whole_System Key_Erasure Device_Safety
begin

text \<open>
  Verification of the DSM counter anchor.

  \<^bold>\<open>The program.\<close> An appliance (an RP2350 with a TROPIC01 secure element) certifies one root advance
  of a DSM tree at a time and then moves a physical down-counter; a receiver accepts the resulting
  release after checking it against its own reading of that counter. The crate \<open>anchor-core\<close> holds
  the protocol: the transition package and its digests, a one-time signature, the state machine of
  the appliance with its recovery after power loss, the receiver's predicate, the wire messages
  and the request service. \<open>firmware/src/main.rs\<close> binds it to the chip and to USB.

  \<^bold>\<open>Theories and code.\<close>
  \<^item> \<open>Prelude\<close>: checked arithmetic of machine words, results that may panic, 32-byte arrays.
  \<^item> \<open>Byte_Utils\<close> (\<open>util.rs\<close>): integer encoders, length prefixes, the constant-time comparison;
    the locales \<open>prefix_code\<close> and \<open>fixed_width\<close> say which encoders concatenate unambiguously.
  \<^item> \<open>Blake3_Hash\<close> (\<open>hash.rs\<close>, \<open>domain.rs\<close>): hashing with domain tags over the BLAKE3 functions, which
    are the parameter record \<open>blake3\<close>. No injectivity is assumed: where a digest binds its input, the
    theorem gives the alternative as an explicit pair of colliding inputs.
  \<^item> \<open>Root_Advance\<close> (\<open>root_advance.rs\<close>): transition package, its encoding, the digests \<open>D\<close>, \<open>X\<close>,
    \<open>P_hw\<close>, \<open>M\<close>, the key material, certificate and release; what each digest binds.
  \<^item> \<open>Tropic\<close> (\<open>tropic.rs\<close>, the mock chip of \<open>tests/integration.rs\<close>): the two traits as records of
    functions; the locale \<open>tropic_chip\<close> is the contract of a chip over the value of its counter (a
    failed update may or may not have moved it), \<open>reliable_chip\<close> that of a chip that answers, and
    \<open>witness_scheme\<close> that of a signature scheme.
  \<^item> \<open>Wots\<close>, \<open>Wots_Tests\<close> (\<open>sig.rs\<close>): the Winternitz signature; correctness, the checksum property of
    the digits, what two signatures under one key amount to; the unit tests of the file and why they
    pass for every hash that does not fail at the inputs of the test.
  \<^item> \<open>Appliance\<close>, \<open>Recovery\<close> (\<open>appliance.rs\<close>): the state and one function per operation, each
    returning its result with the new state; \<open>commit\<close> is composed of its durable phases so that a
    power loss can fall between them. \<open>Appliance_Facts\<close> has the case analysis of each operation,
    \<open>Counter_Discipline\<close> how it moves the counter, \<open>Lifecycle\<close> that a transfer succeeds on an
    answering chip, \<open>Operation_Specs\<close> the result of each operation on every branch,
    \<open>One_Time_Keys\<close> that one witness key belongs to one message.
  \<^item> \<open>Accept\<close>, \<open>Acceptance\<close> (\<open>accept.rs\<close>): the receiver's predicate, its specification as an ordered
    list of checks, what acceptance implies and what it does not.
  \<^item> \<open>Anchor_Spec\<close>: the abstract anchor, a machine with a root, an index, a stage and two histories,
    and its safety: the released transfers form one numbered path of roots. \<open>System\<close>: the appliance
    under any sequence of operations, power losses, recoveries and outside counter steps, and the
    forward simulation to the abstract anchor. \<open>System_Properties\<close>, \<open>Crash_Recovery\<close>: what follows.
  \<^item> \<open>Proto\<close> (\<open>proto.rs\<close>, \<open>dsm_anchor.proto\<close>): the wire messages and their conversions, with the
    locale \<open>wire_message\<close> as the contract of a conversion. prost's byte codec is the parameter \<open>prost\<close>.
  \<^item> \<open>Service\<close>, \<open>Service_Facts\<close>, \<open>Service_Properties\<close> (\<open>service.rs\<close>): dispatch and frame handling; a
    second simulation shows that serving requests is a run of \<open>System\<close>, so its safety holds of the
    responses on the wire. The locale \<open>record_contents\<close> carries a property of what is stored through
    the operations. \<open>Double_Spend\<close>: the served appliance together with two receivers.
  \<^item> \<open>Firmware\<close>, \<open>Framing\<close>, \<open>Firmware_Properties\<close>, \<open>Self_Test\<close> (\<open>firmware/src/main.rs\<close>):
    the chip bridge, enrollment, the framing of requests, and the self-test. The session of the
    \<open>tropic01\<close> crate is the parameter record \<open>session\<close>.
  \<^item> \<open>Usb\<close>, \<open>Serve\<close>, \<open>Serve_Properties\<close> (\<open>write_all\<close>, \<open>BufW\<close> and \<open>serve_forever\<close> of \<open>main.rs\<close>): the
    service loop with its port, related to the framing functions: what the host receives, when a
    write ends, and that the loop keeps turning. The board (USB, clock, oscillator, handshake) is
    the parameter record \<open>board\<close>; what is assumed of it is \<open>usb_port\<close>, \<open>host_drains\<close>, \<open>clock_runs\<close>.
  \<^item> \<open>Answers\<close>: induction over what the service loop sends (the locale \<open>answer_invariant\<close>), used for
    the size of the responses and, in \<open>Device_Safety\<close>, for the chain that a booted device's releases form.
  \<^item> \<open>Hardware\<close> (\<open>main\<close>): the calls that set up clocks, pins, SPI and USB, in order and with their
    arguments, and the \<open>unwrap\<close> after those that can fail; what a call does is a field of the board.
  \<^item> \<open>Boot\<close>, \<open>Boot_Properties\<close>, \<open>Boot_Examples\<close> (\<open>main\<close>): everything from reset to the service loop,
    phase by phase, with the texts reported, and the whole program from power-on to an accepted
    transfer.
  \<^item> \<open>Host_Script\<close> (\<open>tools/anchor_host_test.py\<close>): the reference host driver, from its protobuf bytes to
    its verdict. \<open>Wire_Format\<close>: its parser inverts its encoder; the messages of \<open>dsm_anchor.proto\<close> as
    proto3 fields, which gives an instance of \<open>prost\<close>. \<open>Host_Script_Properties\<close>: the script against
    the appliance, over a terminal whose contract is the locale \<open>served_tty\<close>. \<open>Whole_System\<close>: the
    script over the USB port of a device that has booted, from power-on to PASS.
  \<^item> \<open>Response_Size\<close>: how long the answers of the device can be, against its heap; the only property
    that asks more of prost's decoder than that it inverts the encoder (\<open>decodes_within\<close>).
  \<^item> \<open>Host_Tests\<close> (\<open>tests/integration.rs\<close>): the end-to-end tests of the repository, which pass on the
    model for every hash function.
  \<^item> \<open>Key_Memory\<close>, \<open>Key_Erasure\<close> (\<open>appliance.rs\<close> again): the same operations over a heap, where the
    witness key is a buffer that \<open>zeroize_vec\<close> and the \<open>Drop\<close> of a prepared record write to. They
    refine the operations over values, and leave no key byte outside the key in use.
  \<^item> \<open>Well_Typed\<close>: the shape of the appliance's state, kept by every operation on any chip.
    \<open>Recovery_Spec\<close>: recovery as a table over the index that the counter shows.

  \<^bold>\<open>How code is rendered.\<close> Structs are records, enums are datatypes, \<open>u8\<close> to \<open>u64\<close> are words of that
  width. An operation on \<open>&mut self\<close> takes the state and returns it with the result, on error paths
  too. \<open>Result\<close> is a sum, or \<open>outcome\<close> where the code can also panic: the flag \<open>pf_debug\<close> of the
  platform says whether overflow checks and debug assertions are compiled in. Loops over data are recursive
  functions that terminate. The loops of the firmware that wait for the host or the clock may not
  end: they are partial functions whose value is \<open>None\<close> when they do not, and theorems say when they
  do. Those that watch the clock are also given by the library's \<open>while\<close> (\<open>timed_loop_while\<close>). \<open>serve_forever\<close>, which never returns, is its state after any number of turns. A panic of the
  firmware (\<open>panic_halt\<close>, an endless loop) is \<open>None\<close> as well. Byte sequences are lists without a bound, so a length
  that must fit 32 bits is a hypothesis (\<open>enc_fits\<close>), which every package off the wire satisfies.

  \<^bold>\<open>Interfaces.\<close> What a component asks of another is a locale: the encoders, the chip, the signature
  scheme, the conversions, the chip session, the simulations. Each is interpreted on the program's
  definitions, or, for the hardware, on the mock chip of the repository's tests. The properties
  are theorems outside the locales; a contract appears in them as a hypothesis.

  \<^bold>\<open>What is not covered.\<close> Timing and side channels, copies of secrets in local variables (\<open>prepare\<close>
  overwrites its own, \<open>WotsBlake3::sign\<close> leaves its copy of the key), allocation failure, the effect of
  the set-up calls on the hardware and the handles they pass on, the program metadata, the build
  scripts, and, in the host script, opening the port and printing. Of third-party code only the
  results that the program looks at are represented: the handshake gives a session or not, a read of
  the clock gives a number, and the difference of two instants, which would panic on a clock that
  runs backwards, is a parameter. When the boot ends is stated for both builds; its closed examples
  are release builds, where the addition of a deadline wraps around. Durability is that of the
  model: the firmware of this repository keeps the active record in RAM and enrolls at every boot,
  whose consequences are stated in \<open>Firmware_Properties\<close>.
\<close>

end
